(* ===== verification/Prelude.thy ===== *)
theory Prelude
  imports
    Main
    "HOL-Library.Finite_Map"
    "HOL-Library.Char_ord"
    "HOL-Library.List_Lexorder"
    "HOL-Library.Sublist"
    "HOL-Library.Word"
    "HOL-Library.Signed_Division"
    "HOL-Library.Code_Target_Nat"
begin

text \<open>
  What every component of the agent shares.

  Go strings are byte strings: \<^typ>\<open>string\<close>, a list of 8-bit characters, ordered
  bytewise (the lexicographic order of \<open>Char_ord\<close> and \<open>List_Lexorder\<close>).
  A Go map is a finite map; reading a missing key of a \<open>map[string]string\<close> gives the
  empty string (\<open>go_get\<close>).  The order in which \<open>range\<close> visits a Go map is not
  determined by the language, so every operation that ranges over a map and whose result
  depends on the order takes the order as an argument, and its lemmas hold for every list
  that \<open>enumerates\<close> the map.  Where the keys are sorted afterwards the order is
  irrelevant (lemma \<open>sort_enumeration\<close>) and the model uses \<open>sorted_keys\<close>.

  \<open>removeIf\<close> is the in-place pruning loop of the telemetry slices: the callback may
  change the element before it decides to keep or to drop it.
\<close>

named_theorems go_lookup \<open>lookups in updated Go maps\<close>
named_theorems go_string \<open>prefixes, suffixes and searches in Go strings\<close>

type_synonym label_map = "(string, string) fmap"
type_synonym 'k key_set = "('k, unit) fmap"

section \<open>Maps\<close>

definition go_get :: "label_map \<Rightarrow> string \<Rightarrow> string" where
  "go_get m k = (case fmlookup m k of None \<Rightarrow> '''' | Some v \<Rightarrow> v)"

definition map_len :: "('k, 'v) fmap \<Rightarrow> nat" where
  "map_len m = fcard (fmdom m)"

definition enumerates :: "'k list \<Rightarrow> ('k, 'v) fmap \<Rightarrow> bool" where
  "enumerates ks m \<longleftrightarrow> distinct ks \<and> fset_of_list ks = fmdom m"

definition sorted_keys :: "('k::linorder, 'v) fmap \<Rightarrow> 'k list" where
  "sorted_keys m = sorted_list_of_fset (fmdom m)"

text \<open>Insert a list of pairs from left to right, a later pair overriding an earlier one.\<close>

fun put_all :: "('k, 'v) fmap \<Rightarrow> ('k \<times> 'v) list \<Rightarrow> ('k, 'v) fmap" where
  "put_all m [] = m"
| "put_all m ((k, v) # kvs) = put_all (fmupd k v m) kvs"

text \<open>Delete a list of keys.\<close>

fun drop_all :: "('k, 'v) fmap \<Rightarrow> 'k list \<Rightarrow> ('k, 'v) fmap" where
  "drop_all m [] = m"
| "drop_all m (k # ks) = drop_all (fmdrop k m) ks"

section \<open>Slices\<close>

fun removeIf :: "('a \<Rightarrow> 'a \<times> bool) \<Rightarrow> 'a list \<Rightarrow> 'a list" where
  "removeIf f [] = []"
| "removeIf f (x # xs) =
     (let (x', remove) = f x in if remove then removeIf f xs else x' # removeIf f xs)"

section \<open>Lemmas on results\<close>

lemma case_result_iff [simp]:
  "(case r of Inl e \<Rightarrow> False | Inr y \<Rightarrow> Q y) \<longleftrightarrow> (\<exists>y. r = Inr y \<and> Q y)"
  by (cases r) auto

lemma case_option_iff:
  "(case r of None \<Rightarrow> False | Some y \<Rightarrow> Q y) \<longleftrightarrow> (\<exists>y. r = Some y \<and> Q y)"
  by (cases r) auto

section \<open>Lemmas on maps\<close>

lemma go_get_fmempty [simp]: "go_get fmempty k = ''''"
  by (simp add: go_get_def)

lemma go_get_fmupd [simp, go_lookup]:
  "go_get (fmupd k v m) k' = (if k = k' then v else go_get m k')"
  by (simp add: go_get_def)

lemma put_all_append: "put_all m (xs @ ys) = put_all (put_all m xs) ys"
  by (induction xs arbitrary: m) auto

lemma put_all_lookup [go_lookup]:
  "fmlookup (put_all m kvs) k =
     (case map_of (rev kvs) k of None \<Rightarrow> fmlookup m k | Some v \<Rightarrow> Some v)"
proof (induction kvs arbitrary: m rule: rev_induct)
  case Nil
  then show ?case by simp
next
  case (snoc kv kvs)
  then show ?case by (cases kv) (simp add: put_all_append)
qed

lemma put_all_dom: "fmdom (put_all m kvs) = fmdom m |\<union>| fset_of_list (map fst kvs)"
  by (induction m kvs rule: put_all.induct) auto

lemma drop_all_lookup [simp, go_lookup]:
  "fmlookup (drop_all m ks) k = (if k \<in> set ks then None else fmlookup m k)"
  by (induction ks arbitrary: m) auto

lemma enumerates_set: "enumerates ks m \<Longrightarrow> k \<in> set ks \<longleftrightarrow> fmlookup m k \<noteq> None"
  by (auto simp: enumerates_def fmlookup_dom_iff simp flip: fset_of_list_elem)

lemma enumerates_distinct: "enumerates ks m \<Longrightarrow> distinct ks"
  by (simp add: enumerates_def)

lemma enumerates_length: "enumerates ks m \<Longrightarrow> length ks = map_len m"
  by (simp add: enumerates_def map_len_def)
    (metis distinct_card fcard.rep_eq fset_of_list.rep_eq)

lemma set_sorted_keys [simp]: "set (sorted_keys m) = fset (fmdom m)"
  by (simp add: sorted_keys_def)

lemma sorted_sorted_keys [simp]: "sorted (sorted_keys m)"
  by (simp add: sorted_keys_def sorted_list_of_fset.rep_eq)

lemma distinct_sorted_keys [simp]: "distinct (sorted_keys m)"
  by (simp add: sorted_keys_def sorted_list_of_fset.rep_eq)

lemma enumerates_sorted_keys: "enumerates (sorted_keys m) m"
  by (simp add: enumerates_def) (simp add: sorted_keys_def)

lemma enumerates_fset: "enumerates ks m \<Longrightarrow> fset (fmdom m) = set ks"
  by (metis enumerates_def fset_of_list.rep_eq)

lemma sort_enumeration: "enumerates ks m \<Longrightarrow> sort ks = sorted_keys m"
  by (simp add: sorted_keys_def sorted_list_of_fset.rep_eq enumerates_fset
      sorted_list_of_set_sort_remdups distinct_remdups_id enumerates_distinct)

lemma sorted_keys_fmempty [simp]: "sorted_keys fmempty = []"
  by (simp add: sorted_keys_def sorted_list_of_fset.rep_eq)

lemma fmdom_fempty_iff [simp]: "fmdom m = {||} \<longleftrightarrow> m = fmempty"
  by (auto intro: fmap_ext simp: fmdom_notD)

lemma map_len_zero [simp]: "map_len m = 0 \<longleftrightarrow> m = fmempty"
  by (simp add: map_len_def)

lemma map_len_fmempty [simp]: "map_len fmempty = 0"
  by simp

lemma fset_fmdom_empty [simp]: "fset (fmdom m) = {} \<longleftrightarrow> m = fmempty"
  by (metis bot_fset.rep_eq fset_inject fmdom_fempty_iff)

lemma sorted_keys_empty_iff: "sorted_keys m = [] \<longleftrightarrow> m = fmempty"
  using enumerates_length [OF enumerates_sorted_keys, of m] by auto

section \<open>Lemmas on slices\<close>

lemma removeIf_cong [fundef_cong]:
  "xs = ys \<Longrightarrow> (\<And>y. y \<in> set ys \<Longrightarrow> f y = g y) \<Longrightarrow> removeIf f xs = removeIf g ys"
  by (induction ys arbitrary: xs) (auto split: prod.splits)

lemma removeIf_map_filter:
  "removeIf f xs = map (fst \<circ> f) (filter (\<lambda>x. \<not> snd (f x)) xs)"
  by (induction xs) (auto split: prod.splits)

lemma removeIf_filter [simp]: "removeIf (\<lambda>x. (x, P x)) xs = filter (\<lambda>x. \<not> P x) xs"
  by (simp add: removeIf_map_filter comp_def)

lemma lookup_go_get: "fmlookup m k = (if k \<in> set (sorted_keys m) then Some (go_get m k) else None)"
  by (cases "fmlookup m k") (simp_all add: go_get_def fmdomI fmdom_notI)

end
