(* ===== verification/Go_Strings.thy ===== *)
theory Go_Strings
  imports Prelude
begin

text \<open>
  The part of Go's standard library on strings that the agent's code calls: package
  \<open>strings\<close> (prefixes, suffixes, \<open>Cut\<close>, \<open>Join\<close>, trimming, mapping),
  \<open>unicode/utf8\<close> (decoding with Go's replacement rule, encoding, validity),
  \<open>unicode\<close> (the Latin-1 part of the tables is written out; the rest of the Unicode
  tables of the Go release is the argument \<open>unicode_tables\<close>) and
  \<open>encoding/hex\<close>.

  The lemmas the components rest on: splitting at a separator undoes joining, a decoded
  rune re-encodes to the bytes it was read from, and hexadecimal decoding undoes encoding.
\<close>

section \<open>Bytes and strings\<close>

abbreviation ord :: "char \<Rightarrow> nat" where
  "ord c \<equiv> of_char c"

abbreviation byte :: "nat \<Rightarrow> char" where
  "byte n \<equiv> char_of n"

text \<open>The double quote, the backquote and the backslash, named because they cannot be written
  inside the other quotes.\<close>

abbreviation dquote :: char where "dquote \<equiv> CHR 0x22"
abbreviation bquote :: char where "bquote \<equiv> CHR 0x60"
abbreviation backslash :: char where "backslash \<equiv> CHR 0x5C"
abbreviation newline :: char where "newline \<equiv> CHR 0x0A"
abbreviation creturn :: char where "creturn \<equiv> CHR 0x0D"
abbreviation nulbyte :: char where "nulbyte \<equiv> CHR 0x00"

definition HasPrefix :: "string \<Rightarrow> string \<Rightarrow> bool" where
  "HasPrefix s p = prefix p s"

definition HasSuffix :: "string \<Rightarrow> string \<Rightarrow> bool" where
  "HasSuffix s p = suffix p s"

definition TrimPrefix :: "string \<Rightarrow> string \<Rightarrow> string" where
  "TrimPrefix s p = (if prefix p s then drop (length p) s else s)"

definition TrimSuffix :: "string \<Rightarrow> string \<Rightarrow> string" where
  "TrimSuffix s p = (if suffix p s then take (length s - length p) s else s)"

definition CutPrefix :: "string \<Rightarrow> string \<Rightarrow> string \<times> bool" where
  "CutPrefix s p = (if prefix p s then (drop (length p) s, True) else (s, False))"

text \<open>\<open>strings.Cut\<close> with a separator of one byte: before, after, found.\<close>

fun Cut :: "string \<Rightarrow> char \<Rightarrow> string \<times> string \<times> bool" where
  "Cut [] sep = ([], [], False)"
| "Cut (c # s) sep =
     (if c = sep then ([], s, True)
      else let (before, after, found) = Cut s sep in (c # before, after, found))"

fun Join :: "string list \<Rightarrow> string \<Rightarrow> string" where
  "Join [] sep = []"
| "Join [s] sep = s"
| "Join (s # t # ss) sep = s @ sep @ Join (t # ss) sep"

text \<open>\<open>strings.ReplaceAll\<close> where the old and the new string have one byte.\<close>

definition ReplaceAll1 :: "string \<Rightarrow> char \<Rightarrow> char \<Rightarrow> string" where
  "ReplaceAll1 s old new = map (\<lambda>c. if c = old then new else c) s"

text \<open>\<open>strings.TrimRight\<close> with a cutset of one byte.\<close>

definition TrimRight1 :: "string \<Rightarrow> char \<Rightarrow> string" where
  "TrimRight1 s c = rev (dropWhile (\<lambda>x. x = c) (rev s))"

section \<open>UTF-8\<close>

abbreviation RuneError :: nat where "RuneError \<equiv> 0xFFFD"

definition ValidRune :: "nat \<Rightarrow> bool" where
  "ValidRune r \<longleftrightarrow> r < 0xD800 \<or> 0xDFFF < r \<and> r \<le> 0x10FFFF"

definition cont :: "char \<Rightarrow> bool" where
  "cont c \<longleftrightarrow> 0x80 \<le> ord c \<and> ord c \<le> 0xBF"

definition second3 :: "nat \<Rightarrow> char \<Rightarrow> bool" where
  "second3 b0 c \<longleftrightarrow>
     (if b0 = 0xE0 then 0xA0 else 0x80) \<le> ord c \<and> ord c \<le> (if b0 = 0xED then 0x9F else 0xBF)"

definition second4 :: "nat \<Rightarrow> char \<Rightarrow> bool" where
  "second4 b0 c \<longleftrightarrow>
     (if b0 = 0xF0 then 0x90 else 0x80) \<le> ord c \<and> ord c \<le> (if b0 = 0xF4 then 0x8F else 0xBF)"

text \<open>\<open>utf8.DecodeRuneInString\<close>: the rune and its width; an ill-formed sequence gives
  \<open>RuneError\<close> and width 1, the empty string \<open>RuneError\<close> and width 0.\<close>

fun decodeRune :: "string \<Rightarrow> nat \<times> nat" where
  "decodeRune [] = (RuneError, 0)"
| "decodeRune (c0 # cs) =
     (let b0 = ord c0 in
      if b0 < 0x80 then (b0, 1)
      else if 0xC2 \<le> b0 \<and> b0 \<le> 0xDF then
        (case cs of
           c1 # _ \<Rightarrow> if cont c1 then ((b0 - 0xC0) * 64 + (ord c1 - 0x80), 2) else (RuneError, 1)
         | [] \<Rightarrow> (RuneError, 1))
      else if 0xE0 \<le> b0 \<and> b0 \<le> 0xEF then
        (case cs of
           c1 # c2 # _ \<Rightarrow>
             if second3 b0 c1 \<and> cont c2
             then ((b0 - 0xE0) * 4096 + (ord c1 - 0x80) * 64 + (ord c2 - 0x80), 3)
             else (RuneError, 1)
         | _ \<Rightarrow> (RuneError, 1))
      else if 0xF0 \<le> b0 \<and> b0 \<le> 0xF4 then
        (case cs of
           c1 # c2 # c3 # _ \<Rightarrow>
             if second4 b0 c1 \<and> cont c2 \<and> cont c3
             then ((b0 - 0xF0) * 262144 + (ord c1 - 0x80) * 4096 + (ord c2 - 0x80) * 64
                   + (ord c3 - 0x80), 4)
             else (RuneError, 1)
         | _ \<Rightarrow> (RuneError, 1))
      else (RuneError, 1))"

text \<open>\<open>utf8.AppendRune\<close>: an invalid rune is encoded as \<open>RuneError\<close>.\<close>

definition encodeRune :: "nat \<Rightarrow> string" where
  "encodeRune r0 =
     (let r = (if ValidRune r0 then r0 else RuneError) in
      if r < 0x80 then [byte r]
      else if r < 0x800 then [byte (0xC0 + r div 64), byte (0x80 + r mod 64)]
      else if r < 0x10000 then
        [byte (0xE0 + r div 4096), byte (0x80 + r div 64 mod 64), byte (0x80 + r mod 64)]
      else
        [byte (0xF0 + r div 262144), byte (0x80 + r div 4096 mod 64),
         byte (0x80 + r div 64 mod 64), byte (0x80 + r mod 64)])"

definition bad_chunk :: "string \<Rightarrow> bool" where
  "bad_chunk s \<longleftrightarrow> decodeRune s = (RuneError, 1)"

lemma decodeRune_width: "s \<noteq> [] \<Longrightarrow> 0 < snd (decodeRune s) \<and> snd (decodeRune s) \<le> length s"
  by (cases s) (auto simp: Let_def split: list.splits)

text \<open>The runes of a string, in the way Go's \<open>range\<close> loop over a string yields them,
  each with its bytes.\<close>

function runes :: "string \<Rightarrow> (nat \<times> string) list" where
  "runes [] = []"
| "runes (c # s) =
     (let (r, w) = decodeRune (c # s) in (r, take w (c # s)) # runes (drop w (c # s)))"
  by pat_completeness auto
termination
  by (relation "measure length")
    (auto simp del: decodeRune.simps, metis decodeRune_width diff_less list.distinct(1)
      snd_conv zero_less_Suc)

definition ValidString :: "string \<Rightarrow> bool" where
  "ValidString s = list_all (\<lambda>(r, bs). \<not> (r = RuneError \<and> length bs = 1)) (runes s)"

section \<open>Unicode classes\<close>

record unicode_tables =
  uni_letter :: "nat \<Rightarrow> bool"
  uni_digit :: "nat \<Rightarrow> bool"
  uni_print :: "nat \<Rightarrow> bool"
  uni_upper :: "nat \<Rightarrow> nat"

definition IsLetter :: "unicode_tables \<Rightarrow> nat \<Rightarrow> bool" where
  "IsLetter u r =
     (if r \<le> 0xFF then
        0x41 \<le> r \<and> r \<le> 0x5A \<or> 0x61 \<le> r \<and> r \<le> 0x7A \<or> r = 0xAA \<or> r = 0xB5 \<or> r = 0xBA
        \<or> 0xC0 \<le> r \<and> r \<noteq> 0xD7 \<and> r \<noteq> 0xF7
      else uni_letter u r)"

definition IsDigit :: "unicode_tables \<Rightarrow> nat \<Rightarrow> bool" where
  "IsDigit u r = (if r \<le> 0xFF then 0x30 \<le> r \<and> r \<le> 0x39 else uni_digit u r)"

definition IsPrint :: "unicode_tables \<Rightarrow> nat \<Rightarrow> bool" where
  "IsPrint u r =
     (if r \<le> 0xFF then 0x20 \<le> r \<and> r < 0x7F \<or> 0xA1 \<le> r \<and> r \<noteq> 0xAD else uni_print u r)"

definition IsSpace :: "nat \<Rightarrow> bool" where
  "IsSpace r \<longleftrightarrow>
     r \<in> {0x09, 0x0A, 0x0B, 0x0C, 0x0D, 0x20, 0x85, 0xA0, 0x1680, 0x2028, 0x2029, 0x202F, 0x205F, 0x3000}
     \<or> 0x2000 \<le> r \<and> r \<le> 0x200A"

definition TrimSpace :: "string \<Rightarrow> string" where
  "TrimSpace s =
     concat (map snd (rev (dropWhile (IsSpace \<circ> fst) (rev (dropWhile (IsSpace \<circ> fst) (runes s))))))"

text \<open>\<open>strings.Map\<close> with a mapping that never drops a rune.\<close>

definition MapRunes :: "(nat \<Rightarrow> nat) \<Rightarrow> string \<Rightarrow> string" where
  "MapRunes f s = concat (map (\<lambda>(r, _). encodeRune (f r)) (runes s))"

definition ToUpper :: "unicode_tables \<Rightarrow> string \<Rightarrow> string" where
  "ToUpper u s =
     MapRunes (\<lambda>r. if r < 0x80 then (if 0x61 \<le> r \<and> r \<le> 0x7A then r - 0x20 else r)
                    else uni_upper u r) s"

section \<open>Hexadecimal\<close>

definition lowerhex :: "nat \<Rightarrow> char" where
  "lowerhex n = ''0123456789abcdef'' ! n"

definition unhex :: "char \<Rightarrow> nat option" where
  "unhex c =
     (let n = ord c in
      if 0x30 \<le> n \<and> n \<le> 0x39 then Some (n - 0x30)
      else if 0x61 \<le> n \<and> n \<le> 0x66 then Some (n - 0x61 + 10)
      else if 0x41 \<le> n \<and> n \<le> 0x46 then Some (n - 0x41 + 10)
      else None)"

fun EncodeToString :: "string \<Rightarrow> string" where
  "EncodeToString [] = []"
| "EncodeToString (c # s) = lowerhex (ord c div 16) # lowerhex (ord c mod 16) # EncodeToString s"

fun DecodeString :: "string \<Rightarrow> string option" where
  "DecodeString [] = Some []"
| "DecodeString [c] = None"
| "DecodeString (c # d # s) =
     (case (unhex c, unhex d) of
        (Some h, Some l) \<Rightarrow> map_option (\<lambda>t. byte (16 * h + l) # t) (DecodeString s)
      | _ \<Rightarrow> None)"

section \<open>Lemmas on prefixes, suffixes and joins\<close>

lemma HasPrefix_append [simp, go_string]: "HasPrefix (p @ s) p"
  by (simp add: HasPrefix_def)

lemma HasSuffix_append [simp, go_string]: "HasSuffix (s @ p) p"
  by (simp add: HasSuffix_def suffix_def)

lemma TrimPrefix_append [simp, go_string]: "TrimPrefix (p @ s) p = s"
  by (simp add: TrimPrefix_def)

lemma TrimSuffix_append [simp, go_string]: "TrimSuffix (s @ p) p = s"
  by (auto simp: TrimSuffix_def suffix_def)

lemma HasSuffixE:
  assumes "HasSuffix s p"
  obtains t where "s = t @ p" "TrimSuffix s p = t"
  using assms by (auto simp: HasSuffix_def suffix_def)

lemma Cut_append [simp, go_string]: "sep \<notin> set s \<Longrightarrow> Cut (s @ sep # t) sep = (s, t, True)"
  by (induction s) auto

lemma Cut_none: "sep \<notin> set s \<Longrightarrow> Cut s sep = (s, [], False)"
  by (induction s) auto

lemma Cut_found_iff: "snd (snd (Cut s sep)) \<longleftrightarrow> sep \<in> set s"
  by (induction s) (auto split: prod.splits)

lemma Cut_recompose: "Cut s sep = (a, b, True) \<Longrightarrow> s = a @ sep # b \<and> sep \<notin> set a"
  by (induction s arbitrary: a) (auto split: prod.splits if_splits)

lemma Join_Cons: "ss \<noteq> [] \<Longrightarrow> Join (s # ss) sep = s @ sep @ Join ss sep"
  by (cases ss) auto

lemma append_sep_inject:
  "c \<notin> set a \<Longrightarrow> c \<notin> set b \<Longrightarrow> a @ c # x = b @ c # y \<longleftrightarrow> a = b \<and> x = y"
proof (induction a arbitrary: b)
  case Nil
  then show ?case by (cases b) auto
next
  case (Cons d a)
  then show ?case by (cases b) auto
qed

text \<open>Joining with a separator byte that no element contains is injective on non-empty lists.\<close>

lemma Join_inject:
  assumes "\<forall>s \<in> set ss. c \<notin> set s" and "\<forall>t \<in> set ts. c \<notin> set t"
    and "ss \<noteq> []" and "ts \<noteq> []" and "Join ss [c] = Join ts [c]"
  shows "ss = ts"
  using assms
proof (induction ss arbitrary: ts)
  case Nil
  then show ?case by simp
next
  case (Cons s ss)
  then obtain t ts' where ts: "ts = t # ts'" by (cases ts) auto
  show ?case
  proof (cases "ss = [] \<or> ts' = []")
    case True
    have sep: "c \<in> set (x @ [c] @ y)" for x y by simp
    from True Cons.prems ts show ?thesis
      by (metis Join.simps(2) Join_Cons list.set_intros(1) sep)
  next
    case False
    with Cons.prems ts have eq: "s @ c # Join ss [c] = t @ c # Join ts' [c]"
      by (simp add: Join_Cons)
    moreover have "c \<notin> set s" "c \<notin> set t" using Cons.prems ts by auto
    ultimately have "s = t" and "Join ss [c] = Join ts' [c]"
      using append_sep_inject [of c s t] by auto
    moreover have "ss = ts'" using Cons.IH [of ts'] Cons.prems ts False \<open>Join ss [c] = _\<close> by auto
    ultimately show ?thesis using ts by simp
  qed
qed

section \<open>Lemmas on UTF-8\<close>

lemma decodeRune_cases:
  assumes "s \<noteq> []" and "\<not> bad_chunk s"
  obtains
    (one) c cs where "s = c # cs" "ord c < 0x80" "decodeRune s = (ord c, 1)"
  | (two) c0 c1 cs where "s = c0 # c1 # cs" "0xC2 \<le> ord c0" "ord c0 \<le> 0xDF" "cont c1"
      "decodeRune s = ((ord c0 - 0xC0) * 64 + (ord c1 - 0x80), 2)"
  | (three) c0 c1 c2 cs where "s = c0 # c1 # c2 # cs" "0xE0 \<le> ord c0" "ord c0 \<le> 0xEF"
      "second3 (ord c0) c1" "cont c2"
      "decodeRune s = ((ord c0 - 0xE0) * 4096 + (ord c1 - 0x80) * 64 + (ord c2 - 0x80), 3)"
  | (four) c0 c1 c2 c3 cs where "s = c0 # c1 # c2 # c3 # cs" "0xF0 \<le> ord c0" "ord c0 \<le> 0xF4"
      "second4 (ord c0) c1" "cont c2" "cont c3"
      "decodeRune s = ((ord c0 - 0xF0) * 262144 + (ord c1 - 0x80) * 4096 + (ord c2 - 0x80) * 64
                       + (ord c3 - 0x80), 4)"
proof -
  obtain c cs where s: "s = c # cs" using assms(1) by (cases s) auto
  from assms(2) consider
      "ord c < 0x80"
    | "0xC2 \<le> ord c" "ord c \<le> 0xDF" "cs \<noteq> []" "cont (hd cs)"
    | "0xE0 \<le> ord c" "ord c \<le> 0xEF" "length cs \<ge> 2" "second3 (ord c) (hd cs)" "cont (hd (tl cs))"
    | "0xF0 \<le> ord c" "ord c \<le> 0xF4" "length cs \<ge> 3" "second4 (ord c) (hd cs)" "cont (hd (tl cs))"
        "cont (hd (tl (tl cs)))"
    unfolding s bad_chunk_def by (auto simp: Let_def split: if_splits list.splits)
  then show thesis
  proof cases
    case 1
    then show thesis using s by (intro one) auto
  next
    case 2
    then obtain c1 cs' where "cs = c1 # cs'" by (cases cs) auto
    with 2 s show thesis by (intro two) (auto simp: Let_def)
  next
    case 3
    then obtain c1 c2 cs' where "cs = c1 # c2 # cs'"
      by (cases cs; cases "tl cs") auto
    with 3 s show thesis by (intro three) (auto simp: Let_def)
  next
    case 4
    then obtain c1 c2 c3 cs' where "cs = c1 # c2 # c3 # cs'"
      by (cases cs; cases "tl cs"; cases "tl (tl cs)") auto
    with 4 s show thesis by (intro four) (auto simp: Let_def)
  qed
qed

lemmas second_byte_defs = cont_def second3_def second4_def

text \<open>A well-formed sequence decodes to a valid rune, whose encoding is that sequence.\<close>

lemma decodeRune_valid: "s \<noteq> [] \<Longrightarrow> \<not> bad_chunk s \<Longrightarrow> ValidRune (fst (decodeRune s))"
proof (erule (1) decodeRune_cases, goal_cases)
  case (3 c0 c1 c2 cs)
  then have "ord c0 = 0xED \<or> ord c0 < 0xED \<or> ord c0 > 0xED" by linarith
  with 3 show ?case by (auto simp: ValidRune_def second_byte_defs split: if_splits)
next
  case (4 c0 c1 c2 c3 cs)
  then have "ord c0 = 0xF4 \<or> ord c0 = 0xF0 \<or> 0xF1 \<le> ord c0 \<and> ord c0 \<le> 0xF3" by linarith
  with 4 show ?case by (auto simp: ValidRune_def second_byte_defs split: if_splits)
qed (auto simp: ValidRune_def second_byte_defs)

lemma digit64: "y < 64 \<Longrightarrow> (x * 64 + y) div 64 = (x::nat) \<and> (x * 64 + y) mod 64 = y"
  by simp

lemma digits64:
  fixes x y z w :: nat
  assumes "y < 64" "z < 64" "w < 64"
  shows "(x * 64 + y) div 64 = x" "(x * 64 + y) mod 64 = y"
    "(x * 4096 + y * 64 + z) div 4096 = x" "(x * 4096 + y * 64 + z) div 64 mod 64 = y"
    "(x * 4096 + y * 64 + z) mod 64 = z"
    "(x * 262144 + y * 4096 + z * 64 + w) div 262144 = x"
    "(x * 262144 + y * 4096 + z * 64 + w) div 4096 mod 64 = y"
    "(x * 262144 + y * 4096 + z * 64 + w) div 64 mod 64 = z"
    "(x * 262144 + y * 4096 + z * 64 + w) mod 64 = w"
proof -
  note d = digit64 [OF assms(1)] digit64 [OF assms(2)] digit64 [OF assms(3)]
  have e3: "x * 4096 + y * 64 + z = (x * 64 + y) * 64 + z" by simp
  have e4: "x * 262144 + y * 4096 + z * 64 + w = ((x * 64 + y) * 64 + z) * 64 + w" by simp
  have q2: "n div 4096 = n div 64 div 64" for n :: nat by (simp add: div_mult2_eq [symmetric])
  have q3: "n div 262144 = n div 64 div 64 div 64" for n :: nat by (simp add: div_mult2_eq [symmetric])
  show "(x * 64 + y) div 64 = x" "(x * 64 + y) mod 64 = y" by (simp_all only: d)
  show "(x * 4096 + y * 64 + z) div 4096 = x" "(x * 4096 + y * 64 + z) div 64 mod 64 = y"
    "(x * 4096 + y * 64 + z) mod 64 = z"
    by (simp_all only: e3 q2 d)
  show "(x * 262144 + y * 4096 + z * 64 + w) div 262144 = x"
    "(x * 262144 + y * 4096 + z * 64 + w) div 4096 mod 64 = y"
    "(x * 262144 + y * 4096 + z * 64 + w) div 64 mod 64 = z"
    "(x * 262144 + y * 4096 + z * 64 + w) mod 64 = w"
    by (simp_all only: e4 q2 q3 d)
qed

lemma encode_decodeRune:
  "s \<noteq> [] \<Longrightarrow> \<not> bad_chunk s \<Longrightarrow> encodeRune (fst (decodeRune s)) = take (snd (decodeRune s)) s"
proof -
  assume ne: "s \<noteq> []" and ok: "\<not> bad_chunk s"
  from decodeRune_valid [OF ne ok] have v: "ValidRune (fst (decodeRune s))" .
  from ne ok show ?thesis
  proof (cases rule: decodeRune_cases)
    case (one c cs)
    with v show ?thesis by (simp add: encodeRune_def)
  next
    case (two c0 c1 cs)
    define x y where xy: "x = ord c0 - 0xC0" "y = ord c1 - 0x80"
    have b: "y < 64" "2 \<le> x" "x < 32" "byte (0xC0 + x) = c0" "byte (0x80 + y) = c1"
      using two by (auto simp: xy cont_def)
    then have "encodeRune (x * 64 + y) = [c0, c1]"
      using v two xy by (simp add: encodeRune_def digits64)
    with two xy show ?thesis by simp
  next
    case (three c0 c1 c2 cs)
    define x y z where xyz: "x = ord c0 - 0xE0" "y = ord c1 - 0x80" "z = ord c2 - 0x80"
    have b: "y < 64" "z < 64" "x < 16" "byte (0xE0 + x) = c0" "byte (0x80 + y) = c1"
      "byte (0x80 + z) = c2" "x = 0 \<longrightarrow> 32 \<le> y"
      using three by (auto simp: xyz second_byte_defs split: if_splits)
    then have "0x800 \<le> x * 4096 + y * 64 + z" "x * 4096 + y * 64 + z < 0x10000"
      by (cases "x = 0"; simp)+
    with b have "encodeRune (x * 4096 + y * 64 + z) = [c0, c1, c2]"
      using v three xyz by (simp add: encodeRune_def digits64)
    with three xyz show ?thesis by simp
  next
    case (four c0 c1 c2 c3 cs)
    define x y z w where xyzw: "x = ord c0 - 0xF0" "y = ord c1 - 0x80" "z = ord c2 - 0x80"
      "w = ord c3 - 0x80"
    have b: "y < 64" "z < 64" "w < 64" "byte (0xF0 + x) = c0" "byte (0x80 + y) = c1"
      "byte (0x80 + z) = c2" "byte (0x80 + w) = c3" "x = 0 \<longrightarrow> 16 \<le> y"
      using four by (auto simp: xyzw second_byte_defs split: if_splits)
    then have "0x10000 \<le> x * 262144 + y * 4096 + z * 64 + w"
      by (cases "x = 0"; simp)
    with b have "encodeRune (x * 262144 + y * 4096 + z * 64 + w) = [c0, c1, c2, c3]"
      using v four xyzw by (simp add: encodeRune_def digits64)
    with four xyzw show ?thesis by simp
  qed
qed

text \<open>Decoding reads only the bytes of the sequence it returns.\<close>

lemma decodeRune_take:
  assumes "s \<noteq> []" and "\<not> bad_chunk s"
  shows "decodeRune (take (snd (decodeRune s)) s @ t) = decodeRune s"
  using assms by (cases rule: decodeRune_cases) (auto simp: Let_def)

lemma runes_bytes: "concat (map snd (runes s)) = s"
  by (induction s rule: runes.induct) (auto simp del: decodeRune.simps split: prod.splits)

lemma encodeRune_nonempty [simp]: "encodeRune r \<noteq> []"
  by (simp add: encodeRune_def Let_def)

lemma hd_encodeRune: "ValidRune r \<Longrightarrow> 0x80 \<le> r \<Longrightarrow> 0x80 \<le> ord (hd (encodeRune r))"
  by (auto simp: encodeRune_def ValidRune_def)

lemma encodeRune_ascii: "r < 0x80 \<Longrightarrow> encodeRune r = [byte r]"
  by (simp add: encodeRune_def ValidRune_def)

text \<open>Every byte of a well-formed sequence of more than one byte is above the ASCII range.\<close>

lemma take_decodeRune_high:
  assumes "s \<noteq> []" "\<not> bad_chunk s" "0x80 \<le> ord (hd s)" "c \<in> set (take (snd (decodeRune s)) s)"
  shows "0x80 \<le> ord c"
  using assms by (cases rule: decodeRune_cases) (auto simp: second_byte_defs split: if_splits)

section \<open>Lemmas on hexadecimal\<close>

lemma unhex_lowerhex: "n < 16 \<Longrightarrow> unhex (lowerhex n) = Some n"
proof -
  assume "n < 16"
  then have "n \<in> set [0..<16]" by simp
  moreover have "\<forall>n \<in> set [0..<16]. unhex (lowerhex n) = Some n" by code_simp
  ultimately show ?thesis by blast
qed

lemma DecodeString_EncodeToString [simp]: "DecodeString (EncodeToString s) = Some s"
proof (induction s)
  case (Cons c s)
  have "ord c div 16 < 16" using nat_of_char_less_256 [of c] by linarith
  then show ?case using Cons by (simp add: unhex_lowerhex)
qed simp

lemma length_EncodeToString [simp]: "length (EncodeToString s) = 2 * length s"
  by (induction s) simp_all

lemma DecodeString_length: "DecodeString t = Some s \<Longrightarrow> length t = 2 * length s"
  by (induction t arbitrary: s rule: DecodeString.induct) (auto split: option.splits)

section \<open>Concrete tables\<close>

text \<open>Tables that know no letter, digit or printable rune beyond Latin-1.\<close>

definition latin_tables :: unicode_tables where
  "latin_tables = \<lparr>uni_letter = (\<lambda>r. False), uni_digit = (\<lambda>r. False), uni_print = (\<lambda>r. False),
     uni_upper = (\<lambda>r. r)\<rparr>"

end
