(* ===== verification/Metrics_Index.thy ===== *)
theory Metrics_Index
  imports Go_Strings
begin

text \<open>
  Package \<open>metricsindex\<close> (\<open>src/components/metricsindex/timeseries.go\<close>): the key of a
  timeseries, the batch the tracker hands to its receivers, and the global registry of
  receivers.  A \<open>HashKey\<close> is a list of 16 bytes (\<open>hash_key_ok\<close>).  A receiver is
  named by its identity; what receiving a batch does to the state of the agent is the
  argument \<open>receive\<close> of the broadcast.
\<close>

type_synonym HashKey = string

definition hash_key_ok :: "HashKey \<Rightarrow> bool" where
  "hash_key_ok h \<longleftrightarrow> length h = 16"

definition HashKey_String :: "HashKey \<Rightarrow> string" where
  "HashKey_String h = EncodeToString h"

record LabelPair =
  LabelName :: string
  LabelValue :: string

record TimeseriesEntry =
  MetricName :: string
  Labels :: "LabelPair list"
  Samples :: int

record TimeseriesBatch =
  Data :: "(HashKey, TimeseriesEntry) fmap"

section \<open>The registry of receivers\<close>

definition RegisterTimeseriesReceiver :: "'r list \<Rightarrow> 'r \<Rightarrow> 'r list" where
  "RegisterTimeseriesReceiver receivers receiver = receivers @ [receiver]"

fun UnregisterTimeseriesReceiver :: "'r list \<Rightarrow> 'r \<Rightarrow> 'r list" where
  "UnregisterTimeseriesReceiver [] receiver = []"
| "UnregisterTimeseriesReceiver (r # rs) receiver =
     (if r = receiver then rs else r # UnregisterTimeseriesReceiver rs receiver)"

fun BroadcastTimeseriesBatch ::
    "('r \<Rightarrow> TimeseriesBatch \<Rightarrow> 's \<Rightarrow> 's) \<Rightarrow> 'r list \<Rightarrow> TimeseriesBatch \<Rightarrow> 's \<Rightarrow> 's" where
  "BroadcastTimeseriesBatch receive [] batch st = st"
| "BroadcastTimeseriesBatch receive (r # rs) batch st =
     BroadcastTimeseriesBatch receive rs batch (receive r batch st)"

lemma UnregisterTimeseriesReceiver_remove1: "UnregisterTimeseriesReceiver rs r = remove1 r rs"
  by (induction rs) auto

lemma unregister_registered:
  "r \<notin> set rs \<Longrightarrow> UnregisterTimeseriesReceiver (RegisterTimeseriesReceiver rs r) r = rs"
  by (induction rs) (auto simp: RegisterTimeseriesReceiver_def)

text \<open>Every registered receiver gets the batch once for each registration.\<close>

lemma broadcast_counts:
  "BroadcastTimeseriesBatch (\<lambda>r b st. st @ [(r, b)]) rs batch st = st @ map (\<lambda>r. (r, batch)) rs"
  by (induction rs arbitrary: st) simp_all

section \<open>Keys as text\<close>

text \<open>The hexadecimal text of a key determines it.\<close>

lemma HashKey_String_roundtrip: "DecodeString (HashKey_String h) = Some h"
  by (simp add: HashKey_String_def DecodeString_EncodeToString)

lemma HashKey_String_inject [simp]: "HashKey_String h = HashKey_String h' \<longleftrightarrow> h = h'"
  by (metis HashKey_String_roundtrip option.inject)

lemma length_HashKey_String: "hash_key_ok h \<Longrightarrow> length (HashKey_String h) = 32"
  by (simp add: HashKey_String_def hash_key_ok_def length_EncodeToString)

end
