(* ===== verification/Batch_Source.thy ===== *)
theory Batch_Source
  imports Prelude
begin

text \<open>
  The contract between a cache of the edge controller and the loop that syncs it: the loop
  takes a batch of keys, sends it, and removes those keys once the backend has answered.
  \<open>batch_source\<close> is what a cache promises; \<open>drain\<close> is the loop without failures.
  Inside the locale: enough rounds empty the source, and every key is sent exactly once.
\<close>

fun drain :: "('c \<Rightarrow> 'k list) \<Rightarrow> ('k list \<Rightarrow> 'c \<Rightarrow> 'c) \<Rightarrow> nat \<Rightarrow> 'c \<Rightarrow> 'k list \<times> 'c" where
  "drain take_batch purge n c =
     (if n = 0 then ([], c)
      else let ks = take_batch c; (rest_keys, c') = drain take_batch purge (n - 1) (purge ks c)
        in (ks @ rest_keys, c'))"

declare drain.simps [simp del]

locale batch_source =
  fixes take_batch :: "'c \<Rightarrow> 'k list"
    and purge :: "'k list \<Rightarrow> 'c \<Rightarrow> 'c"
    and waiting :: "'c \<Rightarrow> 'k set"
    and ready :: "'c \<Rightarrow> bool"
  assumes batch_waiting: "ready c \<Longrightarrow> set (take_batch c) \<subseteq> waiting c"
    and batch_distinct: "ready c \<Longrightarrow> distinct (take_batch c)"
    and batch_progress: "ready c \<Longrightarrow> waiting c \<noteq> {} \<Longrightarrow> take_batch c \<noteq> []"
    and waiting_finite: "ready c \<Longrightarrow> finite (waiting c)"
    and purge_waiting: "ready c \<Longrightarrow> waiting (purge (take_batch c) c) = waiting c - set (take_batch c)"
    and purge_ready: "ready c \<Longrightarrow> ready (purge (take_batch c) c)"
begin

lemma batch_nonempty_iff: "ready c \<Longrightarrow> take_batch c = [] \<longleftrightarrow> waiting c = {}"
  using batch_waiting [of c] batch_progress [of c] by auto

lemma drain_all:
  "ready c \<Longrightarrow> card (waiting c) \<le> n \<Longrightarrow>
   waiting (snd (drain take_batch purge n c)) = {}
   \<and> distinct (fst (drain take_batch purge n c))
   \<and> set (fst (drain take_batch purge n c)) = waiting c"
proof (induction n arbitrary: c)
  case 0
  then have "waiting c = {}" using waiting_finite [of c] by simp
  then show ?case by (simp add: drain.simps)
next
  case (Suc n)
  let ?ks = "take_batch c" and ?c = "purge (take_batch c) c"
  have "card (waiting ?c) \<le> n"
  proof (cases "waiting c = {}")
    case True
    then show ?thesis by (simp add: purge_waiting [OF Suc.prems(1)])
  next
    case False
    then obtain k where "k \<in> set ?ks" using batch_progress [OF Suc.prems(1)] by (cases ?ks) auto
    then have "waiting c - set ?ks \<subset> waiting c" using batch_waiting [OF Suc.prems(1)] by blast
    then have "card (waiting c - set ?ks) < card (waiting c)"
      by (rule psubset_card_mono [OF waiting_finite [OF Suc.prems(1)]])
    then show ?thesis using Suc.prems(2) by (simp add: purge_waiting [OF Suc.prems(1)])
  qed
  from Suc.IH [OF purge_ready [OF Suc.prems(1)] this]
  have IH: "waiting (snd (drain take_batch purge n ?c)) = {}"
    "distinct (fst (drain take_batch purge n ?c))"
    "set (fst (drain take_batch purge n ?c)) = waiting c - set ?ks"
    by (simp_all add: purge_waiting [OF Suc.prems(1)])
  have "drain take_batch purge (Suc n) c =
      (?ks @ fst (drain take_batch purge n ?c), snd (drain take_batch purge n ?c))"
    by (subst drain.simps) (simp add: Let_def case_prod_unfold)
  with IH batch_waiting [OF Suc.prems(1)] batch_distinct [OF Suc.prems(1)] show ?case by auto
qed

end

end
