(* ===== verification/Known_Cache.thy ===== *)
theory Known_Cache
  imports Metrics_Index Batch_Source "HOL-Library.Product_Lexorder" "HOL-Library.Multiset"
begin

text \<open>
  The cache of known timeseries
  (\<open>src/components/edgecontroller/known_timeseries_cache.go\<close>).  An entry counts the samples
  of a series in a ring buffer of eight hourly slots.  Slots are 64-bit words, the head is an
  8-bit word, Unix times are integers (Go's \<open>/\<close> and \<open>%\<close> truncate towards zero:
  \<open>sdiv\<close>, \<open>smod\<close>); \<open>now\<close> is the reading of the clock at the call.  Storing
  through a head outside the array is a run-time panic: \<open>None\<close>.  The order in which the
  map is ranged over is the argument \<open>visit\<close>.

  \<open>window\<close> is the abstraction: the count of each of the last eight hours.  The lemmas
  show that every operation implements it, so that the total of an entry is the number of
  samples of the last eight hours, and what the batches select.
\<close>

section \<open>Entries and the ring buffer\<close>

abbreviation (input) HoursLog :: int where "HoursLog \<equiv> 8"
abbreviation (input) TargetBackendUpdateMinutes :: int where "TargetBackendUpdateMinutes \<equiv> 1"

record KnownTimeseriesEntry =
  known_MetricName :: string
  LastUpdate :: int
  LastBackendSync :: int
  lastHour :: int
  head :: "8 word"
  samples :: "64 word list"

record KnownActiveTimeseriesItem =
  item_HashKey :: HashKey
  TotalSamples :: "64 word"
  item_LastUpdate :: int

record KnownTimeseriesCache =
  known :: "(HashKey, KnownTimeseriesEntry) fmap"

definition NewKnownTimeseriesCache :: KnownTimeseriesCache where
  "NewKnownTimeseriesCache = \<lparr>known = fmempty\<rparr>"

definition known_Init :: "KnownTimeseriesCache \<Rightarrow> KnownTimeseriesCache" where
  "known_Init c = c\<lparr>known := fmempty\<rparr>"

definition known_Clear :: "KnownTimeseriesCache \<Rightarrow> KnownTimeseriesCache" where
  "known_Clear c = c\<lparr>known := fmempty\<rparr>"

definition known_GetSize :: "KnownTimeseriesCache \<Rightarrow> nat" where
  "known_GetSize c = map_len (known c)"

definition hour_of :: "int \<Rightarrow> int" where
  "hour_of unix = unix sdiv 3600"

definition head_of :: "int \<Rightarrow> 8 word" where
  "head_of hour = word_of_int (hour smod HoursLog)"

definition store_slot :: "KnownTimeseriesEntry \<Rightarrow> 64 word \<Rightarrow> KnownTimeseriesEntry option" where
  "store_slot e v =
     (if unat (head e) < length (samples e) then Some (e\<lparr>samples := (samples e)[unat (head e) := v]\<rparr>)
      else None)"

fun advance_loop :: "nat \<Rightarrow> KnownTimeseriesEntry \<Rightarrow> KnownTimeseriesEntry" where
  "advance_loop n e =
     (if n = 0 then e
      else let h = (head e + 1) mod 8 in
        advance_loop (n - 1) (e\<lparr>head := h, samples := (samples e)[unat h := 0]\<rparr>))"

declare advance_loop.simps [simp del]

definition advanceRingBuffer :: "KnownTimeseriesEntry \<Rightarrow> int \<Rightarrow> KnownTimeseriesEntry" where
  "advanceRingBuffer e currentHour =
     (if currentHour \<le> lastHour e then e
      else let hoursPassed = currentHour - lastHour e;
               e1 = (if hoursPassed \<ge> HoursLog
                     then e\<lparr>samples := map (\<lambda>s. 0) (samples e), head := head_of currentHour\<rparr>
                     else advance_loop (nat hoursPassed) e)
           in e1\<lparr>lastHour := currentHour\<rparr>)"

definition sumSamples :: "KnownTimeseriesEntry \<Rightarrow> 64 word" where
  "sumSamples e = sum_list (samples e)"

section \<open>Operations\<close>

definition IsTimeseriesKnown :: "KnownTimeseriesCache \<Rightarrow> HashKey \<Rightarrow> bool" where
  "IsTimeseriesKnown c key \<longleftrightarrow> fmlookup (known c) key \<noteq> None"

definition UpdateTimeseries ::
    "int \<Rightarrow> HashKey \<Rightarrow> TimeseriesEntry \<Rightarrow> KnownTimeseriesCache \<Rightarrow> KnownTimeseriesCache option" where
  "UpdateTimeseries nowUnix key entry c =
     (let currentHour = hour_of nowUnix in
      case fmlookup (known c) key of
        None \<Rightarrow>
          let newEntry = \<lparr>known_MetricName = MetricName entry, LastUpdate = nowUnix, LastBackendSync = 0,
                lastHour = currentHour, head = head_of currentHour, samples = replicate 8 0\<rparr>
          in map_option (\<lambda>e. c\<lparr>known := fmupd key e (known c)\<rparr>)
               (store_slot newEntry (word_of_int (Samples entry)))
      | Some existing \<Rightarrow>
          let e = advanceRingBuffer existing currentHour
          in map_option (\<lambda>e. c\<lparr>known := fmupd key (e\<lparr>LastUpdate := nowUnix\<rparr>) (known c)\<rparr>)
               (store_slot e (samples e ! unat (head e) + word_of_int (Samples entry))))"

fun pending_loop :: "(HashKey, KnownTimeseriesEntry) fmap \<Rightarrow> int \<Rightarrow> HashKey list \<Rightarrow> nat" where
  "pending_loop m threshold [] = 0"
| "pending_loop m threshold (k # ks) =
     (case fmlookup m k of
        None \<Rightarrow> pending_loop m threshold ks
      | Some e \<Rightarrow> (if LastBackendSync e < threshold then 1 else 0) + pending_loop m threshold ks)"

definition GetPendingBackendUpdates :: "int \<Rightarrow> HashKey list \<Rightarrow> KnownTimeseriesCache \<Rightarrow> nat" where
  "GetPendingBackendUpdates now visit c =
     pending_loop (known c) (now - TargetBackendUpdateMinutes * 60) visit"

definition CountDemanded :: "string key_set \<Rightarrow> HashKey list \<Rightarrow> KnownTimeseriesCache \<Rightarrow> nat" where
  "CountDemanded demanded visit c =
     (if map_len demanded = 0 then 0
      else length (filter (\<lambda>k. case fmlookup (known c) k of
             None \<Rightarrow> False
           | Some e \<Rightarrow> fmlookup demanded (known_MetricName e) \<noteq> None) visit))"

definition MetricNameSet :: "HashKey list \<Rightarrow> KnownTimeseriesCache \<Rightarrow> string key_set" where
  "MetricNameSet visit c =
     put_all fmempty (concat (map (\<lambda>k. case fmlookup (known c) k of
        None \<Rightarrow> [] | Some e \<Rightarrow> [(known_MetricName e, ())]) visit))"

fun active_loop ::
    "int \<Rightarrow> nat \<Rightarrow> int \<Rightarrow> HashKey list \<Rightarrow> KnownActiveTimeseriesItem list \<Rightarrow> KnownTimeseriesCache
     \<Rightarrow> KnownActiveTimeseriesItem list \<times> KnownTimeseriesCache" where
  "active_loop olderThan batchSize currentHour [] items c = (items, c)"
| "active_loop olderThan batchSize currentHour (key # keys) items c =
     (if length items \<ge> batchSize then (items, c)
      else case fmlookup (known c) key of
        None \<Rightarrow> active_loop olderThan batchSize currentHour keys items c
      | Some entry \<Rightarrow>
          let e = advanceRingBuffer entry currentHour;
              c' = c\<lparr>known := fmupd key e (known c)\<rparr>
          in if LastBackendSync e \<ge> olderThan then active_loop olderThan batchSize currentHour keys items c'
             else let totalSamples = sumSamples e in
               if totalSamples = 0 then active_loop olderThan batchSize currentHour keys items c'
               else active_loop olderThan batchSize currentHour keys
                 (items @ [\<lparr>item_HashKey = key, TotalSamples = totalSamples,
                            item_LastUpdate = LastUpdate e * 1000\<rparr>]) c')"

definition GetActiveTimeseriesBatch ::
    "int \<Rightarrow> HashKey list \<Rightarrow> int \<Rightarrow> int \<Rightarrow> KnownTimeseriesCache
     \<Rightarrow> KnownActiveTimeseriesItem list \<times> KnownTimeseriesCache" where
  "GetActiveTimeseriesBatch now visit olderThan batchSize c =
     (if batchSize \<le> 0 then ([], c)
      else active_loop olderThan (nat batchSize) (hour_of now) visit [] c)"

fun inactive_loop ::
    "nat \<Rightarrow> int \<Rightarrow> HashKey list \<Rightarrow> HashKey list \<Rightarrow> KnownTimeseriesCache
     \<Rightarrow> HashKey list \<times> KnownTimeseriesCache" where
  "inactive_loop batchSize currentHour [] keys c = (keys, c)"
| "inactive_loop batchSize currentHour (key # visit) keys c =
     (if length keys \<ge> batchSize then (keys, c)
      else case fmlookup (known c) key of
        None \<Rightarrow> inactive_loop batchSize currentHour visit keys c
      | Some entry \<Rightarrow>
          let e = advanceRingBuffer entry currentHour;
              c' = c\<lparr>known := fmupd key e (known c)\<rparr>
          in if sumSamples e = 0 then inactive_loop batchSize currentHour visit (keys @ [key]) c'
             else inactive_loop batchSize currentHour visit keys c')"

definition GetInactiveTimeseriesBatch ::
    "int \<Rightarrow> HashKey list \<Rightarrow> int \<Rightarrow> KnownTimeseriesCache \<Rightarrow> HashKey list \<times> KnownTimeseriesCache" where
  "GetInactiveTimeseriesBatch now visit batchSize c =
     (if batchSize \<le> 0 then ([], c)
      else inactive_loop (nat batchSize) (hour_of now) visit [] c)"

definition DeleteBatch :: "HashKey list \<Rightarrow> KnownTimeseriesCache \<Rightarrow> KnownTimeseriesCache" where
  "DeleteBatch keys c = c\<lparr>known := drop_all (known c) keys\<rparr>"

definition MarkSynced :: "int \<Rightarrow> HashKey \<Rightarrow> KnownTimeseriesCache \<Rightarrow> KnownTimeseriesCache" where
  "MarkSynced now key c =
     (case fmlookup (known c) key of
        None \<Rightarrow> c
      | Some e \<Rightarrow> c\<lparr>known := fmupd key (e\<lparr>LastBackendSync := now\<rparr>) (known c)\<rparr>)"

definition MarkSyncedBatch :: "int \<Rightarrow> HashKey list \<Rightarrow> KnownTimeseriesCache \<Rightarrow> KnownTimeseriesCache" where
  "MarkSyncedBatch nowUnix keys c = fold (MarkSynced nowUnix) keys c"

record KnownEntryView =
  view_Fingerprint :: string
  view_MetricName :: string
  view_LastUpdate :: int
  view_LastBackendSync :: int
  view_Samples :: "64 word"

text \<open>\<open>sort.Slice\<close> with a strict order on metric name and fingerprint; fingerprints are
  distinct, so the sorted slice is determined.\<close>

definition Snapshot :: "HashKey list \<Rightarrow> KnownTimeseriesCache \<Rightarrow> KnownEntryView list" where
  "Snapshot visit c =
     sort_key (\<lambda>v. (view_MetricName v, view_Fingerprint v))
       (concat (map (\<lambda>k. case fmlookup (known c) k of
          None \<Rightarrow> []
        | Some e \<Rightarrow> [\<lparr>view_Fingerprint = HashKey_String k, view_MetricName = known_MetricName e,
                     view_LastUpdate = LastUpdate e, view_LastBackendSync = LastBackendSync e,
                     view_Samples = sumSamples e\<rparr>]) visit))"

section \<open>The window of the last eight hours\<close>

definition entry_wf :: "KnownTimeseriesEntry \<Rightarrow> bool" where
  "entry_wf e \<longleftrightarrow> length (samples e) = 8 \<and> 0 \<le> lastHour e \<and> uint (head e) = lastHour e mod 8"

definition known_wf :: "KnownTimeseriesCache \<Rightarrow> bool" where
  "known_wf c \<longleftrightarrow> (\<forall>k e. fmlookup (known c) k = Some e \<longrightarrow> entry_wf e)"

definition window :: "KnownTimeseriesEntry \<Rightarrow> int \<Rightarrow> 64 word" where
  "window e h = (if lastHour e - 8 < h \<and> h \<le> lastHour e then samples e ! nat (h mod 8) else 0)"

lemma hour_of_nonneg: "0 \<le> t \<Longrightarrow> hour_of t = t div 3600"
  by (cases "t = 0") (simp_all add: hour_of_def signed_divide_int_def)

lemma hour_of_ge0: "0 \<le> t \<Longrightarrow> 0 \<le> hour_of t"
  by (simp add: hour_of_nonneg)

lemma hour_of_mono: "0 \<le> t \<Longrightarrow> t \<le> t' \<Longrightarrow> hour_of t \<le> hour_of t'"
  by (simp add: hour_of_nonneg zdiv_mono1)

lemma mod8_256: "(h mod 256) mod 8 = h mod (8 :: int)"
  by (rule mod_mod_cancel) simp

lemma uint_head_of:
  assumes "0 \<le> h"
  shows "uint (head_of h) = h mod 8"
proof -
  have "h smod 8 = h mod 8"
    using assms by (cases "h = 0") (simp_all add: signed_modulo_int_def signed_divide_int_def minus_div_mult_eq_mod)
  moreover have "(h mod 8) mod 256 = h mod 8"
    by (intro mod_pos_pos_trivial) (auto intro: less_trans [OF pos_mod_bound])
  ultimately show ?thesis by (simp add: head_of_def unsigned_of_int take_bit_eq_mod)
qed

lemma entry_wf_slot: "entry_wf e \<Longrightarrow> unat (head e) = nat (lastHour e mod 8)"
  by (simp add: entry_wf_def flip: nat_uint_eq)

lemma entry_wf_head: "entry_wf e \<Longrightarrow> unat (head e) < length (samples e)"
  by (simp add: entry_wf_slot) (simp add: entry_wf_def nat_less_iff)

lemma head_succ:
  assumes "entry_wf e"
  shows "uint ((head e + 1) mod 8) = (lastHour e + 1) mod 8"
  using assms by (simp add: entry_wf_def uint_mod uint_word_ariths mod8_256 mod_simps)

lemma nat_mod8_eq: "nat (x mod 8) = nat (y mod 8) \<longleftrightarrow> x mod 8 = y mod (8 :: int)"
  by (simp add: eq_nat_nat_iff)

lemma mod8_inj:
  fixes x y :: int
  assumes "x mod 8 = y mod 8" "x - y < 8" "y - x < 8"
  shows "x = y"
proof -
  obtain k where "x - y = 8 * k" using assms(1) unfolding mod_eq_dvd_iff by (auto elim: dvdE)
  moreover from this have "k = 0" using assms(2,3) by linarith
  ultimately show ?thesis by simp
qed

text \<open>One turn of the loop, with the hour it stands for.\<close>

definition next_hour :: "KnownTimeseriesEntry \<Rightarrow> KnownTimeseriesEntry" where
  "next_hour e =
     (let h = (head e + 1) mod 8
      in e\<lparr>head := h, samples := (samples e)[unat h := 0], lastHour := lastHour e + 1\<rparr>)"

lemma next_hour_wf: "entry_wf e \<Longrightarrow> entry_wf (next_hour e)"
  using head_succ [of e] by (simp add: entry_wf_def next_hour_def Let_def)

lemma next_hour_window:
  assumes "entry_wf e"
  shows "window (next_hour e) h = (if lastHour e + 1 - 8 < h then window e h else 0)"
proof -
  let ?i = "unat ((head e + 1) mod 8)"
  have i: "?i = nat ((lastHour e + 1) mod 8)" using head_succ [OF assms] by (simp flip: nat_uint_eq)
  have len: "length (samples e) = 8" using assms by (simp add: entry_wf_def)
  have "samples (next_hour e) ! nat (h mod 8) = (if h = lastHour e + 1 then 0 else samples e ! nat (h mod 8))"
    if "lastHour e - 7 < h" "h \<le> lastHour e + 1"
  proof -
    have "nat (h mod 8) = ?i \<longleftrightarrow> h = lastHour e + 1"
      unfolding i nat_mod8_eq using that mod8_inj [of h "lastHour e + 1"] by auto
    moreover have "?i < length (samples e)" by (simp add: i len nat_less_iff)
    ultimately have "(samples e)[?i := 0] ! nat (h mod 8)
        = (if h = lastHour e + 1 then 0 else samples e ! nat (h mod 8))"
      by (simp only: nth_list_update eq_commute [of ?i])
    then show ?thesis by (simp only: next_hour_def Let_def) simp
  qed
  then show ?thesis by (auto simp: window_def next_hour_def Let_def)
qed

lemma advance_loop_lastHour: "advance_loop n (e\<lparr>lastHour := x\<rparr>) = (advance_loop n e)\<lparr>lastHour := x\<rparr>"
proof (induction n arbitrary: e)
  case (Suc n)
  let ?h = "(head e + 1) mod 8"
  have "advance_loop (Suc n) (e\<lparr>lastHour := x\<rparr>)
      = advance_loop n ((e\<lparr>head := ?h, samples := (samples e)[unat ?h := 0]\<rparr>)\<lparr>lastHour := x\<rparr>)"
    by (subst advance_loop.simps) (simp add: Let_def, rule arg_cong [of _ _ "advance_loop n"], cases e, simp)
  also have "\<dots> = (advance_loop (Suc n) e)\<lparr>lastHour := x\<rparr>"
    unfolding Suc by (subst (2) advance_loop.simps) (simp add: Let_def)
  finally show ?case .
qed (simp add: advance_loop.simps)

lemma advance_loop_next: "(advance_loop n e)\<lparr>lastHour := lastHour e + int n\<rparr> = (next_hour ^^ n) e"
proof (induction n arbitrary: e)
  case 0
  then show ?case by (simp add: advance_loop.simps)
next
  case (Suc n)
  let ?h = "(head e + 1) mod 8"
  let ?e = "e\<lparr>head := ?h, samples := (samples e)[unat ?h := 0]\<rparr>"
  have "(next_hour ^^ Suc n) e = (next_hour ^^ n) (next_hour e)" by (simp add: funpow_swap1)
  also have "\<dots> = (advance_loop n (next_hour e))\<lparr>lastHour := lastHour (next_hour e) + int n\<rparr>"
    using Suc [of "next_hour e"] by simp
  also have "advance_loop n (next_hour e) = (advance_loop n ?e)\<lparr>lastHour := lastHour e + 1\<rparr>"
    using advance_loop_lastHour [where n = n and e = ?e and x = "lastHour e + 1"] by (simp add: next_hour_def Let_def)
  also have "advance_loop n ?e = advance_loop (Suc n) e"
    by (subst (2) advance_loop.simps) (simp add: Let_def)
  finally show ?case by (simp add: next_hour_def Let_def algebra_simps)
qed

lemma next_hour_iterate:
  "entry_wf e \<Longrightarrow> entry_wf ((next_hour ^^ n) e) \<and> lastHour ((next_hour ^^ n) e) = lastHour e + int n
   \<and> window ((next_hour ^^ n) e) h = (if lastHour e + int n - 8 < h then window e h else 0)"
proof (induction n)
  case 0
  then show ?case by (simp add: window_def)
next
  case (Suc n)
  have "lastHour (next_hour e') = lastHour e' + 1" for e' by (simp add: next_hour_def Let_def)
  with Suc show ?case by (auto simp: next_hour_wf next_hour_window)
qed

lemma advance_window:
  assumes "entry_wf e"
  shows "entry_wf (advanceRingBuffer e C)"
    and "lastHour (advanceRingBuffer e C) = max (lastHour e) C"
    and "window (advanceRingBuffer e C) h = (if max (lastHour e) C - 8 < h then window e h else 0)"
proof -
  consider (same) "C \<le> lastHour e" | (all) "lastHour e + 8 \<le> C" | (some) "lastHour e < C" "C < lastHour e + 8"
    by linarith
  then have "entry_wf (advanceRingBuffer e C) \<and> lastHour (advanceRingBuffer e C) = max (lastHour e) C
    \<and> window (advanceRingBuffer e C) h = (if max (lastHour e) C - 8 < h then window e h else 0)"
  proof cases
    case same
    then show ?thesis using assms by (auto simp: advanceRingBuffer_def window_def)
  next
    case all
    have "0 \<le> C" using all assms by (simp add: entry_wf_def)
    then show ?thesis using all assms
      by (auto simp: advanceRingBuffer_def entry_wf_def window_def Let_def uint_head_of)
  next
    case some
    then have "advanceRingBuffer e C = (next_hour ^^ nat (C - lastHour e)) e"
      using advance_loop_next [where n = "nat (C - lastHour e)" and e = e] by (simp add: advanceRingBuffer_def Let_def)
    then show ?thesis using some next_hour_iterate [OF assms, where n = "nat (C - lastHour e)" and h = h] by simp
  qed
  then show "entry_wf (advanceRingBuffer e C)" "lastHour (advanceRingBuffer e C) = max (lastHour e) C"
    "window (advanceRingBuffer e C) h = (if max (lastHour e) C - 8 < h then window e h else 0)"
    by simp_all
qed

lemma sumSamples_window:
  assumes "entry_wf e"
  shows "sumSamples e = (\<Sum>h \<in> {lastHour e - 7 .. lastHour e}. window e h)"
proof -
  let ?H = "{lastHour e - 7 .. lastHour e}" and ?f = "\<lambda>h. nat (h mod 8)"
  have inj: "inj_on ?f ?H"
  proof (rule inj_onI)
    fix x y assume b: "x \<in> ?H" "y \<in> ?H" and "?f x = ?f y"
    then have "x mod 8 = y mod 8" by (simp only: nat_mod8_eq)
    moreover have "x - y < 8" "y - x < 8" using b by auto
    ultimately show "x = y" by (rule mod8_inj)
  qed
  have "?f ` ?H = {0..<8}"
  proof (rule card_subset_eq)
    show "?f ` ?H \<subseteq> {0..<8}" by auto
    show "card (?f ` ?H) = card {0..<8::nat}" using card_image [OF inj] by simp
  qed simp
  with inj have "bij_betw ?f ?H {0..<8}" by (simp add: bij_betw_def)
  from sum.reindex_bij_betw [OF this, of "\<lambda>i. samples e ! i"]
  have "(\<Sum>i = 0..<8. samples e ! i) = (\<Sum>h \<in> ?H. samples e ! ?f h)" by simp
  also have "\<dots> = (\<Sum>h \<in> ?H. window e h)" by (intro sum.cong) (auto simp: window_def)
  finally show ?thesis using assms
    by (simp add: sumSamples_def sum_list_sum_nth entry_wf_def atLeast0LessThan)
qed

section \<open>Recording samples\<close>

lemma store_slot_window:
  assumes "entry_wf e"
  shows "\<exists>e'. store_slot e v = Some e' \<and> entry_wf e' \<and> lastHour e' = lastHour e
    \<and> LastBackendSync e' = LastBackendSync e
    \<and> (\<forall>h. window e' h = (if h = lastHour e then v else window e h))"
proof -
  let ?e = "e\<lparr>samples := (samples e)[unat (head e) := v]\<rparr>"
  have i: "unat (head e) = nat (lastHour e mod 8)" by (rule entry_wf_slot [OF assms])
  have "window ?e h = (if h = lastHour e then v else window e h)" for h
  proof (cases "lastHour e - 8 < h \<and> h \<le> lastHour e")
    case True
    then have "nat (h mod 8) = unat (head e) \<longleftrightarrow> h = lastHour e"
      unfolding i nat_mod8_eq using mod8_inj [of h "lastHour e"] by auto
    with True show ?thesis
      using nth_list_update [OF entry_wf_head [OF assms], of v "nat (h mod 8)"]
      by (auto simp: window_def)
  qed (auto simp: window_def)
  moreover have "store_slot e v = Some ?e" using entry_wf_head [OF assms] by (simp add: store_slot_def)
  moreover have "entry_wf ?e" using assms by (simp add: entry_wf_def)
  ultimately show ?thesis by (intro exI [of _ ?e]) simp
qed

lemma current_slot: "entry_wf e \<Longrightarrow> samples e ! unat (head e) = window e (lastHour e)"
  by (simp add: window_def entry_wf_slot)

text \<open>What an update does to the window of its key; \<open>old\<close> is the window before, zero for a new
  series.\<close>

definition old_window :: "KnownTimeseriesCache \<Rightarrow> HashKey \<Rightarrow> int \<Rightarrow> 64 word" where
  "old_window c k h = (case fmlookup (known c) k of None \<Rightarrow> 0 | Some e \<Rightarrow> window e h)"

definition old_hour :: "KnownTimeseriesCache \<Rightarrow> HashKey \<Rightarrow> int" where
  "old_hour c k = (case fmlookup (known c) k of None \<Rightarrow> 0 | Some e \<Rightarrow> lastHour e)"

lemma UpdateTimeseries_window:
  assumes "known_wf c" "0 \<le> now"
  shows "\<exists>c' e. UpdateTimeseries now key x c = Some c' \<and> known_wf c' \<and> fmlookup (known c') key = Some e
    \<and> (\<forall>k. k \<noteq> key \<longrightarrow> fmlookup (known c') k = fmlookup (known c) k)
    \<and> lastHour e = max (old_hour c key) (hour_of now)
    \<and> (\<forall>h. window e h = (if lastHour e - 8 < h then old_window c key h else 0)
          + (if h = lastHour e then word_of_int (Samples x) else 0))"
proof (cases "fmlookup (known c) key")
  case None
  let ?n = "\<lparr>known_MetricName = MetricName x, LastUpdate = now, LastBackendSync = 0, lastHour = hour_of now,
    head = head_of (hour_of now), samples = replicate 8 0\<rparr>"
  have "entry_wf ?n" using assms(2) by (simp add: entry_wf_def uint_head_of hour_of_ge0)
  from store_slot_window [OF this, of "word_of_int (Samples x)"] obtain e where e:
    "store_slot ?n (word_of_int (Samples x)) = Some e" "entry_wf e" "lastHour e = hour_of now"
    "\<And>h. window e h = (if h = hour_of now then word_of_int (Samples x) else window ?n h)" by auto
  have "window ?n h = 0" for h by (simp add: window_def nat_less_iff)
  with None e assms hour_of_ge0 [OF assms(2)] show ?thesis
    by (intro exI [of _ "c\<lparr>known := fmupd key e (known c)\<rparr>"] exI [of _ e])
      (auto simp: UpdateTimeseries_def Let_def known_wf_def old_window_def old_hour_def)
next
  case (Some old)
  let ?a = "advanceRingBuffer old (hour_of now)"
  have wf: "entry_wf old" using assms(1) Some by (simp add: known_wf_def)
  from store_slot_window [OF advance_window(1) [OF wf], of "hour_of now"
      "samples ?a ! unat (head ?a) + word_of_int (Samples x)"]
  obtain e where e: "store_slot ?a (samples ?a ! unat (head ?a) + word_of_int (Samples x)) = Some e"
    "entry_wf e" "lastHour e = lastHour ?a"
    "\<And>h. window e h = (if h = lastHour ?a then samples ?a ! unat (head ?a) + word_of_int (Samples x)
        else window ?a h)" by auto
  let ?e = "e\<lparr>LastUpdate := now\<rparr>"
  have "entry_wf ?e" "lastHour ?e = lastHour e" "\<And>h. window ?e h = window e h"
    using e(2) by (simp_all add: entry_wf_def window_def)
  moreover have "lastHour ?a = max (lastHour old) (hour_of now)" by (rule advance_window(2) [OF wf])
  ultimately show ?thesis using Some e assms(1) current_slot [OF advance_window(1) [OF wf]]
    by (intro exI [of _ "c\<lparr>known := fmupd key ?e (known c)\<rparr>"] exI [of _ ?e])
      (auto simp: UpdateTimeseries_def Let_def known_wf_def old_window_def old_hour_def advance_window(3) [OF wf])
qed

fun update_all ::
    "(int \<times> HashKey \<times> TimeseriesEntry) list \<Rightarrow> KnownTimeseriesCache \<Rightarrow> KnownTimeseriesCache option" where
  "update_all [] c = Some c"
| "update_all ((t, key, x) # us) c =
     (case UpdateTimeseries t key x c of None \<Rightarrow> None | Some c' \<Rightarrow> update_all us c')"

text \<open>The samples of a key that arrived in the hours that satisfy a predicate.\<close>

definition arrived ::
    "(int \<times> HashKey \<times> TimeseriesEntry) list \<Rightarrow> HashKey \<Rightarrow> (int \<Rightarrow> bool) \<Rightarrow> int" where
  "arrived us key P =
     sum_list (map (\<lambda>(t, k, x). Samples x) (filter (\<lambda>(t, k, x). k = key \<and> P (hour_of t)) us))"

lemma arrived_Nil [simp]: "arrived [] key P = 0"
  by (simp add: arrived_def)

lemma arrived_snoc:
  "arrived (us @ [(t, k, x)]) key P = arrived us key P + (if k = key \<and> P (hour_of t) then Samples x else 0)"
  by (simp add: arrived_def)

lemma update_all_append:
  "update_all (us @ vs) c = (case update_all us c of None \<Rightarrow> None | Some c' \<Rightarrow> update_all vs c')"
  by (induction us c rule: update_all.induct) (auto split: option.splits)

definition records ::
    "(int \<times> HashKey \<times> TimeseriesEntry) list \<Rightarrow> KnownTimeseriesCache \<Rightarrow> bool" where
  "records us c \<longleftrightarrow>
     known_wf c \<and>
     (\<forall>k. case fmlookup (known c) k of
        None \<Rightarrow> \<forall>(t, k', x) \<in> set us. k' \<noteq> k
      | Some e \<Rightarrow> (\<forall>(t, k', x) \<in> set us. k' = k \<longrightarrow> hour_of t \<le> lastHour e)
          \<and> (\<exists>(t, k', x) \<in> set us. k' = k \<and> lastHour e = hour_of t)
          \<and> (\<forall>h. lastHour e - 8 < h \<longrightarrow> window e h = word_of_int (arrived us k (\<lambda>h'. h' = h))))"

lemma arrived_later_hour:
  "\<forall>(t, k', x) \<in> set us. k' = k \<longrightarrow> hour_of t \<noteq> h \<Longrightarrow> arrived us k (\<lambda>h'. h' = h) = 0"
  unfolding arrived_def by (subst filter_False) auto

lemma records_known:
  assumes "records us c" "fmlookup (known c) k = Some e"
  shows "\<forall>(t, k', x) \<in> set us. k' = k \<longrightarrow> hour_of t \<le> lastHour e"
    and "\<exists>(t, k', x) \<in> set us. k' = k \<and> lastHour e = hour_of t"
    and "\<forall>h. lastHour e - 8 < h \<longrightarrow> window e h = word_of_int (arrived us k (\<lambda>h'. h' = h))"
  using assms unfolding records_def by (auto dest!: spec [of _ k])

lemma records_new:
  assumes "records us c" "fmlookup (known c) k = None"
  shows "\<forall>(t, k', x) \<in> set us. k' \<noteq> k"
  using assms unfolding records_def by (auto dest!: spec [of _ k])

lemma records_update:
  assumes "records us c" "0 \<le> t" "\<forall>(t', k, x) \<in> set us. 0 \<le> t' \<and> t' \<le> t"
  shows "\<exists>c'. UpdateTimeseries t key x c = Some c' \<and> records (us @ [(t, key, x)]) c'"
proof -
  have wf: "known_wf c" using assms(1) by (simp add: records_def)
  from UpdateTimeseries_window [OF wf assms(2), of key x] obtain c' e where u:
    "UpdateTimeseries t key x c = Some c'" "known_wf c'" "fmlookup (known c') key = Some e"
    "\<And>k. k \<noteq> key \<Longrightarrow> fmlookup (known c') k = fmlookup (known c) k"
    "lastHour e = max (old_hour c key) (hour_of t)"
    "\<And>h. window e h = (if lastHour e - 8 < h then old_window c key h else 0)
          + (if h = lastHour e then word_of_int (Samples x) else 0)" by blast
  have hours: "hour_of t' \<le> hour_of t" if "(t', k, y) \<in> set us" for t' k y
    using that assms(3) by (auto intro: hour_of_mono)
  have key: "old_hour c key \<le> hour_of t \<and> (\<forall>h. hour_of t - 8 < h \<longrightarrow>
      old_window c key h = word_of_int (arrived us key (\<lambda>h'. h' = h)))"
  proof (cases "fmlookup (known c) key")
    case None
    then have "\<forall>(t', k', y) \<in> set us. k' \<noteq> key"
      by (rule records_new [OF assms(1)])
    then have "arrived us key (\<lambda>h'. h' = h) = 0" for h by (intro arrived_later_hour) auto
    then show ?thesis using None hour_of_ge0 [OF assms(2)] by (simp add: old_hour_def old_window_def)
  next
    case (Some old)
    then have old: "\<forall>(t', k', y) \<in> set us. k' = key \<longrightarrow> hour_of t' \<le> lastHour old"
      "\<exists>(t', k', y) \<in> set us. k' = key \<and> lastHour old = hour_of t'"
      "\<forall>h. lastHour old - 8 < h \<longrightarrow> window old h = word_of_int (arrived us key (\<lambda>h'. h' = h))"
      using records_known [OF assms(1)] by auto
    then have "lastHour old \<le> hour_of t" using hours by auto
    then show ?thesis using old(3) Some by (auto simp: old_hour_def old_window_def)
  qed
  then have lh: "lastHour e = hour_of t" using u(5) by simp
  have "records (us @ [(t, key, x)]) c'"
    unfolding records_def
  proof (intro conjI allI)
    show "known_wf c'" by (rule u(2))
    fix k
    show "case fmlookup (known c') k of
        None \<Rightarrow> \<forall>(t', k', y) \<in> set (us @ [(t, key, x)]). k' \<noteq> k
      | Some e \<Rightarrow> (\<forall>(t', k', y) \<in> set (us @ [(t, key, x)]). k' = k \<longrightarrow> hour_of t' \<le> lastHour e)
          \<and> (\<exists>(t', k', y) \<in> set (us @ [(t, key, x)]). k' = k \<and> lastHour e = hour_of t')
          \<and> (\<forall>h. lastHour e - 8 < h \<longrightarrow>
                window e h = word_of_int (arrived (us @ [(t, key, x)]) k (\<lambda>h'. h' = h)))"
    proof (cases "k = key")
      case True
      then show ?thesis using u(3,6) key hours by (auto simp: lh arrived_snoc)
    next
      case False
      have "case fmlookup (known c) k of
        None \<Rightarrow> \<forall>(t, k', x) \<in> set us. k' \<noteq> k
      | Some e \<Rightarrow> (\<forall>(t, k', x) \<in> set us. k' = k \<longrightarrow> hour_of t \<le> lastHour e)
          \<and> (\<exists>(t, k', x) \<in> set us. k' = k \<and> lastHour e = hour_of t)
          \<and> (\<forall>h. lastHour e - 8 < h \<longrightarrow> window e h = word_of_int (arrived us k (\<lambda>h'. h' = h)))"
        using assms(1) unfolding records_def by blast
      with False u(4) [OF False] show ?thesis by (auto simp: arrived_snoc split: option.splits)
    qed
  qed
  with u(1) show ?thesis by blast
qed

definition timely :: "(int \<times> HashKey \<times> TimeseriesEntry) list \<Rightarrow> bool" where
  "timely us \<longleftrightarrow> sorted (map fst us) \<and> list_all (\<lambda>(t, k, x). 0 \<le> t) us"

lemma update_all_records: "timely us \<Longrightarrow> \<exists>c. update_all us NewKnownTimeseriesCache = Some c \<and> records us c"
proof (induction us rule: rev_induct)
  case Nil
  then show ?case by (simp add: records_def known_wf_def NewKnownTimeseriesCache_def)
next
  case (snoc u us)
  obtain t key x where u: "u = (t, key, x)" by (metis prod_cases3)
  from snoc obtain c where c: "update_all us NewKnownTimeseriesCache = Some c" "records us c"
    by (auto simp: timely_def sorted_append)
  moreover have "0 \<le> t" "\<forall>(t', k, x) \<in> set us. 0 \<le> t' \<and> t' \<le> t"
    using snoc.prems by (auto simp: timely_def u sorted_append list_all_iff)
  ultimately show ?case using records_update [of us c t key x] by (auto simp: u update_all_append)
qed

lemma sum_arrived_hours:
  "finite H \<Longrightarrow> (\<Sum>h \<in> H. arrived us key (\<lambda>h'. h' = h)) = arrived us key (\<lambda>h'. h' \<in> H)"
proof (induction us rule: rev_induct)
  case (snoc u us)
  obtain t k x where u: "u = (t, k, x)" by (metis prod_cases3)
  have "(\<Sum>h \<in> H. if k = key \<and> hour_of t = h then Samples x else 0)
      = (if k = key \<and> hour_of t \<in> H then Samples x else 0)"
    using snoc.prems by (cases "k = key") (simp_all add: sum.delta)
  with snoc show ?case by (simp add: u arrived_snoc sum.distrib)
qed simp

lemma arrived_cong: "(\<And>t k x. (t, k, x) \<in> set us \<Longrightarrow> k = key \<Longrightarrow> P (hour_of t) = Q (hour_of t)) \<Longrightarrow>
  arrived us key P = arrived us key Q"
  unfolding arrived_def by (rule arg_cong [of _ _ "\<lambda>xs. sum_list (map _ xs)"], rule filter_cong) auto

lemma recorded_total:
  assumes "records us c" "fmlookup (known c) key = Some e" "\<forall>(t, k, x) \<in> set us. hour_of t \<le> C"
  shows "sumSamples (advanceRingBuffer e C) = word_of_int (arrived us key (\<lambda>h. C - 8 < h))"
proof -
  have wf: "entry_wf e" using assms(1,2) by (auto simp: records_def known_wf_def)
  have e: "\<exists>(t, k', x) \<in> set us. k' = key \<and> lastHour e = hour_of t"
      "\<forall>h. lastHour e - 8 < h \<longrightarrow> window e h = word_of_int (arrived us key (\<lambda>h'. h' = h))"
    using records_known [OF assms(1,2)] by auto
  have "lastHour e \<le> C" using e(1) assms(3) by auto
  then have C: "lastHour (advanceRingBuffer e C) = C" using advance_window(2) [OF wf, of C] by simp
  have "sumSamples (advanceRingBuffer e C) = (\<Sum>h \<in> {C - 7 .. C}. window (advanceRingBuffer e C) h)"
    using sumSamples_window [OF advance_window(1) [OF wf], of C] by (simp add: C)
  also have "\<dots> = (\<Sum>h \<in> {C - 7 .. C}. word_of_int (arrived us key (\<lambda>h'. h' = h)))"
    using \<open>lastHour e \<le> C\<close> e(2) by (intro sum.cong) (auto simp: advance_window(3) [OF wf])
  also have "\<dots> = word_of_int (arrived us key (\<lambda>h. h \<in> {C - 7 .. C}))"
    by (simp only: of_int_sum sum_arrived_hours [OF finite_atLeastAtMost_int, symmetric])
  also have "arrived us key (\<lambda>h. h \<in> {C - 7 .. C}) = arrived us key (\<lambda>h. C - 8 < h)"
    using assms(3) by (intro arrived_cong) auto
  finally show ?thesis .
qed

section \<open>Batches\<close>

lemma advance_loop_fields [simp]:
  "LastBackendSync (advance_loop n e) = LastBackendSync e" "LastUpdate (advance_loop n e) = LastUpdate e"
  "known_MetricName (advance_loop n e) = known_MetricName e"
  by (induction n arbitrary: e) (simp_all add: advance_loop.simps Let_def)

lemma advance_fields [simp]:
  "LastBackendSync (advanceRingBuffer e C) = LastBackendSync e"
  "LastUpdate (advanceRingBuffer e C) = LastUpdate e"
  "known_MetricName (advanceRingBuffer e C) = known_MetricName e"
  by (simp_all add: advanceRingBuffer_def Let_def)

lemma advance_idem [simp]: "advanceRingBuffer (advanceRingBuffer e C) C = advanceRingBuffer e C"
  by (simp add: advanceRingBuffer_def Let_def)

text \<open>The total of a key at an hour, as the batches compute it.\<close>

definition total_at :: "KnownTimeseriesCache \<Rightarrow> int \<Rightarrow> HashKey \<Rightarrow> 64 word" where
  "total_at c C k = (case fmlookup (known c) k of None \<Rightarrow> 0 | Some e \<Rightarrow> sumSamples (advanceRingBuffer e C))"

definition due :: "int \<Rightarrow> int \<Rightarrow> KnownTimeseriesCache \<Rightarrow> HashKey \<Rightarrow> bool" where
  "due olderThan C c k \<longleftrightarrow>
     (case fmlookup (known c) k of None \<Rightarrow> False | Some e \<Rightarrow> LastBackendSync e < olderThan) \<and> total_at c C k \<noteq> 0"

definition active_item :: "KnownTimeseriesCache \<Rightarrow> int \<Rightarrow> HashKey \<Rightarrow> KnownActiveTimeseriesItem" where
  "active_item c C k =
     \<lparr>item_HashKey = k, TotalSamples = total_at c C k,
      item_LastUpdate = (case fmlookup (known c) k of None \<Rightarrow> 0 | Some e \<Rightarrow> LastUpdate e * 1000)\<rparr>"

definition idle :: "int \<Rightarrow> KnownTimeseriesCache \<Rightarrow> HashKey \<Rightarrow> bool" where
  "idle C c k \<longleftrightarrow> fmlookup (known c) k \<noteq> None \<and> total_at c C k = 0"

text \<open>Two caches that agree once every ring buffer is advanced to the hour.\<close>

definition same_at :: "int \<Rightarrow> KnownTimeseriesCache \<Rightarrow> KnownTimeseriesCache \<Rightarrow> bool" where
  "same_at C c c' \<longleftrightarrow>
     (\<forall>k. map_option (\<lambda>e. advanceRingBuffer e C) (fmlookup (known c') k)
        = map_option (\<lambda>e. advanceRingBuffer e C) (fmlookup (known c) k))"

lemma same_at_refl [simp]: "same_at C c c"
  by (simp add: same_at_def)

lemma same_at_trans: "same_at C c c' \<Longrightarrow> same_at C c' c'' \<Longrightarrow> same_at C c c''"
  by (simp add: same_at_def)

lemma same_at_step:
  "fmlookup (known c) k = Some e \<Longrightarrow> same_at C c (c\<lparr>known := fmupd k (advanceRingBuffer e C) (known c)\<rparr>)"
  by (simp add: same_at_def)

lemma due_upd:
  "k' \<noteq> k \<Longrightarrow> due olderThan C (c\<lparr>known := fmupd k e (known c)\<rparr>) k' = due olderThan C c k'"
  "k' \<noteq> k \<Longrightarrow> active_item (c\<lparr>known := fmupd k e (known c)\<rparr>) C k' = active_item c C k'"
  "k' \<noteq> k \<Longrightarrow> idle C (c\<lparr>known := fmupd k e (known c)\<rparr>) k' = idle C c k'"
  by (simp_all add: due_def active_item_def idle_def total_at_def)

lemma due_filter_upd:
  assumes "k \<notin> set ks"
  shows "filter (due olderThan C (c\<lparr>known := fmupd k e (known c)\<rparr>)) ks = filter (due olderThan C c) ks"
    and "map (active_item (c\<lparr>known := fmupd k e (known c)\<rparr>) C) (filter P ks) = map (active_item c C) (filter P ks)"
    and "filter (idle C (c\<lparr>known := fmupd k e (known c)\<rparr>)) ks = filter (idle C c) ks"
proof -
  have neq: "x \<noteq> k" if "x \<in> set ks" for x using assms that by auto
  show "filter (due olderThan C (c\<lparr>known := fmupd k e (known c)\<rparr>)) ks = filter (due olderThan C c) ks"
    "filter (idle C (c\<lparr>known := fmupd k e (known c)\<rparr>)) ks = filter (idle C c) ks"
    using neq by (simp_all add: due_upd cong: filter_cong)
  show "map (active_item (c\<lparr>known := fmupd k e (known c)\<rparr>) C) (filter P ks) = map (active_item c C) (filter P ks)"
    using neq by (simp add: due_upd)
qed

lemma active_loop_eq:
  assumes "distinct visit" "length items \<le> n"
  shows "fst (active_loop olderThan n C visit items c)
      = items @ take (n - length items) (map (active_item c C) (filter (due olderThan C c) visit))
    \<and> same_at C c (snd (active_loop olderThan n C visit items c))"
  using assms
proof (induction visit arbitrary: items c)
  case (Cons k ks)
  show ?case
  proof (cases "length items \<ge> n \<or> fmlookup (known c) k = None")
    case True
    then show ?thesis using Cons by (auto simp: due_def)
  next
    case False
    then obtain e where e: "fmlookup (known c) k = Some e" "length items < n" by auto
    let ?c = "c\<lparr>known := fmupd k (advanceRingBuffer e C) (known c)\<rparr>"
    let ?items = "if due olderThan C c k then items @ [active_item c C k] else items"
    have loop: "active_loop olderThan n C (k # ks) items c = active_loop olderThan n C ks ?items ?c"
      using e by (simp add: Let_def due_def total_at_def active_item_def)
    have "k \<notin> set ks" "distinct ks" "length ?items \<le> n" using Cons.prems e by auto
    from Cons.IH [OF this(2,3), of ?c] same_at_step [OF e(1), of C] show ?thesis
      unfolding loop due_filter_upd [OF \<open>k \<notin> set ks\<close>]
      using e(2) by (auto intro: same_at_trans simp: take_Cons' Suc_diff_Suc)
  qed
qed simp

lemma inactive_loop_eq:
  assumes "distinct visit" "length keys \<le> n"
  shows "fst (inactive_loop n C visit keys c)
      = keys @ take (n - length keys) (filter (idle C c) visit)
    \<and> same_at C c (snd (inactive_loop n C visit keys c))"
  using assms
proof (induction visit arbitrary: keys c)
  case (Cons k ks)
  show ?case
  proof (cases "length keys \<ge> n \<or> fmlookup (known c) k = None")
    case True
    then show ?thesis using Cons by (auto simp: idle_def)
  next
    case False
    then obtain e where e: "fmlookup (known c) k = Some e" "length keys < n" by auto
    let ?c = "c\<lparr>known := fmupd k (advanceRingBuffer e C) (known c)\<rparr>"
    let ?keys = "if idle C c k then keys @ [k] else keys"
    have loop: "inactive_loop n C (k # ks) keys c = inactive_loop n C ks ?keys ?c"
      using e by (simp add: Let_def idle_def total_at_def)
    have "k \<notin> set ks" "distinct ks" "length ?keys \<le> n" using Cons.prems e by auto
    from Cons.IH [OF this(2,3), of ?c] same_at_step [OF e(1), of C] show ?thesis
      unfolding loop due_filter_upd [OF \<open>k \<notin> set ks\<close>]
      using e(2) by (auto intro: same_at_trans simp: take_Cons' Suc_diff_Suc)
  qed
qed simp

lemma GetActiveTimeseriesBatch_eq:
  assumes "distinct visit"
  shows "fst (GetActiveTimeseriesBatch now visit olderThan batchSize c)
      = take (nat batchSize) (map (active_item c (hour_of now)) (filter (due olderThan (hour_of now) c) visit))
    \<and> same_at (hour_of now) c (snd (GetActiveTimeseriesBatch now visit olderThan batchSize c))"
  using active_loop_eq [OF assms, of "[]"] by (simp add: GetActiveTimeseriesBatch_def)

lemma GetInactiveTimeseriesBatch_eq:
  assumes "distinct visit"
  shows "fst (GetInactiveTimeseriesBatch now visit batchSize c)
      = take (nat batchSize) (filter (idle (hour_of now) c) visit)
    \<and> same_at (hour_of now) c (snd (GetInactiveTimeseriesBatch now visit batchSize c))"
  using inactive_loop_eq [OF assms, of "[]"] by (simp add: GetInactiveTimeseriesBatch_def)

section \<open>Marking, deleting and the invariant\<close>

lemma MarkSynced_lookup:
  "fmlookup (known (MarkSynced now key c)) k =
     (if k = key then map_option (\<lambda>e. e\<lparr>LastBackendSync := now\<rparr>) (fmlookup (known c) k)
      else fmlookup (known c) k)"
  by (auto simp: MarkSynced_def split: option.splits)

lemma MarkSyncedBatch_lookup:
  "fmlookup (known (MarkSyncedBatch now keys c)) k =
     (if k \<in> set keys then map_option (\<lambda>e. e\<lparr>LastBackendSync := now\<rparr>) (fmlookup (known c) k)
      else fmlookup (known c) k)"
  unfolding MarkSyncedBatch_def
  by (induction keys arbitrary: c) (auto simp: MarkSynced_lookup option.map_comp comp_def option.map_ident)

lemma DeleteBatch_lookup [simp]:
  "fmlookup (known (DeleteBatch keys c)) k = (if k \<in> set keys then None else fmlookup (known c) k)"
  by (simp add: DeleteBatch_def)

lemma advance_loop_sync:
  "advance_loop n (e\<lparr>LastBackendSync := x\<rparr>) = (advance_loop n e)\<lparr>LastBackendSync := x\<rparr>"
proof (induction n arbitrary: e)
  case (Suc n)
  let ?h = "(head e + 1) mod 8"
  have "advance_loop (Suc n) (e\<lparr>LastBackendSync := x\<rparr>)
      = advance_loop n ((e\<lparr>head := ?h, samples := (samples e)[unat ?h := 0]\<rparr>)\<lparr>LastBackendSync := x\<rparr>)"
    by (subst advance_loop.simps) (simp add: Let_def, rule arg_cong [of _ _ "advance_loop n"], cases e, simp)
  also have "\<dots> = (advance_loop (Suc n) e)\<lparr>LastBackendSync := x\<rparr>"
    unfolding Suc by (subst (2) advance_loop.simps) (simp add: Let_def)
  finally show ?case .
qed (simp add: advance_loop.simps)

lemma sumSamples_advance_sync:
  "sumSamples (advanceRingBuffer (e\<lparr>LastBackendSync := x\<rparr>) C) = sumSamples (advanceRingBuffer e C)"
  by (simp add: advanceRingBuffer_def Let_def advance_loop_sync sumSamples_def)

lemma active_loop_wf: "known_wf c \<Longrightarrow> known_wf (snd (active_loop olderThan n C visit items c))"
proof (induction visit arbitrary: items c)
  case (Cons k ks)
  have "known_wf (c\<lparr>known := fmupd k (advanceRingBuffer e C) (known c)\<rparr>)" if "fmlookup (known c) k = Some e" for e
    using Cons.prems that advance_window(1) by (auto simp: known_wf_def)
  with Cons show ?case by (auto simp: Let_def split: option.splits)
qed simp

lemma inactive_loop_wf: "known_wf c \<Longrightarrow> known_wf (snd (inactive_loop n C visit keys c))"
proof (induction visit arbitrary: keys c)
  case (Cons k ks)
  have "known_wf (c\<lparr>known := fmupd k (advanceRingBuffer e C) (known c)\<rparr>)" if "fmlookup (known c) k = Some e" for e
    using Cons.prems that advance_window(1) by (auto simp: known_wf_def)
  with Cons show ?case by (auto simp: Let_def split: option.splits)
qed simp

lemma known_wf_mark: "known_wf c \<Longrightarrow> known_wf (MarkSyncedBatch now keys c)"
  by (auto simp: known_wf_def MarkSyncedBatch_lookup entry_wf_def split: if_splits)

lemma known_wf_delete: "known_wf c \<Longrightarrow> known_wf (DeleteBatch keys c)"
  by (auto simp: known_wf_def split: if_splits)

lemma known_wf_clear: "known_wf (known_Clear c)"
  by (simp add: known_wf_def known_Clear_def)

lemma mset_concat_map: "mset (concat (map g xs)) = (\<Sum>x \<in># mset xs. mset (g x))"
  by (induction xs) simp_all

lemma Snapshot_order:
  assumes "enumerates visit (known c)" "enumerates visit' (known c)"
  shows "Snapshot visit c = Snapshot visit' c"
proof -
  let ?f = "\<lambda>v. (view_MetricName v, view_Fingerprint v)"
  let ?g = "\<lambda>k. case fmlookup (known c) k of None \<Rightarrow> []
        | Some e \<Rightarrow> [\<lparr>view_Fingerprint = HashKey_String k, view_MetricName = known_MetricName e,
                     view_LastUpdate = LastUpdate e, view_LastBackendSync = LastBackendSync e,
                     view_Samples = sumSamples e\<rparr>]"
  have "mset visit = mset visit'"
    using assms by (metis enumerates_distinct enumerates_fset set_eq_iff_mset_eq_distinct)
  then have m: "mset (concat (map ?g visit)) = mset (concat (map ?g visit'))"
    by (simp only: mset_concat_map)
  have inj: "inj_on ?f (set (concat (map ?g visit)))"
    by (auto simp: inj_on_def split: option.splits) (metis option.inject)+
  show ?thesis unfolding Snapshot_def
    by (rule sort_key_inj_key_eq) (use m inj in simp_all)
qed

section \<open>Inactive series as a source of batches\<close>

lemma total_at_map:
  "total_at c C k = (case map_option (\<lambda>e. advanceRingBuffer e C) (fmlookup (known c) k) of
     None \<Rightarrow> 0 | Some e \<Rightarrow> sumSamples e)"
  by (auto simp: total_at_def split: option.splits)

lemma same_at_idle: "same_at C c c' \<Longrightarrow> idle C c' k = idle C c k"
  unfolding idle_def total_at_map same_at_def by (metis option.map_disc_iff)

definition delete_inactive ::
    "int \<Rightarrow> (KnownTimeseriesCache \<Rightarrow> HashKey list) \<Rightarrow> int \<Rightarrow> HashKey list \<Rightarrow> KnownTimeseriesCache
     \<Rightarrow> KnownTimeseriesCache" where
  "delete_inactive now order n keys c =
     DeleteBatch keys (snd (GetInactiveTimeseriesBatch now (order c) n c))"

definition known_visits :: "(KnownTimeseriesCache \<Rightarrow> HashKey list) \<Rightarrow> int \<Rightarrow> bool" where
  "known_visits order n \<longleftrightarrow> 0 < n \<and> (\<forall>c. enumerates (order c) (known c))"

lemma idle_subset: "{k. idle C c k} \<subseteq> fset (fmdom (known c))"
  by (auto simp: idle_def fmlookup_dom_iff)

lemma inactive_batch:
  assumes "known_visits order n"
  shows "fst (GetInactiveTimeseriesBatch now (order c) n c) = take (nat n) (filter (idle (hour_of now) c) (order c))"
    and "same_at (hour_of now) c (snd (GetInactiveTimeseriesBatch now (order c) n c))"
    and "distinct (order c)" and "set (order c) = fset (fmdom (known c))"
proof -
  have e: "enumerates (order c) (known c)" using assms by (simp add: known_visits_def)
  show d: "distinct (order c)" by (rule enumerates_distinct [OF e])
  show "set (order c) = fset (fmdom (known c))" using enumerates_fset [OF e] by simp
  show "fst (GetInactiveTimeseriesBatch now (order c) n c) = take (nat n) (filter (idle (hour_of now) c) (order c))"
    "same_at (hour_of now) c (snd (GetInactiveTimeseriesBatch now (order c) n c))"
    using GetInactiveTimeseriesBatch_eq [OF d] by simp_all
qed

lemma idle_delete: "idle C (DeleteBatch ks c) k \<longleftrightarrow> idle C c k \<and> k \<notin> set ks"
  by (simp add: idle_def total_at_def)

interpretation inactive_source: batch_source
    "\<lambda>c. fst (GetInactiveTimeseriesBatch now (order c) n c)" "delete_inactive now order n"
    "\<lambda>c. {k. idle (hour_of now) c k}" "\<lambda>c. known_visits order n" for now order n
proof (unfold_locales, goal_cases)
  case (1 c)
  then show ?case by (auto simp: inactive_batch(1) dest!: in_set_takeD)
next
  case (2 c)
  then show ?case by (simp add: inactive_batch(1,3))
next
  case (3 c)
  from 3(2) inactive_batch(4) [OF 3(1), of c] idle_subset [of "hour_of now" c]
  have "filter (idle (hour_of now) c) (order c) \<noteq> []" by (auto simp: filter_empty_conv)
  with 3(1) show ?case by (simp add: inactive_batch(1)) (simp add: known_visits_def)
next
  case (4 c)
  then show ?case using finite_subset [OF idle_subset] by simp
next
  case (5 c)
  then show ?case
    using same_at_idle [OF inactive_batch(2) [OF 5, of now c]] by (auto simp: delete_inactive_def idle_delete)
qed simp

section \<open>Properties\<close>

text \<open>C9: the ring buffer is a sliding window of eight hours.  However many series are updated in
  between, as long as the clock does not go back, no update panics and the total the cache
  reports for a series at a later hour is the number of its samples that arrived in the last
  eight hours, modulo the 64-bit width.\<close>

theorem eight_hour_window:
  assumes "timely us" and "\<forall>(t, k, x) \<in> set us. t \<le> now"
  shows "\<exists>c. update_all us NewKnownTimeseriesCache = Some c
    \<and> total_at c (hour_of now) key = word_of_int (arrived us key (\<lambda>h. hour_of now - 8 < h))"
proof -
  obtain c where c: "update_all us NewKnownTimeseriesCache = Some c" "records us c"
    using update_all_records [OF assms(1)] by blast
  have h: "\<forall>(t, k, x) \<in> set us. hour_of t \<le> hour_of now"
    using assms by (auto simp: timely_def list_all_iff intro!: hour_of_mono)
  have "total_at c (hour_of now) key = word_of_int (arrived us key (\<lambda>h. hour_of now - 8 < h))"
  proof (cases "fmlookup (known c) key")
    case None
    from records_new [OF c(2) this] have "filter (\<lambda>(t, k, x). k = key \<and> hour_of now - 8 < hour_of t) us = []"
      by (auto simp: filter_empty_conv)
    then show ?thesis using None by (simp add: total_at_def arrived_def)
  next
    case (Some e)
    then show ?thesis using recorded_total [OF c(2) Some h] by (simp add: total_at_def)
  qed
  with c(1) show ?thesis by blast
qed

text \<open>C18: every operation keeps the cache well formed (eight slots, head at the slot of the last
  hour), and on a well-formed cache and a clock after 1970 recording samples never indexes
  outside the buffer.\<close>

theorem known_cache_invariant:
  assumes "known_wf c" and "0 \<le> now"
  shows "(\<exists>c'. UpdateTimeseries now key x c = Some c' \<and> known_wf c')
    \<and> known_wf (snd (GetActiveTimeseriesBatch now visit olderThan n c))
    \<and> known_wf (snd (GetInactiveTimeseriesBatch now visit n c))
    \<and> known_wf (MarkSyncedBatch now keys c) \<and> known_wf (DeleteBatch keys c)
    \<and> known_wf (known_Clear c)"
  using UpdateTimeseries_window [OF assms, of key x] assms
  by (auto simp: GetActiveTimeseriesBatch_def GetInactiveTimeseriesBatch_def active_loop_wf
      inactive_loop_wf known_wf_mark known_wf_delete known_wf_clear)

text \<open>The active batch is the first \<open>batchSize\<close> series, in visiting order, that were
  last synced before the threshold and have samples in the window, with their totals; the
  inactive batch is the first \<open>batchSize\<close> series without samples in the window.  The two
  never overlap, and looking does not change what the cache would answer.\<close>

theorem known_batches:
  assumes "enumerates visit (known c)" and "enumerates visit' (known c)"
  shows "fst (GetActiveTimeseriesBatch now visit olderThan n c)
      = take (nat n) (map (active_item c (hour_of now)) (filter (due olderThan (hour_of now) c) visit))
    \<and> fst (GetInactiveTimeseriesBatch now visit' m c)
      = take (nat m) (filter (idle (hour_of now) c) visit')
    \<and> set (map item_HashKey (fst (GetActiveTimeseriesBatch now visit olderThan n c)))
      \<inter> set (fst (GetInactiveTimeseriesBatch now visit' m c)) = {}
    \<and> same_at (hour_of now) c (snd (GetActiveTimeseriesBatch now visit olderThan n c))
    \<and> same_at (hour_of now) c (snd (GetInactiveTimeseriesBatch now visit' m c))"
proof -
  have d: "distinct visit" "distinct visit'" using assms enumerates_distinct by blast+
  have "set (map item_HashKey (take (nat n) (map (active_item c (hour_of now)) (filter (due olderThan (hour_of now) c) visit))))
      \<inter> set (take (nat m) (filter (idle (hour_of now) c) visit')) = {}"
    by (auto simp: active_item_def due_def idle_def dest!: in_set_takeD)
  with GetActiveTimeseriesBatch_eq [OF d(1), of now olderThan n c]
    GetInactiveTimeseriesBatch_eq [OF d(2), of now m c] show ?thesis by simp
qed

text \<open>C19: syncing the inactive series at a given time without failures reports every series
  without samples in the window exactly once and deletes exactly those from the cache.\<close>

theorem inactive_drained:
  assumes "0 < n" and "\<forall>c. enumerates (order c) (known c)" and "known_GetSize c \<le> rounds"
  shows "distinct (fst (drain (\<lambda>c. fst (GetInactiveTimeseriesBatch now (order c) n c))
           (delete_inactive now order n) rounds c))
    \<and> set (fst (drain (\<lambda>c. fst (GetInactiveTimeseriesBatch now (order c) n c))
           (delete_inactive now order n) rounds c)) = {k. idle (hour_of now) c k}
    \<and> {k. idle (hour_of now) (snd (drain (\<lambda>c. fst (GetInactiveTimeseriesBatch now (order c) n c))
           (delete_inactive now order n) rounds c)) k} = {}"
proof -
  have v: "known_visits order n" using assms by (simp add: known_visits_def)
  have "card {k. idle (hour_of now) c k} \<le> card (fset (fmdom (known c)))"
    by (rule card_mono [OF _ idle_subset]) simp
  then have "card {k. idle (hour_of now) c k} \<le> rounds"
    using assms(3) by (simp add: known_GetSize_def map_len_def fcard.rep_eq)
  from inactive_source.drain_all [OF v this] show ?thesis by simp
qed

text \<open>Once a batch is marked as synced none of its series is due again for any threshold up
  to that moment, and marking changes no total.\<close>

theorem synced_not_due:
  assumes "olderThan \<le> now" and "k \<in> set keys"
  shows "\<not> due olderThan C (MarkSyncedBatch now keys c) k
    \<and> total_at (MarkSyncedBatch now keys c) C k' = total_at c C k'"
  using assms
  by (auto simp: due_def total_at_def MarkSyncedBatch_lookup sumSamples_advance_sync split: option.splits)

text \<open>The diagnosis snapshot does not depend on the order in which Go visits the map.\<close>

theorem Snapshot_deterministic:
  assumes "enumerates visit (known c)" and "enumerates visit' (known c)"
  shows "Snapshot visit c = Snapshot visit' c"
  using assms by (rule Snapshot_order)

section \<open>Witnesses\<close>

text \<open>A series of 5, 7 and 9 samples, at hours 0, 3 and 10; at hour 10 the first two hours are
  forgotten.\<close>

definition counter_entry :: "int \<Rightarrow> TimeseriesEntry" where
  "counter_entry n = \<lparr>MetricName = ''up'', Labels = [], Samples = n\<rparr>"

definition sample_run :: "(int \<times> HashKey \<times> TimeseriesEntry) list" where
  "sample_run = [(10, ''a'', counter_entry 5), (3 * 3600, ''a'', counter_entry 7),
     (4 * 3600, ''b'', counter_entry 1), (10 * 3600, ''a'', counter_entry 9)]"

theorem eight_hour_window_witness:
  "\<exists>c. update_all sample_run NewKnownTimeseriesCache = Some c \<and> total_at c (hour_of 36000) ''a'' = 16"
proof -
  have "timely sample_run" "\<forall>(t, k, x) \<in> set sample_run. t \<le> 36000"
    by (simp_all add: timely_def sample_run_def)
  moreover have "arrived sample_run ''a'' (\<lambda>h. hour_of 36000 - 8 < h) = 16"
    by (simp add: arrived_def sample_run_def counter_entry_def hour_of_nonneg)
  ultimately show ?thesis using eight_hour_window [of sample_run 36000 "''a''"] by simp
qed

definition idle_entry :: KnownTimeseriesEntry where
  "idle_entry = \<lparr>known_MetricName = ''up'', LastUpdate = 10, LastBackendSync = 0, lastHour = 0, head = 0,
     samples = [5, 0, 0, 0, 0, 0, 0, 0]\<rparr>"

definition two_entries :: KnownTimeseriesCache where
  "two_entries = \<lparr>known = fmupd ''a'' idle_entry (fmupd ''b'' (idle_entry\<lparr>samples := replicate 8 0\<rparr>) fmempty)\<rparr>"

lemma two_entries_wf: "known_wf two_entries"
  by (auto simp: known_wf_def two_entries_def entry_wf_def idle_entry_def split: if_splits)

lemma two_entries_visit: "enumerates [''a'', ''b''] (known two_entries)" "enumerates [''b'', ''a''] (known two_entries)"
  by code_simp+

theorem known_cache_invariant_witness:
  "\<exists>c'. UpdateTimeseries 3600 ''b'' (counter_entry 2) two_entries = Some c' \<and> known_wf c'"
  using known_cache_invariant [OF two_entries_wf, of 3600 "''b''" "counter_entry 2"] by simp

theorem known_batches_witness:
  "map item_HashKey (fst (GetActiveTimeseriesBatch 3600 [''a'', ''b''] 60 10 two_entries)) = [''a'']
   \<and> fst (GetInactiveTimeseriesBatch 3600 [''b'', ''a''] 10 two_entries) = [''b'']"
proof -
  have "map item_HashKey (take 10 (map (active_item two_entries (hour_of 3600))
      (filter (due 60 (hour_of 3600) two_entries) [''a'', ''b'']))) = [''a'']"
    "take 10 (filter (idle (hour_of 3600) two_entries) [''b'', ''a'']) = [''b'']"
    by code_simp+
  then show ?thesis using known_batches [OF two_entries_visit, of 3600 60 10 10] by simp
qed

theorem inactive_drained_witness:
  "set (fst (drain (\<lambda>c. fst (GetInactiveTimeseriesBatch 3600 (sorted_keys (known c)) 10 c))
     (delete_inactive 3600 (\<lambda>c. sorted_keys (known c)) 10) 2 two_entries)) = {''b''}"
proof -
  have size: "known_GetSize two_entries \<le> 2" by code_simp
  have "idle (hour_of 3600) two_entries ''b''" "\<not> idle (hour_of 3600) two_entries ''a''" by code_simp+
  moreover have "idle (hour_of 3600) two_entries k \<Longrightarrow> k = ''a'' \<or> k = ''b''" for k
    by (auto simp: idle_def two_entries_def split: if_splits)
  ultimately have "{k. idle (hour_of 3600) two_entries k} = {''b''}" by blast
  with inactive_drained [of 10 "\<lambda>c. sorted_keys (known c)", OF _ _ size, of 3600] show ?thesis
    by (simp add: enumerates_sorted_keys)
qed

theorem synced_not_due_witness: "\<not> due 100 1 (MarkSyncedBatch 100 [''a''] two_entries) ''a''"
  using synced_not_due [of 100 100 "''a''" "[''a'']" 1 two_entries] by simp

theorem Snapshot_deterministic_witness:
  "Snapshot [''a'', ''b''] two_entries = Snapshot [''b'', ''a''] two_entries"
  by (rule Snapshot_deterministic [OF two_entries_visit])

end
