(* ===== verification/Discovered_Cache.thy ===== *)
theory Discovered_Cache
  imports Metrics_Index Batch_Source "HOL-Library.Product_Lexorder"
begin

text \<open>
  The cache of newly discovered timeseries
  (\<open>src/components/edgecontroller/discovered_timeseries_cache.go\<close>), waiting to be sent to the
  backend.  \<open>visit\<close> is the order in which Go ranges over the map.  \<open>GetBatch\<close> is
  only called with a positive constant, so the batch size is a natural number.
\<close>

record DiscoveredTimeseriesCache =
  discovered :: "(HashKey, TimeseriesEntry) fmap"

record DiscoveredTimeseriesItem =
  item_HashKeyHex :: string
  item_Name :: string
  item_Labels :: "string list"

record DiscoveredEntryView =
  dv_Fingerprint :: string
  dv_MetricName :: string
  dv_Labels :: label_map
  dv_Samples :: int

definition NewDiscoveredTimeseriesCache :: DiscoveredTimeseriesCache where
  "NewDiscoveredTimeseriesCache = \<lparr>discovered = fmempty\<rparr>"

definition discovered_Init :: "DiscoveredTimeseriesCache \<Rightarrow> DiscoveredTimeseriesCache" where
  "discovered_Init c = c\<lparr>discovered := fmempty\<rparr>"

definition discovered_Clear :: "DiscoveredTimeseriesCache \<Rightarrow> DiscoveredTimeseriesCache" where
  "discovered_Clear c = c\<lparr>discovered := fmempty\<rparr>"

definition discovered_GetSize :: "DiscoveredTimeseriesCache \<Rightarrow> nat" where
  "discovered_GetSize c = map_len (discovered c)"

definition discovered_Add ::
    "HashKey \<Rightarrow> TimeseriesEntry \<Rightarrow> DiscoveredTimeseriesCache \<Rightarrow> DiscoveredTimeseriesCache" where
  "discovered_Add key entry c = c\<lparr>discovered := fmupd key entry (discovered c)\<rparr>"

definition AddBatch :: "TimeseriesBatch \<Rightarrow> DiscoveredTimeseriesCache \<Rightarrow> DiscoveredTimeseriesCache" where
  "AddBatch batch c = c\<lparr>discovered := fmadd (discovered c) (Data batch)\<rparr>"

fun flatten_labels :: "LabelPair list \<Rightarrow> string list" where
  "flatten_labels [] = []"
| "flatten_labels (lp # lps) = LabelName lp # LabelValue lp # flatten_labels lps"

fun batch_loop ::
    "(HashKey, TimeseriesEntry) fmap \<Rightarrow> nat \<Rightarrow> HashKey list
     \<Rightarrow> (DiscoveredTimeseriesItem \<times> HashKey) list" where
  "batch_loop m n [] = []"
| "batch_loop m n (key # keys) =
     (if n = 0 then []
      else case fmlookup m key of
        None \<Rightarrow> batch_loop m n keys
      | Some entry \<Rightarrow>
          (\<lparr>item_HashKeyHex = HashKey_String key, item_Name = MetricName entry,
            item_Labels = flatten_labels (Labels entry)\<rparr>, key) # batch_loop m (n - 1) keys)"

definition GetBatch ::
    "HashKey list \<Rightarrow> nat \<Rightarrow> DiscoveredTimeseriesCache \<Rightarrow> DiscoveredTimeseriesItem list \<times> HashKey list" where
  "GetBatch visit batchSize c =
     (let actualSize = min batchSize (map_len (discovered c)) in
      if actualSize = 0 then ([], [])
      else let ps = batch_loop (discovered c) actualSize visit in (map fst ps, map snd ps))"

definition PurgeBatch :: "HashKey list \<Rightarrow> DiscoveredTimeseriesCache \<Rightarrow> DiscoveredTimeseriesCache" where
  "PurgeBatch keys c = c\<lparr>discovered := drop_all (discovered c) keys\<rparr>"

definition discovered_Snapshot :: "HashKey list \<Rightarrow> DiscoveredTimeseriesCache \<Rightarrow> DiscoveredEntryView list" where
  "discovered_Snapshot visit c =
     sort_key (\<lambda>v. (dv_MetricName v, dv_Fingerprint v))
       (concat (map (\<lambda>k. case fmlookup (discovered c) k of
          None \<Rightarrow> []
        | Some e \<Rightarrow> [\<lparr>dv_Fingerprint = HashKey_String k, dv_MetricName = MetricName e,
                     dv_Labels = put_all fmempty (map (\<lambda>lp. (LabelName lp, LabelValue lp)) (Labels e)),
                     dv_Samples = Samples e\<rparr>]) visit))"

section \<open>Batches\<close>

definition item_of :: "DiscoveredTimeseriesCache \<Rightarrow> HashKey \<Rightarrow> DiscoveredTimeseriesItem" where
  "item_of c key =
     (case fmlookup (discovered c) key of
        None \<Rightarrow> \<lparr>item_HashKeyHex = HashKey_String key, item_Name = '''', item_Labels = []\<rparr>
      | Some entry \<Rightarrow> \<lparr>item_HashKeyHex = HashKey_String key, item_Name = MetricName entry,
            item_Labels = flatten_labels (Labels entry)\<rparr>)"

lemma batch_loop_eq:
  "\<forall>k \<in> set visit. fmlookup (discovered c) k \<noteq> None \<Longrightarrow>
   batch_loop (discovered c) n visit = map (\<lambda>k. (item_of c k, k)) (take n visit)"
  by (induction visit arbitrary: n) (auto simp: take_Cons' item_of_def)

lemma GetBatch_eq:
  assumes "enumerates visit (discovered c)"
  shows "GetBatch visit n c = (map (item_of c) (take n visit), take n visit)"
proof -
  have "batch_loop (discovered c) m visit = map (\<lambda>k. (item_of c k, k)) (take m visit)" for m
    using enumerates_set [OF assms] by (intro batch_loop_eq) auto
  then show ?thesis using enumerates_length [OF assms]
    by (auto simp: GetBatch_def Let_def comp_def min_def)
qed

lemma PurgeBatch_lookup [simp]:
  "fmlookup (discovered (PurgeBatch ks c)) k = (if k \<in> set ks then None else fmlookup (discovered c) k)"
  by (simp add: PurgeBatch_def)

text \<open>The cache as a source of batches: for every positive batch size and every way of visiting
  the map.\<close>

definition waiting_keys :: "DiscoveredTimeseriesCache \<Rightarrow> HashKey set" where
  "waiting_keys c = fset (fmdom (discovered c))"

definition visits :: "(DiscoveredTimeseriesCache \<Rightarrow> HashKey list) \<Rightarrow> nat \<Rightarrow> bool" where
  "visits order n \<longleftrightarrow> 0 < n \<and> (\<forall>c. enumerates (order c) (discovered c))"

lemma visits_set: "visits order n \<Longrightarrow> set (order c) = waiting_keys c"
  unfolding visits_def waiting_keys_def using enumerates_fset by blast

lemma visits_batch: "visits order n \<Longrightarrow> snd (GetBatch (order c) n c) = take n (order c)"
  by (simp add: visits_def GetBatch_eq)

interpretation discovered_source: batch_source
    "\<lambda>c. snd (GetBatch (order c) n c)" PurgeBatch waiting_keys "\<lambda>c. visits order n" for order n
proof (unfold_locales, goal_cases)
  case (1 c)
  then show ?case using visits_set [OF 1, of c] set_take_subset [of n "order c"] by (simp add: visits_batch)
next
  case (2 c)
  then have "distinct (order c)" using enumerates_distinct by (auto simp: visits_def)
  with 2 show ?case by (simp add: visits_batch)
next
  case (3 c)
  then show ?case using visits_set [OF 3(1), of c] by (auto simp: visits_batch) (auto simp: visits_def)
next
  case (5 c)
  show ?case by (auto simp: waiting_keys_def fmlookup_dom_iff split: if_splits)
qed (simp_all add: waiting_keys_def)

section \<open>Properties\<close>

text \<open>Syncing the discovered cache without failures sends every waiting series exactly once
  and leaves the cache empty, for every batch size and whatever order Go visits the map in;
  as many rounds as there are series are enough.\<close>

theorem discovered_drained:
  assumes "0 < n" and "\<forall>c. enumerates (order c) (discovered c)"
    and "discovered_GetSize c \<le> rounds"
  shows "discovered_GetSize (snd (drain (\<lambda>c. snd (GetBatch (order c) n c)) PurgeBatch rounds c)) = 0
    \<and> distinct (fst (drain (\<lambda>c. snd (GetBatch (order c) n c)) PurgeBatch rounds c))
    \<and> set (fst (drain (\<lambda>c. snd (GetBatch (order c) n c)) PurgeBatch rounds c)) = fset (fmdom (discovered c))"
proof -
  have v: "visits order n" using assms by (simp add: visits_def)
  have "card (waiting_keys c) \<le> rounds"
    using assms(3) by (simp add: waiting_keys_def discovered_GetSize_def map_len_def fcard.rep_eq)
  from discovered_source.drain_all [OF v this] show ?thesis
    by (simp add: waiting_keys_def discovered_GetSize_def)
qed

text \<open>A batch pairs every key it returns for purging with the item that was sent for it: the
  hexadecimal form of that key, its name and its flattened labels.\<close>

theorem GetBatch_items:
  assumes "enumerates visit (discovered c)"
  shows "GetBatch visit n c = (map (item_of c) (take n visit), take n visit)"
  using assms by (rule GetBatch_eq)

section \<open>Witnesses\<close>

definition one_discovered :: DiscoveredTimeseriesCache where
  "one_discovered = discovered_Add ''k'' \<lparr>MetricName = ''up'', Labels = [\<lparr>LabelName = ''a'', LabelValue = ''b''\<rparr>], Samples = 1\<rparr>
     NewDiscoveredTimeseriesCache"

theorem discovered_drained_witness:
  "set (fst (drain (\<lambda>c. snd (GetBatch (sorted_keys (discovered c)) 5000 c)) PurgeBatch 1 one_discovered)) = {''k''}"
proof -
  have "discovered_GetSize one_discovered \<le> 1" by code_simp
  from discovered_drained [of 5000 "\<lambda>c. sorted_keys (discovered c)", OF _ _ this] show ?thesis
    by (simp add: enumerates_sorted_keys)
      (simp add: one_discovered_def discovered_Add_def NewDiscoveredTimeseriesCache_def)
qed

theorem GetBatch_items_witness:
  "GetBatch [''k''] 5000 one_discovered = ([\<lparr>item_HashKeyHex = ''6b'', item_Name = ''up'', item_Labels = [''a'', ''b'']\<rparr>], [''k''])"
proof -
  have "enumerates [''k''] (discovered one_discovered)"
    "item_of one_discovered ''k'' = \<lparr>item_HashKeyHex = ''6b'', item_Name = ''up'', item_Labels = [''a'', ''b'']\<rparr>"
    by code_simp+
  with GetBatch_items [of "[''k'']" one_discovered 5000] show ?thesis by simp
qed

end
