(* ===== verification/Pdata.thy ===== *)
theory Pdata
  imports Go_Strings
begin

text \<open>
  The telemetry data the agent's pipeline components receive.  The OpenTelemetry collector's
  \<open>pdata\<close> module is a dependency, not part of the repository.  Its batches are trees of
  slices, which the model writes as lists of records with the fields the agent reads and an
  opaque rest (\<open>'x\<close>: values, timestamps, flags).  Its attribute maps and attribute
  values stay abstract: the type \<open>'m\<close> of maps, the type \<open>'v\<close> of values, and the
  operations the agent calls on them are the argument \<open>pcommon\<close>; \<open>pcommon_laws\<close> is
  what the module documents about them and is a hypothesis of the few theorems that need it.
  A \<open>float64\<close> is its 64-bit pattern.
\<close>

type_synonym float64 = "64 word"

record ('m, 'v) pcommon =
  pm_range :: "'m \<Rightarrow> (string \<times> 'v) list"
  pm_get :: "'m \<Rightarrow> string \<Rightarrow> 'v option"
  pm_putStr :: "'m \<Rightarrow> string \<Rightarrow> string \<Rightarrow> 'm"
  pm_remove :: "'m \<Rightarrow> string \<Rightarrow> 'm"
  pv_asString :: "'v \<Rightarrow> string"
  pv_str :: "'v \<Rightarrow> string"

text \<open>Ranging visits each key once; reading agrees with ranging; a stored string is read back;
  storing and removing change no other key.\<close>

definition pcommon_laws :: "('m, 'v) pcommon \<Rightarrow> bool" where
  "pcommon_laws pc \<longleftrightarrow>
     (\<forall>m. distinct (map fst (pm_range pc m))) \<and>
     (\<forall>m k. pm_get pc m k = map_of (pm_range pc m) k) \<and>
     (\<forall>m k s. \<exists>v. pm_get pc (pm_putStr pc m k s) k = Some v \<and> pv_str pc v = s) \<and>
     (\<forall>m k k' s. k' \<noteq> k \<longrightarrow> pm_get pc (pm_putStr pc m k s) k' = pm_get pc m k') \<and>
     (\<forall>m k. pm_get pc (pm_remove pc m k) k = None) \<and>
     (\<forall>m k k'. k' \<noteq> k \<longrightarrow> pm_get pc (pm_remove pc m k) k' = pm_get pc m k')"

section \<open>Metrics\<close>

datatype temporality = TemporalityUnspecified | TemporalityDelta | TemporalityCumulative

record ('m, 'x) dp =
  dp_attrs :: 'm
  dp_rest :: 'x

record ('m, 'x) histogram_dp = "('m, 'x) dp" +
  explicitBounds :: "float64 list"
  hasSum :: bool

record ('m, 'x) summary_dp = "('m, 'x) dp" +
  quantiles :: "float64 list"

datatype ('m, 'x) metric_data =
    MetricTypeEmpty
  | MetricTypeGauge "('m, 'x) dp list"
  | MetricTypeSum bool temporality "('m, 'x) dp list"
  | MetricTypeHistogram "('m, 'x) histogram_dp list"
  | MetricTypeExponentialHistogram "('m, 'x) dp list"
  | MetricTypeSummary "('m, 'x) summary_dp list"

record ('m, 'x) metric =
  metric_name :: string
  metric_unit :: string
  metric_data :: "('m, 'x) metric_data"

record ('m, 'x) scope_metrics =
  sm_metrics :: "('m, 'x) metric list"
  sm_rest :: 'x

record ('m, 'x) resource_metrics =
  rm_attrs :: 'm
  rm_scopes :: "('m, 'x) scope_metrics list"
  rm_rest :: 'x

type_synonym ('m, 'x) metrics = "('m, 'x) resource_metrics list"

section \<open>Logs and traces\<close>

text \<open>Both filters work on whole resources; \<open>'x\<close> is what hangs below a resource (scopes and
  log records, or scopes and spans).\<close>

record ('m, 'x) resource_group =
  rg_attrs :: 'm
  rg_rest :: 'x

section \<open>What a component does with a batch\<close>

text \<open>A pipeline component either returns \<open>nil\<close> without calling the next consumer, or
  returns what the next consumer answers for the given batch.\<close>

datatype 'b outcome = Blocked | Forward 'b

fun forwarded :: "'b list outcome \<Rightarrow> 'b list" where
  "forwarded Blocked = []"
| "forwarded (Forward b) = b"

section \<open>A concrete attribute map\<close>

text \<open>Association lists with string values satisfy the laws: the hypothesis can hold.\<close>

fun alist_put :: "(string \<times> string) list \<Rightarrow> string \<Rightarrow> string \<Rightarrow> (string \<times> string) list" where
  "alist_put [] k s = [(k, s)]"
| "alist_put ((k', v) # kvs) k s = (if k' = k then (k, s) # kvs else (k', v) # alist_put kvs k s)"

typedef attr_list = "{kvs :: (string \<times> string) list. distinct (map fst kvs)}"
  by (rule exI [of _ "[]"]) simp

setup_lifting type_definition_attr_list

lemma alist_put_keys: "set (map fst (alist_put kvs k s)) = insert k (set (map fst kvs))"
  by (induction kvs k s rule: alist_put.induct) auto

lemma alist_put_distinct: "distinct (map fst kvs) \<Longrightarrow> distinct (map fst (alist_put kvs k s))"
proof (induction kvs k s rule: alist_put.induct)
  case (2 k' v kvs k s)
  then show ?case using alist_put_keys [of kvs k s] by auto
qed simp

lemma alist_put_lookup: "map_of (alist_put kvs k s) k' = (if k' = k then Some s else map_of kvs k')"
  by (induction kvs k s rule: alist_put.induct) auto

lemma alist_remove_lookup:
  "map_of (filter (\<lambda>(k', _). k' \<noteq> k) kvs) k'' = (if k'' = k then None else map_of kvs k'')"
  by (induction kvs) auto

lift_definition attrs_of :: "attr_list \<Rightarrow> (string \<times> string) list" is "\<lambda>kvs. kvs" .

lift_definition attrs_empty :: attr_list is "[]" by simp

lift_definition attrs_put :: "attr_list \<Rightarrow> string \<Rightarrow> string \<Rightarrow> attr_list" is alist_put
  by (rule alist_put_distinct)

lift_definition attrs_remove :: "attr_list \<Rightarrow> string \<Rightarrow> attr_list" is
  "\<lambda>kvs k. filter (\<lambda>(k', _). k' \<noteq> k) kvs"
  by (metis distinct_map_filter)

definition list_pcommon :: "(attr_list, string) pcommon" where
  "list_pcommon =
     \<lparr>pm_range = attrs_of, pm_get = (\<lambda>m. map_of (attrs_of m)), pm_putStr = attrs_put,
      pm_remove = attrs_remove, pv_asString = (\<lambda>v. v), pv_str = (\<lambda>v. v)\<rparr>"

definition attrs_list :: "(string \<times> string) list \<Rightarrow> attr_list" where
  "attrs_list kvs = fold (\<lambda>(k, v) m. attrs_put m k v) kvs attrs_empty"

lemma list_pcommon_laws: "pcommon_laws list_pcommon"
  unfolding pcommon_laws_def list_pcommon_def
  by (simp, transfer) (auto simp: alist_put_lookup alist_remove_lookup)

lemma attrs_of_put [simp]: "attrs_of (attrs_put m k s) = alist_put (attrs_of m) k s"
  by transfer simp

lemma attrs_of_empty [simp]: "attrs_of attrs_empty = []"
  by transfer simp

lemma attrs_of_remove [simp]: "attrs_of (attrs_remove m k) = filter (\<lambda>(k', _). k' \<noteq> k) (attrs_of m)"
  by transfer simp

lemma attrs_eq_iff: "m = m' \<longleftrightarrow> attrs_of m = attrs_of m'"
  by transfer simp

instantiation attr_list :: equal
begin

definition equal_attr_list :: "attr_list \<Rightarrow> attr_list \<Rightarrow> bool" where
  "equal_attr_list m m' \<longleftrightarrow> attrs_of m = attrs_of m'"

instance by standard (simp add: equal_attr_list_def attrs_eq_iff)

end

end
