(* ===== verification/Go_Strconv.thy ===== *)
theory Go_Strconv
  imports Go_Strings
begin

text \<open>
  \<open>strconv.Quote\<close> and \<open>strconv.Unquote\<close> of Go's standard library, on the tokens
  the agent builds and reads: strings in double quotes with backslash escapes, and raw
  strings in backquotes.  Quoting walks over the runes of the string; a byte that is not
  part of a well-formed UTF-8 sequence becomes a \<open>\x\<close> escape.  Unquoting has Go's fast
  path for tokens without escapes and the escape loop for the rest.

  The main fact is \<open>Unquote_Quote\<close>: unquoting undoes quoting, for every byte string and
  whatever the Unicode tables say is printable.
\<close>

section \<open>Quote\<close>

fun hexn :: "nat \<Rightarrow> nat \<Rightarrow> string" where
  "hexn 0 v = []"
| "hexn (Suc n) v = lowerhex (v div 16 ^ n mod 16) # hexn n v"

definition simple_escapes :: "(nat \<times> char) list" where
  "simple_escapes =
     [(0x07, CHR ''a''), (0x08, CHR ''b''), (0x0C, CHR ''f''), (0x0A, CHR ''n''),
      (0x0D, CHR ''r''), (0x09, CHR ''t''), (0x0B, CHR ''v'')]"

definition escapeRune :: "unicode_tables \<Rightarrow> nat \<Rightarrow> string" where
  "escapeRune u r =
     (if r = 0x22 \<or> r = 0x5C then [backslash, byte r]
      else if IsPrint u r then encodeRune r
      else case map_of simple_escapes r of
        Some c \<Rightarrow> [backslash, c]
      | None \<Rightarrow>
          if r < 0x20 \<or> r = 0x7F then backslash # CHR ''x'' # hexn 2 r
          else if \<not> ValidRune r then backslash # CHR ''u'' # hexn 4 RuneError
          else if r < 0x10000 then backslash # CHR ''u'' # hexn 4 r
          else backslash # CHR ''U'' # hexn 8 r)"

definition quoteChunk :: "unicode_tables \<Rightarrow> nat \<times> string \<Rightarrow> string" where
  "quoteChunk u = (\<lambda>(r, bs).
     if length bs = 1 \<and> r = RuneError then backslash # CHR ''x'' # hexn 2 (ord (hd bs))
     else escapeRune u r)"

definition Quote :: "unicode_tables \<Rightarrow> string \<Rightarrow> string" where
  "Quote u s = dquote # concat (map (quoteChunk u) (runes s)) @ [dquote]"

section \<open>Unquote\<close>

fun unhexn :: "nat \<Rightarrow> nat \<Rightarrow> string \<Rightarrow> (nat \<times> string) option" where
  "unhexn 0 v s = Some (v, s)"
| "unhexn (Suc n) v [] = None"
| "unhexn (Suc n) v (c # s) =
     (case unhex c of None \<Rightarrow> None | Some x \<Rightarrow> unhexn n (16 * v + x) s)"

lemma hexn_code [code]:
  "hexn n v = (if n = 0 then [] else lowerhex (v div 16 ^ (n - 1) mod 16) # hexn (n - 1) v)"
  by (cases n) simp_all

lemma unhexn_code [code]:
  "unhexn n v s =
     (if n = 0 then Some (v, s)
      else case s of
        [] \<Rightarrow> None
      | c # t \<Rightarrow> (case unhex c of None \<Rightarrow> None | Some x \<Rightarrow> unhexn (n - 1) (16 * v + x) t))"
  by (cases n; cases s) (auto split: option.split)

fun unoct2 :: "nat \<Rightarrow> string \<Rightarrow> (nat \<times> string) option" where
  "unoct2 v (c # d # s) =
     (if CHR ''0'' \<le> c \<and> c \<le> CHR ''7'' \<and> CHR ''0'' \<le> d \<and> d \<le> CHR ''7'' then
        (let n = (v * 8 + (ord c - 0x30)) * 8 + (ord d - 0x30) in
         if 255 < n then None else Some (n, s))
      else None)"
| "unoct2 v s = None"

text \<open>\<open>strconv.UnquoteChar\<close> with the double quote: the rune, whether it is to be
  re-encoded, and the rest.\<close>

definition unquoteEscape :: "char \<Rightarrow> string \<Rightarrow> (nat \<times> bool \<times> string) option" where
  "unquoteEscape c s =
     (case map_of (map prod.swap simple_escapes) c of
        Some v \<Rightarrow> Some (v, False, s)
      | None \<Rightarrow>
        if c = CHR ''x'' then map_option (\<lambda>(v, t). (v, False, t)) (unhexn 2 0 s)
        else if c = CHR ''u'' \<or> c = CHR ''U'' then
          (case unhexn (if c = CHR ''u'' then 4 else 8) 0 s of
             None \<Rightarrow> None
           | Some (v, t) \<Rightarrow> if ValidRune v then Some (v, True, t) else None)
        else if CHR ''0'' \<le> c \<and> c \<le> CHR ''7'' then
          map_option (\<lambda>(v, t). (v, False, t)) (unoct2 (ord c - 0x30) s)
        else if c = backslash \<or> c = dquote then Some (ord c, False, s)
        else None)"

fun unquoteChar :: "string \<Rightarrow> (nat \<times> bool \<times> string) option" where
  "unquoteChar [] = None"
| "unquoteChar (c # s) =
     (if c = dquote then None
      else if 0x80 \<le> ord c then
        (let (r, w) = decodeRune (c # s) in Some (r, True, drop w (c # s)))
      else if c \<noteq> backslash then Some (ord c, False, s)
      else case s of [] \<Rightarrow> None | e # t \<Rightarrow> unquoteEscape e t)"

lemma unhexn_shorter: "unhexn n v s = Some (r, t) \<Longrightarrow> length t \<le> length s"
  by (induction n v s rule: unhexn.induct) (auto split: option.splits)

lemma unoct2_shorter: "unoct2 v s = Some (r, t) \<Longrightarrow> length t \<le> length s"
  by (induction v s rule: unoct2.induct) (auto simp: Let_def split: if_splits)

lemma unquoteEscape_shorter: "unquoteEscape c s = Some (r, m, t) \<Longrightarrow> length t \<le> length s"
  by (auto simp: unquoteEscape_def split: option.splits if_splits prod.splits
      dest: unhexn_shorter unoct2_shorter)

lemma unquoteChar_shorter: "unquoteChar s = Some (r, m, t) \<Longrightarrow> length t < length s"
proof (cases s)
  case (Cons c cs)
  have "0 < snd (decodeRune s)" using decodeRune_width [of s] Cons by simp
  moreover assume "unquoteChar s = Some (r, m, t)"
  ultimately show ?thesis using Cons
    by (auto simp del: decodeRune.simps split: if_splits list.splits prod.splits
        dest!: unquoteEscape_shorter)
qed simp

function unquoteLoop :: "string \<Rightarrow> (string \<times> string) option" where
  "unquoteLoop [] = None"
| "unquoteLoop (c # s) =
     (if c = dquote then Some ([], s)
      else if c = newline then None
      else case unquoteChar (c # s) of
        None \<Rightarrow> None
      | Some (r, multibyte, rem) \<Rightarrow>
          map_option (\<lambda>(out, rest).
              ((if r < 0x80 \<or> \<not> multibyte then [byte r] else encodeRune r) @ out, rest))
            (unquoteLoop rem))"
  by pat_completeness auto
termination
  by (relation "measure length") (auto simp del: unquoteChar.simps dest: unquoteChar_shorter)

definition Unquote :: "string \<Rightarrow> string option" where
  "Unquote s =
     (case s of
        [] \<Rightarrow> None
      | q # rest \<Rightarrow>
          let (body, after, found) = Cut rest q in
          if \<not> found then None
          else if q = bquote then
            (if after = [] then Some (filter (\<lambda>c. c \<noteq> creturn) body) else None)
          else if q = dquote then
            (if backslash \<notin> set body \<and> newline \<notin> set body \<and> ValidString body
             then if after = [] then Some body else None
             else case unquoteLoop rest of Some (out, []) \<Rightarrow> Some out | _ \<Rightarrow> None)
          else None)"

section \<open>The chunks of a string\<close>

text \<open>What a rune of a string and its bytes are: a byte that starts no well-formed sequence, or
  a well-formed sequence, which decodes to the rune in every context.\<close>

definition good_chunk :: "nat \<times> string \<Rightarrow> bool" where
  "good_chunk = (\<lambda>(r, bs).
     (r = RuneError \<and> (\<exists>c. bs = [c] \<and> 0x80 \<le> ord c)) \<or>
     (ValidRune r \<and> bs = encodeRune r \<and> (r = RuneError \<longrightarrow> length bs \<noteq> 1)
        \<and> (\<forall>t. decodeRune (bs @ t) = (r, length bs))))"

lemma bad_chunk_high: "s \<noteq> [] \<Longrightarrow> bad_chunk s \<Longrightarrow> 0x80 \<le> ord (hd s)"
  by (cases s) (auto simp: bad_chunk_def Let_def split: if_splits)

lemma runes_good: "p \<in> set (runes s) \<Longrightarrow> good_chunk p"
proof (induction s rule: runes.induct)
  case 1
  then show ?case by simp
next
  case (2 c s)
  let ?s = "c # s"
  obtain r w where rw: "decodeRune ?s = (r, w)" by fastforce
  have w: "0 < w" "w \<le> length ?s" using decodeRune_width [of ?s] rw by auto
  have "good_chunk (r, take w ?s)"
  proof (cases "bad_chunk ?s")
    case True
    then show ?thesis using bad_chunk_high [of ?s] rw
      by (auto simp: bad_chunk_def good_chunk_def)
  next
    case False
    have "ValidRune r" using decodeRune_valid [of ?s] False rw by simp
    moreover have "take w ?s = encodeRune r" using encode_decodeRune [of ?s] False rw by simp
    moreover have "length (take w ?s) = w" using w by simp
    ultimately show ?thesis using False rw decodeRune_take [of ?s]
      by (auto simp del: decodeRune.simps length_take simp: bad_chunk_def good_chunk_def)
  qed
  with 2 rw show ?case by (auto simp del: decodeRune.simps split: prod.splits)
qed

lemma unhexn_hexn: "unhexn n a (hexn n v @ t) = Some (a * 16 ^ n + v mod 16 ^ n, t)"
proof (induction n arbitrary: a)
  case (Suc n)
  have "v mod 16 ^ Suc n = 16 ^ n * (v div 16 ^ n mod 16) + v mod 16 ^ n"
    by (metis mod_mult2_eq mult.commute power_Suc)
  with Suc show ?case by (simp add: unhex_lowerhex algebra_simps)
qed simp

section \<open>Unquoting undoes quoting\<close>

abbreviation prepend :: "string \<Rightarrow> (string \<times> string) option \<Rightarrow> (string \<times> string) option" where
  "prepend bs \<equiv> map_option (\<lambda>(out, rest). (bs @ out, rest))"

lemma unquoteLoop_plain:
  "c \<noteq> dquote \<Longrightarrow> c \<noteq> backslash \<Longrightarrow> c \<noteq> newline \<Longrightarrow> ord c < 0x80 \<Longrightarrow>
   unquoteLoop (c # t) = prepend [c] (unquoteLoop t)"
  by simp

lemma unquoteLoop_escape:
  "unquoteEscape e t = Some (r, m, t') \<Longrightarrow>
   unquoteLoop (backslash # e # t) =
     prepend (if r < 0x80 \<or> \<not> m then [byte r] else encodeRune r) (unquoteLoop t')"
  by simp

lemma unquoteLoop_high:
  assumes "\<And>t. decodeRune (bs @ t) = (r, length bs)" "bs = encodeRune r" "ValidRune r" "0x80 \<le> r"
  shows "unquoteLoop (bs @ t) = prepend bs (unquoteLoop t)"
proof -
  obtain c cs where bs: "bs = c # cs" using assms(2) encodeRune_nonempty [of r] by (metis list.exhaust)
  then have c: "0x80 \<le> ord c" using hd_encodeRune [OF assms(3,4)] assms(2) by simp
  then have ne: "c \<noteq> dquote" "c \<noteq> newline" by auto
  have "unquoteChar (bs @ t) = Some (r, True, t)"
    using assms(1) [of t] c ne bs by (simp del: decodeRune.simps)
  with ne bs assms(2,4) show ?thesis by (simp del: unquoteChar.simps)
qed

lemma map_of_simple_escapes:
  "map_of simple_escapes r = Some c \<Longrightarrow>
   map_of (map prod.swap simple_escapes) c = Some r \<and> r < 0x80"
  by (auto simp: simple_escapes_def split: if_splits)

lemma hex_escape:
  "unquoteEscape (CHR ''x'') (hexn 2 v @ t) = Some (v mod 256, False, t)"
  by (simp add: unquoteEscape_def simple_escapes_def unhexn_hexn del: hexn.simps unhexn.simps)

lemma u_escape:
  "ValidRune v \<Longrightarrow> v < 0x10000 \<Longrightarrow>
   unquoteEscape (CHR ''u'') (hexn 4 v @ t) = Some (v, True, t)"
  by (simp add: unquoteEscape_def simple_escapes_def unhexn_hexn del: hexn.simps unhexn.simps)

lemma U_escape:
  "ValidRune v \<Longrightarrow> unquoteEscape (CHR ''U'') (hexn 8 v @ t) = Some (v, True, t)"
  by (auto simp: unquoteEscape_def simple_escapes_def unhexn_hexn ValidRune_def
      simp del: hexn.simps unhexn.simps)

lemma not_print_high: "\<not> IsPrint u r \<Longrightarrow> \<not> r < 0x20 \<Longrightarrow> r \<noteq> 0x7F \<Longrightarrow> 0x80 \<le> r"
  by (auto simp: IsPrint_def split: if_splits)

lemma escapeRune_cases:
  assumes "ValidRune r"
  obtains (quote) "r = 0x22 \<or> r = 0x5C"
    | (print) "IsPrint u r" "r \<noteq> 0x22" "r \<noteq> 0x5C"
    | (esc) c where "map_of simple_escapes r = Some c" "escapeRune u r = [backslash, c]"
    | (hex) "r < 0x20 \<or> r = 0x7F" "escapeRune u r = backslash # CHR ''x'' # hexn 2 r"
    | (uni) "0x80 \<le> r" "r < 0x10000" "escapeRune u r = backslash # CHR ''u'' # hexn 4 r"
    | (Uni) "0x80 \<le> r" "escapeRune u r = backslash # CHR ''U'' # hexn 8 r"
proof -
  consider (a) "r = 0x22 \<or> r = 0x5C" | (b) "IsPrint u r" "r \<noteq> 0x22" "r \<noteq> 0x5C"
    | (c) "\<not> IsPrint u r" "r \<noteq> 0x22" "r \<noteq> 0x5C" by blast
  then show thesis
  proof cases
    case c
    note e = escapeRune_def [of u r]
    show thesis
    proof (cases "map_of simple_escapes r")
      case (Some x)
      with c e show thesis by (intro esc) simp_all
    next
      case None
      with c e assms hex uni Uni not_print_high [of u r] show thesis
        by (cases "r < 0x20 \<or> r = 0x7F"; cases "r < 0x10000") (simp_all del: hexn.simps)
    qed
  qed (use quote print in auto)
qed

lemma char_neq_byte: "r < 256 \<Longrightarrow> r \<noteq> ord c \<Longrightarrow> byte r \<noteq> c"
  by auto

lemma quote_escape:
  "unquoteEscape (byte 0x22) t = Some (0x22, False, t)"
  "unquoteEscape (byte 0x5C) t = Some (0x5C, False, t)"
proof -
  have b: "byte 0x22 = dquote" "byte 0x5C = backslash" by code_simp+
  show "unquoteEscape (byte 0x22) t = Some (0x22, False, t)"
    "unquoteEscape (byte 0x5C) t = Some (0x5C, False, t)"
    unfolding b by (simp_all add: unquoteEscape_def simple_escapes_def)
qed

lemma unquoteLoop_chunk:
  assumes "good_chunk (r, bs)"
  shows "unquoteLoop (quoteChunk u (r, bs) @ t) = prepend bs (unquoteLoop t)"
proof (cases "length bs = 1 \<and> r = RuneError")
  case True
  then obtain c where bs: "bs = [c]" by (cases bs) auto
  have "unquoteLoop (backslash # CHR ''x'' # hexn 2 (ord c) @ t) = prepend [c] (unquoteLoop t)"
    by (subst unquoteLoop_escape [OF hex_escape]) simp
  with True bs show ?thesis by (simp add: quoteChunk_def)
next
  case False
  then have v: "ValidRune r" and bs: "bs = encodeRune r"
    and dec: "\<And>t. decodeRune (bs @ t) = (r, length bs)"
    using assms by (auto simp: good_chunk_def)
  have q: "quoteChunk u (r, bs) = escapeRune u r" using False by (auto simp: quoteChunk_def)
  from v show ?thesis
  proof (cases rule: escapeRune_cases [where u = u])
    case quote
    then have "unquoteEscape (byte r) t = Some (r, False, t)"
      using quote_escape by auto
    from unquoteLoop_escape [OF this] quote show ?thesis using q bs
      by (auto simp: escapeRune_def encodeRune_ascii simp del: unquoteLoop.simps)
  next
    case print
    then have e: "escapeRune u r = bs" using bs by (simp add: escapeRune_def)
    show ?thesis
    proof (cases "r < 0x80")
      case True
      then have "0x20 \<le> r" using print by (auto simp: IsPrint_def)
      then have "byte r \<noteq> dquote" "byte r \<noteq> backslash" "byte r \<noteq> newline"
        using True print by (simp_all add: char_neq_byte)
      with True show ?thesis using q e bs
        by (simp add: encodeRune_ascii unquoteLoop_plain del: unquoteLoop.simps)
    next
      case False
      then show ?thesis using q e unquoteLoop_high [OF dec bs v, of t] by simp
    qed
  next
    case esc
    then show ?thesis using q bs map_of_simple_escapes [OF esc(1)]
      by (subst q, subst esc(2)) (simp add: unquoteEscape_def encodeRune_ascii)
  next
    case hex
    then show ?thesis using q bs unquoteLoop_escape [OF hex_escape, of r t]
      by (auto simp: encodeRune_ascii simp del: unquoteLoop.simps hexn.simps)
  next
    case uni
    then show ?thesis using q bs unquoteLoop_escape [OF u_escape [OF v], of t]
      by (simp del: unquoteLoop.simps hexn.simps)
  next
    case Uni
    then show ?thesis using q bs unquoteLoop_escape [OF U_escape [OF v], of t]
      by (simp del: unquoteLoop.simps hexn.simps)
  qed
qed

text \<open>The bytes of a quoted chunk: it is the chunk itself, without quotes and backslashes, or it
  starts with an escape pair and goes on without them.\<close>

definition no_special :: "string \<Rightarrow> bool" where
  "no_special s \<longleftrightarrow> dquote \<notin> set s \<and> backslash \<notin> set s"

lemma no_special_hexn: "no_special (hexn n v)"
proof -
  have "\<forall>m \<in> set [0..<16]. no_special [lowerhex m]" by code_simp
  then have "no_special [lowerhex (m mod 16)]" for m by simp
  then show ?thesis by (induction n) (auto simp: no_special_def)
qed

lemma no_special_high: "\<forall>c \<in> set s. 0x80 \<le> ord c \<Longrightarrow> no_special s"
  by (fastforce simp: no_special_def)

lemma encodeRune_high: "ValidRune r \<Longrightarrow> 0x80 \<le> r \<Longrightarrow> \<forall>c \<in> set (encodeRune r). 0x80 \<le> ord c"
  by (auto simp: encodeRune_def ValidRune_def)

lemma escapeRune_shape:
  assumes "ValidRune r"
  shows "escapeRune u r = encodeRune r \<and> no_special (encodeRune r)
    \<or> (\<exists>e t. escapeRune u r = backslash # e # t \<and> no_special t)"
proof (cases "IsPrint u r \<and> r \<noteq> 0x22 \<and> r \<noteq> 0x5C")
  case True
  then have "no_special (encodeRune r)"
    using no_special_high [OF encodeRune_high [OF assms]]
    using True char_neq_byte [of r dquote] char_neq_byte [of r backslash]
    by (cases "r < 0x80") (auto simp: encodeRune_ascii no_special_def)
  with True show ?thesis by (auto simp: escapeRune_def)
next
  case False
  then show ?thesis
    using no_special_hexn
    by (auto simp: escapeRune_def no_special_def simp del: hexn.simps split: option.splits)
qed

lemma quoteChunk_shape:
  assumes "good_chunk (r, bs)"
  shows "quoteChunk u (r, bs) = bs \<and> no_special bs
    \<or> (\<exists>e t. quoteChunk u (r, bs) = backslash # e # t \<and> no_special t)"
  using assms no_special_hexn [of 2 "ord (hd bs)"] escapeRune_shape [of r u]
  by (auto simp: quoteChunk_def good_chunk_def simp del: hexn.simps)

lemma Cut_skip:
  "c \<notin> set a \<Longrightarrow> Cut (a @ s) c = (let (b, x, f) = Cut s c in (a @ b, x, f))"
  by (induction a) (auto simp: Let_def split: prod.splits)

text \<open>If the text before the first double quote has no backslash, that quote is the closing one
  and the text is the string itself.\<close>

lemma Cut_quoted:
  assumes "\<forall>p \<in> set ps. good_chunk p"
    and "Cut (concat (map (quoteChunk u) ps) @ dquote # t) dquote = (body, after, found)"
    and "backslash \<notin> set body"
  shows "body = concat (map snd ps) \<and> after = t"
  using assms
proof (induction ps arbitrary: body)
  case (Cons p ps)
  let ?rest = "concat (map (quoteChunk u) ps) @ dquote # t"
  obtain r bs where p: "p = (r, bs)" by (cases p)
  with Cons.prems quoteChunk_shape [of r bs u] have
    "quoteChunk u p = bs \<and> no_special bs \<or> (\<exists>e x. quoteChunk u p = backslash # e # x)"
    by auto
  with Cons.prems have q: "quoteChunk u p = bs" "dquote \<notin> set bs"
    by (auto simp: no_special_def Let_def split: prod.splits if_splits)
  obtain b x f where cut: "Cut ?rest dquote = (b, x, f)" by (metis prod_cases3)
  from Cons.prems(2) q cut have b: "body = bs @ b" "after = x" "found = f"
    by (simp_all add: Cut_skip)
  moreover have "b = concat (map snd ps) \<and> x = t"
    using Cons.IH [of b] Cons.prems(1,3) cut b by simp
  ultimately show ?case using p by simp
qed simp

lemma unquoteLoop_chunks:
  "\<forall>p \<in> set ps. good_chunk p \<Longrightarrow>
   unquoteLoop (concat (map (quoteChunk u) ps) @ dquote # t) = Some (concat (map snd ps), t)"
proof (induction ps)
  case (Cons p ps)
  then show ?case
    by (cases p) (simp add: unquoteLoop_chunk del: unquoteLoop.simps)
qed simp

text \<open>The round trip: whatever the tables call printable, unquoting a quoted string gives it
  back.\<close>

lemma Unquote_Quote [simp]: "Unquote (Quote u s) = Some s"
proof -
  let ?b = "concat (map (quoteChunk u) (runes s))"
  have good: "\<forall>p \<in> set (runes s). good_chunk p" using runes_good by blast
  have loop: "unquoteLoop (?b @ [dquote]) = Some (s, [])"
    using unquoteLoop_chunks [OF good, of u "[]"] by (simp add: runes_bytes)
  obtain body after found where cut: "Cut (?b @ [dquote]) dquote = (body, after, found)"
    by (metis prod_cases3)
  have "found" using Cut_found_iff [of "?b @ [dquote]" dquote] cut by simp
  moreover have "body = s \<and> after = []" if "backslash \<notin> set body"
    using Cut_quoted [OF good, of u "[]"] cut that by (simp add: runes_bytes)
  ultimately show ?thesis
    using loop cut unfolding Quote_def Unquote_def
    by (auto simp: Let_def simp del: unquoteLoop.simps)
qed

lemma Quote_inject [simp]: "Quote u s = Quote u t \<longleftrightarrow> s = t"
  by (metis Unquote_Quote option.inject)

end
