(* ===== verification/Selector_Match.thy ===== *)
theory Selector_Match
  imports Go_Strconv
begin

text \<open>
  Package \<open>selectormatch\<close> (\<open>src/components/selectormatch/selector.go\<close>): the parser and
  the evaluator of the label selectors that every demand list is written in.

  The scanner state is the position and the input from that position on.  Every error
  return of the source is a value of \<open>parse_error\<close>, with the position the message
  carries.  Go's \<open>regexp\<close> engine is the argument \<open>regexp_lib\<close>: compiling returns
  a compiled expression or nothing, matching is a predicate on strings; the lemmas hold for
  every engine.

  \<open>parse_wf\<close>: a parsed selector is never empty, its label names follow the grammar and
  its regular expressions are compiled.  \<open>parse_render\<close>: the parser reads back every
  selector written in the canonical form.
\<close>

section \<open>Matchers and selectors\<close>

record 're regexp_lib =
  rx_compile :: "string \<Rightarrow> 're option"
  rx_match :: "'re \<Rightarrow> string \<Rightarrow> bool"

datatype op = OpEq | OpNeq | OpRe | OpNre

record 're matcher =
  Name :: string
  Op :: op
  Value :: string
  re :: "'re option"

record 're selector =
  Matchers :: "'re matcher list"

text \<open>Calling \<open>MatchString\<close> on a nil expression would panic; the parser never builds such
  a matcher (\<open>parse_wf\<close>), and the model answers \<open>False\<close> there.\<close>

definition MatchString :: "'re regexp_lib \<Rightarrow> 're option \<Rightarrow> string \<Rightarrow> bool" where
  "MatchString lib e v = (case e of None \<Rightarrow> False | Some x \<Rightarrow> rx_match lib x v)"

definition MatchValue :: "'re regexp_lib \<Rightarrow> 're matcher \<Rightarrow> string \<Rightarrow> bool" where
  "MatchValue lib m v =
     (case Op m of
        OpEq \<Rightarrow> v = Value m
      | OpNeq \<Rightarrow> v \<noteq> Value m
      | OpRe \<Rightarrow> MatchString lib (re m) v
      | OpNre \<Rightarrow> \<not> MatchString lib (re m) v)"

definition Matcher_Matches :: "'re regexp_lib \<Rightarrow> 're matcher \<Rightarrow> label_map \<Rightarrow> bool" where
  "Matcher_Matches lib m labels = MatchValue lib m (go_get labels (Name m))"

fun matchers_match :: "'re regexp_lib \<Rightarrow> 're matcher list \<Rightarrow> label_map \<Rightarrow> bool" where
  "matchers_match lib [] labels = True"
| "matchers_match lib (m # ms) labels =
     (if \<not> Matcher_Matches lib m labels then False else matchers_match lib ms labels)"

definition Selector_Matches :: "'re regexp_lib \<Rightarrow> 're selector \<Rightarrow> label_map \<Rightarrow> bool" where
  "Selector_Matches lib s labels = matchers_match lib (Matchers s) labels"

section \<open>The scanner\<close>

datatype parse_error =
    SelectorMustStart
  | ExpectedCommaOrBrace nat
  | UnexpectedTrailing nat
  | EmptySelector
  | ExpectedLabelName nat
  | ExpectedOperator nat
  | UnterminatedQuoted nat
  | UnterminatedRaw nat
  | ExpectedQuotedValue nat
  | UnquoteSyntax
  | InvalidRegex string

record parser =
  pos :: nat
  rest :: string
  allowDots :: bool

definition eof :: "parser \<Rightarrow> bool" where
  "eof p = (rest p = [])"

definition peek :: "parser \<Rightarrow> char" where
  "peek p = (case rest p of [] \<Rightarrow> nulbyte | c # _ \<Rightarrow> c)"

definition advance :: "nat \<Rightarrow> parser \<Rightarrow> parser" where
  "advance n p = p\<lparr>pos := pos p + n, rest := drop n (rest p)\<rparr>"

definition consume :: "parser \<Rightarrow> char \<Rightarrow> bool \<times> parser" where
  "consume p c =
     (if \<not> eof p \<and> hd (rest p) = c then (True, advance 1 p) else (False, p))"

definition is_blank :: "char \<Rightarrow> bool" where
  "is_blank c \<longleftrightarrow> c = CHR '' '' \<or> c = CHR 0x09 \<or> c = newline \<or> c = creturn"

definition skipSpace :: "parser \<Rightarrow> parser" where
  "skipSpace p = advance (length (takeWhile is_blank (rest p))) p"

definition name_start :: "char \<Rightarrow> bool" where
  "name_start c \<longleftrightarrow>
     c = CHR ''_'' \<or> (c \<ge> CHR ''a'' \<and> c \<le> CHR ''z'') \<or> (c \<ge> CHR ''A'' \<and> c \<le> CHR ''Z'')"

definition name_char :: "bool \<Rightarrow> char \<Rightarrow> bool" where
  "name_char dots c \<longleftrightarrow>
     name_start c \<or> CHR ''0'' \<le> c \<and> c \<le> CHR ''9'' \<or> dots \<and> c = CHR ''.''"

text \<open>The number of bytes the loop of \<open>parseLabelName\<close> accepts.\<close>

fun name_length :: "bool \<Rightarrow> string \<Rightarrow> nat" where
  "name_length dots [] = 0"
| "name_length dots (c # s) =
     (if name_start c then Suc (length (takeWhile (name_char dots) s)) else 0)"

definition parseLabelName :: "parser \<Rightarrow> parse_error + string \<times> parser" where
  "parseLabelName p =
     (let n = name_length (allowDots p) (rest p) in
      if n = 0 then Inl (ExpectedLabelName (pos p))
      else Inr (take n (rest p), advance n p))"

definition parseOp :: "parser \<Rightarrow> parse_error + op \<times> parser" where
  "parseOp p =
     (if HasPrefix (rest p) ''=~'' then Inr (OpRe, advance 2 p)
      else if HasPrefix (rest p) ''!~'' then Inr (OpNre, advance 2 p)
      else if HasPrefix (rest p) ''!='' then Inr (OpNeq, advance 2 p)
      else if HasPrefix (rest p) ''='' then Inr (OpEq, advance 1 p)
      else Inl (ExpectedOperator (pos p)))"

text \<open>The scan for the closing quote: the number of bytes up to and including it, counted after
  the opening quote.  A backslash skips the byte after it.\<close>

fun scan_quoted :: "string \<Rightarrow> nat option" where
  "scan_quoted [] = None"
| "scan_quoted (c # s) =
     (if c = backslash then
        (case s of [] \<Rightarrow> None | _ # t \<Rightarrow> map_option (\<lambda>n. n + 2) (scan_quoted t))
      else if c = dquote then Some 1
      else map_option Suc (scan_quoted s))"

fun scan_raw :: "string \<Rightarrow> nat option" where
  "scan_raw [] = None"
| "scan_raw (c # s) = (if c = bquote then Some 1 else map_option Suc (scan_raw s))"

definition unquote_token :: "parser \<Rightarrow> nat \<Rightarrow> parse_error + string \<times> parser" where
  "unquote_token p n =
     (case Unquote (take (Suc n) (rest p)) of
        None \<Rightarrow> Inl UnquoteSyntax
      | Some v \<Rightarrow> Inr (v, advance (Suc n) p))"

definition parseQuotedValue :: "parser \<Rightarrow> parse_error + string \<times> parser" where
  "parseQuotedValue p =
     (if peek p = dquote then
        (case scan_quoted (tl (rest p)) of
           None \<Rightarrow> Inl (UnterminatedQuoted (pos p))
         | Some n \<Rightarrow> unquote_token p n)
      else if peek p = bquote then
        (case scan_raw (tl (rest p)) of
           None \<Rightarrow> Inl (UnterminatedRaw (pos p))
         | Some n \<Rightarrow> unquote_token p n)
      else Inl (ExpectedQuotedValue (pos p)))"

section \<open>The grammar\<close>

definition anchored :: "string \<Rightarrow> string" where
  "anchored v = ''^(?:'' @ v @ '')$''"

definition make_matcher ::
    "'re regexp_lib \<Rightarrow> string \<Rightarrow> op \<Rightarrow> string \<Rightarrow> parse_error + 're matcher" where
  "make_matcher lib name oper value =
     (if oper = OpRe \<or> oper = OpNre then
        (case rx_compile lib (anchored value) of
           None \<Rightarrow> Inl (InvalidRegex value)
         | Some e \<Rightarrow> Inr \<lparr>Name = name, Op = oper, Value = value, re = Some e\<rparr>)
      else Inr \<lparr>Name = name, Op = oper, Value = value, re = None\<rparr>)"

definition parseMatcher :: "'re regexp_lib \<Rightarrow> parser \<Rightarrow> parse_error + 're matcher \<times> parser" where
  "parseMatcher lib p =
     (case parseLabelName p of
        Inl e \<Rightarrow> Inl e
      | Inr (name, p1) \<Rightarrow>
        (case parseOp (skipSpace p1) of
           Inl e \<Rightarrow> Inl e
         | Inr (oper, p2) \<Rightarrow>
           (case parseQuotedValue (skipSpace p2) of
              Inl e \<Rightarrow> Inl e
            | Inr (value, p3) \<Rightarrow>
              (case make_matcher lib name oper value of
                 Inl e \<Rightarrow> Inl e
               | Inr m \<Rightarrow> Inr (m, p3)))))"

lemma rest_advance [simp]: "rest (advance n p) = drop n (rest p)"
  by (simp add: advance_def)

lemma allowDots_advance [simp]: "allowDots (advance n p) = allowDots p"
  by (simp add: advance_def)

lemma length_skipSpace: "length (rest (skipSpace p)) \<le> length (rest p)"
  by (simp add: skipSpace_def)

lemma name_length_le: "name_length d s \<le> length s"
  by (cases s) (auto simp: length_takeWhile_le)

lemma parseLabelName_shorter:
  "parseLabelName p = Inr (x, p') \<Longrightarrow> length (rest p') < length (rest p)"
  using name_length_le [of "allowDots p" "rest p"]
  by (auto simp: parseLabelName_def Let_def split: if_splits)

lemma parseOp_shorter: "parseOp p = Inr (x, p') \<Longrightarrow> length (rest p') \<le> length (rest p)"
  by (auto simp: parseOp_def split: if_splits)

lemma parseQuotedValue_shorter:
  "parseQuotedValue p = Inr (x, p') \<Longrightarrow> length (rest p') \<le> length (rest p)"
  by (auto simp: parseQuotedValue_def unquote_token_def split: if_splits option.splits)

lemma parseMatcher_shorter:
  "parseMatcher lib p = Inr (m, p') \<Longrightarrow> length (rest p') < length (rest p)"
  by (auto simp: parseMatcher_def split: sum.splits prod.splits
      dest!: parseLabelName_shorter parseOp_shorter parseQuotedValue_shorter)
    (meson length_skipSpace less_le_trans not_le order_trans le_less_trans)

text \<open>The loop over the matchers, with the matchers read so far.\<close>

function parse_loop ::
    "'re regexp_lib \<Rightarrow> 're matcher list \<Rightarrow> parser \<Rightarrow> parse_error + 're matcher list \<times> parser" where
  "parse_loop lib ms p =
     (let p1 = skipSpace p in
      if peek p1 = CHR ''}'' then Inr (ms, p1)
      else case parseMatcher lib p1 of
        Inl e \<Rightarrow> Inl e
      | Inr (m, p2) \<Rightarrow>
          (case consume (skipSpace p2) (CHR '','') of
             (True, p3) \<Rightarrow> parse_loop lib (ms @ [m]) p3
           | (False, p3) \<Rightarrow> Inr (ms @ [m], p3)))"
  by pat_completeness auto
termination
proof (relation "measure (\<lambda>(lib, ms, p). length (rest p))", goal_cases)
  case (2 lib ms p p1 b m p2 c p3)
  then have "length (rest p2) < length (rest p)"
    using parseMatcher_shorter [of lib p1 m p2] length_skipSpace [of p] by simp
  moreover have "length (rest p3) \<le> length (rest p2)"
    using 2 length_skipSpace [of p2] by (auto simp: consume_def split: if_splits)
  ultimately show ?case by simp
qed simp

declare parse_loop.simps [simp del]

definition parse :: "'re regexp_lib \<Rightarrow> string \<Rightarrow> bool \<Rightarrow> parse_error + 're selector" where
  "parse lib input dots =
     (case consume (skipSpace \<lparr>pos = 0, rest = input, allowDots = dots\<rparr>) (CHR ''{'') of
        (False, _) \<Rightarrow> Inl SelectorMustStart
      | (True, p) \<Rightarrow>
        (case parse_loop lib [] p of
           Inl e \<Rightarrow> Inl e
         | Inr (ms, p1) \<Rightarrow>
           (case consume (skipSpace p1) (CHR ''}'') of
              (False, p2) \<Rightarrow> Inl (ExpectedCommaOrBrace (pos p2))
            | (True, p2) \<Rightarrow>
              (let p3 = skipSpace p2 in
               if \<not> eof p3 then Inl (UnexpectedTrailing (pos p3))
               else if ms = [] then Inl EmptySelector
               else Inr \<lparr>Matchers = ms\<rparr>))))"

definition Parse :: "'re regexp_lib \<Rightarrow> string \<Rightarrow> parse_error + 're selector" where
  "Parse lib input = parse lib input False"

definition ParseDotted :: "'re regexp_lib \<Rightarrow> string \<Rightarrow> parse_error + 're selector" where
  "ParseDotted lib input = parse lib input True"

section \<open>The grammar as a predicate, and the canonical form\<close>

fun valid_name :: "bool \<Rightarrow> string \<Rightarrow> bool" where
  "valid_name dots [] = False"
| "valid_name dots (c # s) = (name_start c \<and> list_all (name_char dots) s)"

definition is_regex_op :: "op \<Rightarrow> bool" where
  "is_regex_op x \<longleftrightarrow> x = OpRe \<or> x = OpNre"

definition wf_matcher :: "'re regexp_lib \<Rightarrow> bool \<Rightarrow> 're matcher \<Rightarrow> bool" where
  "wf_matcher lib dots m \<longleftrightarrow>
     valid_name dots (Name m) \<and>
     re m = (if is_regex_op (Op m) then rx_compile lib (anchored (Value m)) else None) \<and>
     (is_regex_op (Op m) \<longrightarrow> re m \<noteq> None)"

definition wf_selector :: "'re regexp_lib \<Rightarrow> bool \<Rightarrow> 're selector \<Rightarrow> bool" where
  "wf_selector lib dots s \<longleftrightarrow> Matchers s \<noteq> [] \<and> list_all (wf_matcher lib dots) (Matchers s)"

fun op_text :: "op \<Rightarrow> string" where
  "op_text OpEq = ''=''"
| "op_text OpNeq = ''!=''"
| "op_text OpRe = ''=~''"
| "op_text OpNre = ''!~''"

definition render_matcher :: "unicode_tables \<Rightarrow> 're matcher \<Rightarrow> string" where
  "render_matcher u m = Name m @ op_text (Op m) @ Quote u (Value m)"

definition render_selector :: "unicode_tables \<Rightarrow> 're selector \<Rightarrow> string" where
  "render_selector u s = ''{'' @ Join (map (render_matcher u) (Matchers s)) '','' @ ''}''"

section \<open>Parsed selectors are well formed\<close>

lemma name_length_valid:
  "name_length d s \<noteq> 0 \<Longrightarrow> valid_name d (take (name_length d s) s)"
  by (cases s)
    (auto simp: list_all_iff split: if_splits dest: set_takeWhileD simp flip: takeWhile_eq_take)

lemma parseLabelName_valid: "parseLabelName p = Inr (name, p') \<Longrightarrow> valid_name (allowDots p) name"
  by (auto simp: parseLabelName_def Let_def name_length_valid split: if_splits)

lemma make_matcher_wf:
  "make_matcher lib name oper value = Inr m \<Longrightarrow> valid_name d name \<Longrightarrow> wf_matcher lib d m"
  by (auto simp: make_matcher_def wf_matcher_def is_regex_op_def split: if_splits option.splits)

lemma parseMatcher_wf: "parseMatcher lib p = Inr (m, p') \<Longrightarrow> wf_matcher lib (allowDots p) m"
  by (auto simp: parseMatcher_def split: sum.splits prod.splits
      dest!: parseLabelName_valid intro: make_matcher_wf)

lemma allowDots_skipSpace [simp]: "allowDots (skipSpace p) = allowDots p"
  by (simp add: skipSpace_def)

lemma allowDots_consume [simp]: "allowDots (snd (consume p c)) = allowDots p"
  by (simp add: consume_def)

lemma allowDots_parseMatcher:
  "parseMatcher lib p = Inr (m, p') \<Longrightarrow> allowDots p' = allowDots p"
  by (auto simp: parseMatcher_def parseLabelName_def parseOp_def parseQuotedValue_def
      unquote_token_def Let_def split: sum.splits prod.splits if_splits option.splits)

lemma parse_loop_wf:
  "parse_loop lib ms p = Inr (ms', p') \<Longrightarrow> list_all (wf_matcher lib (allowDots p)) ms \<Longrightarrow>
   list_all (wf_matcher lib (allowDots p)) ms'"
proof (induction lib ms p arbitrary: ms' p' rule: parse_loop.induct)
  case (1 lib ms p)
  show ?case
  proof (cases "peek (skipSpace p) = CHR ''}''")
    case True
    with "1.prems" show ?thesis by (simp add: parse_loop.simps [of lib ms p] Let_def)
  next
    case False
    with "1.prems" obtain m p2 where m: "parseMatcher lib (skipSpace p) = Inr (m, p2)"
      by (auto simp: parse_loop.simps [of lib ms p] Let_def split: sum.splits)
    obtain b p3 where c: "consume (skipSpace p2) (CHR '','') = (b, p3)" by fastforce
    have d: "allowDots p3 = allowDots p"
      using allowDots_parseMatcher [OF m] allowDots_consume [of "skipSpace p2" "CHR '',''"] c by simp
    have wf: "list_all (wf_matcher lib (allowDots p)) (ms @ [m])"
      using "1.prems"(2) parseMatcher_wf [OF m] by simp
    show ?thesis
    proof (cases b)
      case True
      with "1.prems" False m c have "parse_loop lib (ms @ [m]) p3 = Inr (ms', p')"
        by (simp add: parse_loop.simps [of lib ms p] Let_def)
      moreover have "b = True" using True by simp
      ultimately show ?thesis using "1.IH" [OF refl False m refl c [symmetric]] wf d by simp
    next
      case False2: False
      with "1.prems" False m c wf show ?thesis
        by (simp add: parse_loop.simps [of lib ms p] Let_def)
    qed
  qed
qed

lemma parse_wf_selector:
  assumes "parse lib input dots = Inr s"
  shows "wf_selector lib dots s"
proof -
  let ?p0 = "skipSpace \<lparr>pos = 0, rest = input, allowDots = dots\<rparr>"
  obtain b p where c: "consume ?p0 (CHR ''{'') = (b, p)" by fastforce
  have d: "allowDots p = dots" using allowDots_consume [of ?p0 "CHR ''{''"] c by simp
  from assms c obtain ms p1 where "parse_loop lib [] p = Inr (ms, p1)" "ms \<noteq> []" "s = \<lparr>Matchers = ms\<rparr>"
    by (auto simp: parse_def Let_def split: bool.splits sum.splits prod.splits if_splits)
  with parse_loop_wf [of lib "[]" p ms p1] d show ?thesis by (simp add: wf_selector_def)
qed

section \<open>Evaluation\<close>

lemma matchers_match_iff: "matchers_match lib ms labels \<longleftrightarrow> (\<forall>m \<in> set ms. Matcher_Matches lib m labels)"
  by (induction ms) auto

lemma Selector_Matches_iff:
  "Selector_Matches lib s labels \<longleftrightarrow>
   (\<forall>m \<in> set (Matchers s). MatchValue lib m (go_get labels (Name m)))"
  by (simp add: Selector_Matches_def matchers_match_iff Matcher_Matches_def)

lemma Selector_Matches_cong:
  "(\<And>k. go_get l k = go_get l' k) \<Longrightarrow> Selector_Matches lib s l = Selector_Matches lib s l'"
  by (simp add: Selector_Matches_iff)

section \<open>Reading back the canonical form\<close>

lemma advance_0 [simp]: "advance 0 p = p"
  by (simp add: advance_def)

lemma advance_advance [simp]: "advance m (advance n p) = advance (n + m) p"
  by (simp add: advance_def add.commute)

lemma skipSpace_same: "rest p \<noteq> [] \<Longrightarrow> \<not> is_blank (hd (rest p)) \<Longrightarrow> skipSpace p = p"
  by (cases "rest p") (auto simp: skipSpace_def)

lemma skipSpace_end: "rest p = [] \<Longrightarrow> skipSpace p = p"
  by (simp add: skipSpace_def)

lemma name_char_mono: "name_start c \<Longrightarrow> name_char d c"
  by (simp add: name_char_def)

lemma parseLabelName_read:
  assumes "valid_name (allowDots p) name" "rest p = name @ c # t" "\<not> name_char (allowDots p) c"
  shows "parseLabelName p = Inr (name, advance (length name) p)"
proof -
  obtain a as where name: "name = a # as" using assms(1) by (cases name) auto
  have "takeWhile (name_char (allowDots p)) (as @ c # t) = as"
    using assms(1,3) name by (simp add: list_all_iff)
  then have "name_length (allowDots p) (rest p) = length name"
    using assms name by simp
  with assms(2) name show ?thesis by (simp add: parseLabelName_def)
qed

lemma op_text_hd: "\<exists>c t. op_text x = c # t \<and> \<not> name_char d c \<and> \<not> is_blank c"
  by (cases x) (auto simp: name_char_def name_start_def is_blank_def)

lemma parseOp_read: "rest p = op_text x @ dquote # t \<Longrightarrow> parseOp p = Inr (x, advance (length (op_text x)) p)"
  by (cases x) (auto simp: parseOp_def HasPrefix_def eval_nat_numeral)

lemma scan_quoted_no_special:
  "no_special a \<Longrightarrow> scan_quoted (a @ t) = map_option (\<lambda>n. length a + n) (scan_quoted t)"
  by (induction a; cases "scan_quoted t") (auto simp: no_special_def)

lemma scan_quoted_chunks:
  "\<forall>p \<in> set ps. good_chunk p \<Longrightarrow>
   scan_quoted (concat (map (quoteChunk u) ps) @ dquote # t)
     = Some (Suc (length (concat (map (quoteChunk u) ps))))"
proof (induction ps)
  case (Cons p ps)
  obtain r bs where p: "p = (r, bs)" by (cases p)
  with Cons.prems have "good_chunk (r, bs)" by simp
  from quoteChunk_shape [OF this, of u] show ?case
  proof
    assume "quoteChunk u (r, bs) = bs \<and> no_special bs"
    with Cons p show ?thesis by (simp add: scan_quoted_no_special)
  next
    assume "\<exists>e x. quoteChunk u (r, bs) = backslash # e # x \<and> no_special x"
    with Cons p show ?thesis by (auto simp: scan_quoted_no_special)
  qed
qed simp

lemma parseQuotedValue_read:
  assumes "rest p = Quote u v @ t"
  shows "parseQuotedValue p = Inr (v, advance (length (Quote u v)) p)"
proof -
  let ?b = "concat (map (quoteChunk u) (runes v))"
  have "scan_quoted (?b @ dquote # t) = Some (Suc (length ?b))"
    using runes_good by (intro scan_quoted_chunks) blast
  moreover have "take (length (Quote u v)) (rest p) = Quote u v" using assms by simp
  ultimately show ?thesis using assms Unquote_Quote [of u v]
    by (simp add: parseQuotedValue_def peek_def unquote_token_def Quote_def)
qed

lemma make_matcher_wf_eq: "wf_matcher lib d m \<Longrightarrow> make_matcher lib (Name m) (Op m) (Value m) = Inr m"
  by (auto simp: wf_matcher_def make_matcher_def is_regex_op_def split: option.splits if_splits)

lemma hd_Quote: "\<exists>s. Quote u v = dquote # s"
  by (simp add: Quote_def)

lemma parseMatcher_read:
  assumes "wf_matcher lib (allowDots p) m" "rest p = render_matcher u m @ t"
  shows "parseMatcher lib p = Inr (m, advance (length (render_matcher u m)) p)"
proof -
  let ?n = "length (Name m)" and ?o = "length (op_text (Op m))"
  obtain c o' where o: "op_text (Op m) = c # o'" "\<not> name_char (allowDots p) c" "\<not> is_blank c"
    using op_text_hd [of "Op m" "allowDots p"] by blast
  obtain q where q: "Quote u (Value m) = dquote # q" using hd_Quote by blast
  have 1: "parseLabelName p = Inr (Name m, advance ?n p)"
    using assms o by (intro parseLabelName_read) (auto simp: wf_matcher_def render_matcher_def)
  have r1: "rest (advance ?n p) = op_text (Op m) @ dquote # q @ t"
    using assms(2) q by (simp add: render_matcher_def)
  have s1: "skipSpace (advance ?n p) = advance ?n p"
    using r1 o by (intro skipSpace_same) auto
  have 2: "parseOp (advance ?n p) = Inr (Op m, advance (?n + ?o) p)"
    using parseOp_read [OF r1] by simp
  have r2: "rest (advance (?n + ?o) p) = Quote u (Value m) @ t"
    using assms(2) by (simp add: render_matcher_def)
  have s2: "skipSpace (advance (?n + ?o) p) = advance (?n + ?o) p"
    using r2 q by (intro skipSpace_same) (auto simp: is_blank_def)
  have 3: "parseQuotedValue (advance (?n + ?o) p)
      = Inr (Value m, advance (?n + ?o + length (Quote u (Value m))) p)"
    using parseQuotedValue_read [OF r2] by simp
  show ?thesis
    using 1 2 3 s1 s2 make_matcher_wf_eq [OF assms(1)]
    by (simp add: parseMatcher_def render_matcher_def add.assoc)
qed

lemma valid_name_hd: "valid_name d n \<Longrightarrow> n \<noteq> [] \<and> \<not> is_blank (hd n) \<and> hd n \<noteq> CHR ''}''"
  by (cases n) (auto simp: name_start_def is_blank_def)

lemma parse_loop_read:
  assumes "list_all (wf_matcher lib (allowDots p)) ms" "ms \<noteq> []"
    "rest p = Join (map (render_matcher u) ms) '','' @ ''}''"
  shows "\<exists>p'. parse_loop lib acc p = Inr (acc @ ms, p') \<and> rest p' = ''}''"
  using assms
proof (induction ms arbitrary: acc p)
  case (Cons m ms)
  let ?r = "render_matcher u m" and ?t = "(if ms = [] then [] else '','' @ Join (map (render_matcher u) ms) '','') @ ''}''"
  have r: "rest p = ?r @ ?t" using Cons.prems(3) by (auto simp: Join_Cons)
  have m: "wf_matcher lib (allowDots p) m" using Cons.prems(1) by simp
  then have hd: "?r \<noteq> []" "\<not> is_blank (hd ?r)" "hd ?r \<noteq> CHR ''}''"
    using valid_name_hd [of "allowDots p" "Name m"] by (auto simp: render_matcher_def wf_matcher_def)
  then have ne: "rest p \<noteq> []" "hd (rest p) = hd ?r" using r by auto
  have s: "skipSpace p = p" using ne hd by (intro skipSpace_same) auto
  have k: "peek p \<noteq> CHR ''}''" using ne hd by (auto simp: peek_def split: list.splits)
  define p2 where "p2 = advance (length ?r) p"
  have pm: "parseMatcher lib p = Inr (m, p2)" unfolding p2_def by (rule parseMatcher_read [OF m r])
  have r2: "rest p2 = ?t" using r by (simp add: p2_def)
  have s2: "skipSpace p2 = p2" by (rule skipSpace_same) (auto simp: r2 is_blank_def)
  show ?case
  proof (cases "ms = []")
    case True
    then have "consume p2 (CHR '','') = (False, p2)" by (simp add: consume_def r2)
    then show ?thesis using True pm s k s2 r2 by (simp add: parse_loop.simps [of lib acc p])
  next
    case False
    then have c: "consume p2 (CHR '','') = (True, advance 1 p2)" by (simp add: consume_def eof_def r2)
    have "\<exists>p'. parse_loop lib (acc @ [m]) (advance 1 p2) = Inr ((acc @ [m]) @ ms, p') \<and> rest p' = ''}''"
      using Cons.prems(1) False r2
      by (intro Cons.IH) (auto simp: p2_def simp flip: drop_drop simp del: advance_advance)
    then show ?thesis using pm s k s2 c by (simp add: parse_loop.simps [of lib acc p])
  qed
qed simp

lemma parse_render_selector:
  assumes "wf_selector lib dots s"
  shows "parse lib (render_selector u s) dots = Inr s"
proof -
  let ?p = "\<lparr>pos = 0, rest = render_selector u s, allowDots = dots\<rparr>"
  have "skipSpace ?p = ?p" by (rule skipSpace_same) (auto simp: render_selector_def is_blank_def)
  then have c: "consume (skipSpace ?p) (CHR ''{'') = (True, advance 1 ?p)"
    by (simp add: consume_def eof_def render_selector_def)
  have ms: "Matchers s \<noteq> []" "list_all (wf_matcher lib dots) (Matchers s)"
    using assms by (auto simp: wf_selector_def)
  obtain p' where l: "parse_loop lib [] (advance 1 ?p) = Inr (Matchers s, p')" "rest p' = ''}''"
    using parse_loop_read [of lib "advance 1 ?p" "Matchers s" u "[]"] ms
    by (auto simp: render_selector_def)
  have "skipSpace p' = p'" by (rule skipSpace_same) (auto simp: l is_blank_def)
  then have c2: "consume (skipSpace p') (CHR ''}'') = (True, advance 1 p')"
    by (simp add: consume_def eof_def l)
  show ?thesis using c l c2 ms by (simp add: parse_def skipSpace_end eof_def)
qed

section \<open>A concrete regular expression engine\<close>

text \<open>Every pattern is read as a literal.\<close>

definition literal_regexp :: "string regexp_lib" where
  "literal_regexp = \<lparr>rx_compile = Some, rx_match = (\<lambda>e v. e = anchored v)\<rparr>"

section \<open>Properties\<close>

text \<open>C11: what the parser accepts is a non-empty list of matchers whose label names follow the
  grammar (dots only for \<open>ParseDotted\<close>), and a matcher carries a compiled, anchored
  expression exactly when its operator is a regular-expression one: evaluating a parsed
  selector never calls \<open>MatchString\<close> on a nil expression.\<close>

theorem parse_wf:
  assumes "parse lib input dots = Inr s"
  shows "wf_selector lib dots s"
  using assms by (rule parse_wf_selector)

theorem parse_wf_witness:
  "wf_selector literal_regexp True
     \<lparr>Matchers = [\<lparr>Name = ''a.b'', Op = OpRe, Value = ''x'', re = Some (anchored ''x'')\<rparr>]\<rparr>"
proof (rule parse_wf [of literal_regexp "''{ a.b =~ '' @ [dquote] @ ''x'' @ [dquote] @ '' }''"])
  show "parse literal_regexp (''{ a.b =~ '' @ [dquote] @ ''x'' @ [dquote] @ '' }'') True
    = Inr \<lparr>Matchers = [\<lparr>Name = ''a.b'', Op = OpRe, Value = ''x'', re = Some (anchored ''x'')\<rparr>]\<rparr>"
    by code_simp
qed

text \<open>C10: the parser reads every well-formed selector back from its canonical text, whatever
  bytes its values contain: no selector is out of reach of the demand protocol and
  \<open>strconv.Quote\<close>, the separators and the operators are read unambiguously.\<close>

theorem parse_render:
  assumes "wf_selector lib dots s"
  shows "parse lib (render_selector u s) dots = Inr s"
  using assms by (rule parse_render_selector)

definition tricky_selector :: "string selector" where
  "tricky_selector =
     \<lparr>Matchers = [\<lparr>Name = ''job'', Op = OpNeq, Value = [dquote, CHR ''}'', backslash, CHR 0xFF, newline], re = None\<rparr>,
                  \<lparr>Name = ''_x1'', Op = OpNre, Value = ''a,b'', re = Some (anchored ''a,b'')\<rparr>]\<rparr>"

theorem parse_render_witness:
  "parse literal_regexp (render_selector latin_tables tricky_selector) False = Inr tricky_selector"
  by (rule parse_render) code_simp

end
