(* ===== verification/Providers.thy ===== *)
theory Providers
  imports Pdata Selector_Match
begin

text \<open>
  What the demand filters know of the rest of the agent: the extensions registered with the
  collector's host and the optional methods through which they offer demand.  A method reads
  the state \<open>'st\<close> of its extension at the moment of the call.  \<open>Route\<close> is the
  value type of package \<open>tracedemand\<close> (\<open>src/components/tracedemand/route.go\<close>).

  \<open>transparent_cache\<close> is the contract of the filters' caches of compiled demand: for
  every request the answer is the freshly compiled one.  \<open>keyed_store\<close> is how all four
  caches of the code work, one slot with the key it was filled under; it gives the contract
  when requests with equal keys compile to the same thing.
\<close>

record Route =
  Selector :: string
  FilterID :: string

record 'st extension =
  ext_GetDemands :: "('st \<Rightarrow> string list) option"
  ext_GetMetricSelectors :: "('st \<Rightarrow> string list) option"
  ext_GetLogDemands :: "('st \<Rightarrow> string list) option"
  ext_GetTraceDemands :: "('st \<Rightarrow> string list) option"
  ext_GetTraceRoutes :: "('st \<Rightarrow> Route list) option"

section \<open>Caches of compiled demand\<close>

fun serve :: "('s \<Rightarrow> 'r \<Rightarrow> 'c \<times> 's) \<Rightarrow> 's \<Rightarrow> 'r list \<Rightarrow> 'c list \<times> 's" where
  "serve get s [] = ([], s)"
| "serve get s (r # rs) =
     (let (c, s1) = get s r; (cs, s2) = serve get s1 rs in (c # cs, s2))"

locale transparent_cache =
  fixes get :: "'s \<Rightarrow> 'r \<Rightarrow> 'c \<times> 's"
    and fresh :: "'r \<Rightarrow> 'c"
    and valid :: "'r \<Rightarrow> bool"
    and inv :: "'s \<Rightarrow> bool"
  assumes answer: "inv s \<Longrightarrow> valid r \<Longrightarrow> fst (get s r) = fresh r"
    and keeps: "inv s \<Longrightarrow> valid r \<Longrightarrow> inv (snd (get s r))"
begin

lemma serve_fresh:
  "inv s \<Longrightarrow> list_all valid rs \<Longrightarrow> fst (serve get s rs) = map fresh rs \<and> inv (snd (serve get s rs))"
proof (induction rs arbitrary: s)
  case (Cons r rs)
  obtain c s1 where g: "get s r = (c, s1)" by fastforce
  obtain cs s2 where h: "serve get s1 rs = (cs, s2)" by fastforce
  have "c = fresh r" "inv s1" using answer [of s r] keeps [of s r] Cons.prems g by simp_all
  moreover have "cs = map fresh rs \<and> inv s2" using Cons.IH [of s1] Cons.prems \<open>inv s1\<close> h by simp
  ultimately show ?case using g h by simp
qed simp

end

locale keyed_store =
  fixes get :: "'s \<Rightarrow> 'r \<Rightarrow> 'c \<times> 's"
    and fresh :: "'r \<Rightarrow> 'c"
    and valid :: "'r \<Rightarrow> bool"
    and key :: "'r \<Rightarrow> string"
    and hit :: "'s \<Rightarrow> string \<Rightarrow> 'c option"
  assumes on_hit: "hit s (key r) = Some c \<Longrightarrow> get s r = (c, s)"
    and on_miss: "hit s (key r) = None \<Longrightarrow> fst (get s r) = fresh r"
    and stored: "hit s (key r) = None \<Longrightarrow> hit (snd (get s r)) k = Some c \<Longrightarrow> k = key r \<and> c = fresh r"
    and key_determines: "valid r \<Longrightarrow> valid r' \<Longrightarrow> key r = key r' \<Longrightarrow> fresh r = fresh r'"
begin

definition coherent :: "'s \<Rightarrow> bool" where
  "coherent s \<longleftrightarrow> (\<forall>r c. valid r \<longrightarrow> hit s (key r) = Some c \<longrightarrow> c = fresh r)"

lemma coherent_get: "coherent s \<Longrightarrow> valid r \<Longrightarrow> fst (get s r) = fresh r \<and> coherent (snd (get s r))"
proof (cases "hit s (key r)")
  case None
  assume "valid r"
  then show ?thesis
    using on_miss [OF None] stored [OF None] key_determines [of _ r] unfolding coherent_def by metis
next
  case (Some c)
  assume "coherent s" "valid r"
  then show ?thesis using on_hit [OF Some] Some by (simp add: coherent_def)
qed

end

sublocale keyed_store \<subseteq> transparent_cache get fresh valid coherent
  by unfold_locales (simp_all add: coherent_get)

section \<open>Lists of selectors\<close>

text \<open>The log and the trace filter parse every entry of a demand list and skip those that do not
  parse; a resource is kept when some selector matches its labels.\<close>

fun parse_all ::
    "(string \<Rightarrow> parse_error + 're selector) \<Rightarrow> string list \<Rightarrow> 're selector list" where
  "parse_all parser_fn [] = []"
| "parse_all parser_fn (s # ss) =
     (case parser_fn s of
        Inl _ \<Rightarrow> parse_all parser_fn ss
      | Inr sel \<Rightarrow> sel # parse_all parser_fn ss)"

fun any_selector :: "'re regexp_lib \<Rightarrow> 're selector list \<Rightarrow> label_map \<Rightarrow> bool" where
  "any_selector lib [] labels = False"
| "any_selector lib (sel # sels) labels =
     (if Selector_Matches lib sel labels then True else any_selector lib sels labels)"

text \<open>The meaning of a demand list: some entry parses to a selector that matches.\<close>

definition list_demands ::
    "'re regexp_lib \<Rightarrow> (string \<Rightarrow> parse_error + 're selector) \<Rightarrow> string list \<Rightarrow> label_map \<Rightarrow> bool" where
  "list_demands lib parser_fn raws labels \<longleftrightarrow>
     list_ex (\<lambda>raw. case parser_fn raw of Inl _ \<Rightarrow> False | Inr sel \<Rightarrow> Selector_Matches lib sel labels) raws"

lemma list_demands_Nil [simp]: "list_demands lib parser_fn [] labels = False"
  by (simp add: list_demands_def)

lemma set_parse_all: "set (parse_all parser_fn raws) = {sel. \<exists>raw \<in> set raws. parser_fn raw = Inr sel}"
  by (induction raws) (auto split: sum.splits)

lemma any_selector_iff: "any_selector lib sels labels \<longleftrightarrow> (\<exists>sel \<in> set sels. Selector_Matches lib sel labels)"
  by (induction sels) auto

lemma any_parsed_selector:
  "any_selector lib (parse_all parser_fn raws) labels \<longleftrightarrow> list_demands lib parser_fn raws labels"
  by (auto simp: any_selector_iff set_parse_all list_demands_def list_ex_iff)

lemma parse_all_empty_iff: "parse_all parser_fn raws = [] \<longleftrightarrow> (\<forall>raw \<in> set raws. \<exists>e. parser_fn raw = Inl e)"
  by (induction raws) (auto split: sum.splits)

lemma parse_all_empty_demands:
  "parse_all parser_fn raws = [] \<Longrightarrow> list_demands lib parser_fn raws labels = False"
  by (simp flip: any_parsed_selector)

text \<open>Demand lists whose joined key determines them: no entry contains the separator.\<close>

definition nul_free :: "string list \<Rightarrow> bool" where
  "nul_free raws \<longleftrightarrow> raws \<noteq> [] \<and> list_all (\<lambda>s. nulbyte \<notin> set s) raws"

lemma nul_free_Join:
  "nul_free raws \<Longrightarrow> nul_free raws' \<Longrightarrow> Join raws [nulbyte] = Join raws' [nulbyte] \<Longrightarrow> raws = raws'"
  by (rule Join_inject) (auto simp: nul_free_def list_all_iff)

text \<open>Two lists outside that precondition that share a key: two broken selectors, and one good
  selector with a NUL byte in its value.\<close>

definition nul_split_selectors :: "string list" where
  "nul_split_selectors = [''{a='' @ [dquote], [dquote] @ ''}'']"

definition nul_value_selectors :: "string list" where
  "nul_value_selectors = [''{a='' @ [dquote, nulbyte, dquote] @ ''}'']"

lemma nul_free_empty_key:
  assumes "nul_free raws" "Join raws [nulbyte] = ''''"
  shows "raws = ['''']"
proof (rule nul_free_Join [OF assms(1)])
  show "nul_free ['''']" by (simp add: nul_free_def)
  show "Join raws [nulbyte] = Join [''''] [nulbyte]" using assms(2) by simp
qed

lemma parse_empty_string [simp]: "parse lib '''' dots = Inl SelectorMustStart"
  by (simp add: parse_def consume_def skipSpace_def eof_def advance_def)

end
