(* ===== verification/Demand_Cache.thy ===== *)
theory Demand_Cache
  imports Providers
begin

text \<open>
  The demand cache of the edge controller
  (\<open>src/components/edgecontroller/demand_timeseries_cache.go\<close>): the demand set the backend
  pushed last, read live by the filters.  A \<open>nil\<close> slice is the empty list.
\<close>

record DemandTimeseriesCache =
  dc_timeseries :: "string list"
  dc_logSelectors :: "string list"
  dc_traceSelectors :: "string list"
  dc_metricSelectors :: "string list"
  dc_demandHash :: "64 word"
  dc_LastUpdate :: int
  dc_traceRoutes :: "Route list"

record DemandTimeseriesSnapshot =
  Timeseries :: "string list"
  LogSelectors :: "string list"
  TraceSelectors :: "string list"
  MetricSelectors :: "string list"
  TraceRoutes :: "Route list"
  DemandHash :: "64 word"
  snap_LastUpdate :: int

definition NewDemandTimeseriesCache :: DemandTimeseriesCache where
  "NewDemandTimeseriesCache =
     \<lparr>dc_timeseries = [], dc_logSelectors = [], dc_traceSelectors = [], dc_metricSelectors = [],
      dc_demandHash = 0, dc_LastUpdate = 0, dc_traceRoutes = []\<rparr>"

definition demand_Init :: "DemandTimeseriesCache \<Rightarrow> DemandTimeseriesCache" where
  "demand_Init c =
     c\<lparr>dc_timeseries := [], dc_logSelectors := [], dc_traceSelectors := [], dc_metricSelectors := [],
       dc_demandHash := 0, dc_LastUpdate := 0\<rparr>"

definition demand_GetDemands :: "DemandTimeseriesCache \<Rightarrow> DemandTimeseriesSnapshot" where
  "demand_GetDemands c =
     \<lparr>Timeseries = dc_timeseries c, LogSelectors = dc_logSelectors c, TraceSelectors = dc_traceSelectors c,
      MetricSelectors = dc_metricSelectors c, TraceRoutes = dc_traceRoutes c,
      DemandHash = dc_demandHash c, snap_LastUpdate = dc_LastUpdate c\<rparr>"

definition demand_GetSize :: "DemandTimeseriesCache \<Rightarrow> nat" where
  "demand_GetSize c = length (dc_timeseries c)"

definition UpdateDemands ::
    "int \<Rightarrow> string list \<Rightarrow> string list \<Rightarrow> string list \<Rightarrow> string list \<Rightarrow> 64 word \<Rightarrow> DemandTimeseriesCache
     \<Rightarrow> DemandTimeseriesCache" where
  "UpdateDemands now timeseries logSelectors traceSelectors metricSelectors hash c =
     c\<lparr>dc_timeseries := timeseries, dc_logSelectors := logSelectors, dc_traceSelectors := traceSelectors,
       dc_metricSelectors := metricSelectors, dc_demandHash := hash, dc_LastUpdate := now\<rparr>"

definition UpdateTraceRoutes :: "Route list \<Rightarrow> DemandTimeseriesCache \<Rightarrow> DemandTimeseriesCache" where
  "UpdateTraceRoutes routes c = c\<lparr>dc_traceRoutes := routes\<rparr>"

text \<open>Applying a demand set replaces the whole demand, whatever was held before: the next
  reader sees exactly the pushed lists, routes and hash.  Re-initialising the cache, on the
  other hand, clears everything but the trace routes, which stay in force.\<close>

theorem demand_replaced:
  "demand_GetDemands (UpdateTraceRoutes routes (UpdateDemands now ts ls trs ms hash c))
     = \<lparr>Timeseries = ts, LogSelectors = ls, TraceSelectors = trs, MetricSelectors = ms,
        TraceRoutes = routes, DemandHash = hash, snap_LastUpdate = now\<rparr>
   \<and> demand_GetDemands (demand_Init c)
     = \<lparr>Timeseries = [], LogSelectors = [], TraceSelectors = [], MetricSelectors = [],
        TraceRoutes = dc_traceRoutes c, DemandHash = 0, snap_LastUpdate = 0\<rparr>"
  by (simp add: demand_GetDemands_def UpdateTraceRoutes_def UpdateDemands_def demand_Init_def)

end
