(* ===== verification/Prom_Naming.thy ===== *)
theory Prom_Naming
  imports Pdata Selector_Match
begin

text \<open>
  Package \<open>promnaming\<close> (\<open>src/internal/promnaming\<close>): the Prometheus name of an OTLP
  metric and the label view of a series, shared by the metrics tracker and the demand
  filter.  The name translator \<open>otlptranslator.MetricNamer\<close> is a dependency: its
  \<open>Build\<close> is the argument \<open>namer\<close>, with \<open>None\<close> for an error.

  \<open>BuildSeriesLabels_lookup\<close>: looking a name up in the datapoint labels first and in the
  resource labels second gives what the flattened label set of the series has, which is why
  the demand filter and the tracker agree.  \<open>NormalizeLabelName_valid\<close>: a normalized
  ASCII name is a label name of the selector grammar.
\<close>

section \<open>Names\<close>

datatype otlp_type =
    OtlpGauge | OtlpMonotonicCounter | OtlpNonMonotonicCounter | OtlpHistogram
  | OtlpExponentialHistogram | OtlpSummary | OtlpUnknown

type_synonym namer = "string \<Rightarrow> string \<Rightarrow> otlp_type \<Rightarrow> string option"

definition metricType :: "('m, 'x) metric \<Rightarrow> otlp_type" where
  "metricType m =
     (case metric_data m of
        MetricTypeGauge _ \<Rightarrow> OtlpGauge
      | MetricTypeSum isMonotonic temp _ \<Rightarrow>
          if isMonotonic \<and> temp = TemporalityCumulative then OtlpMonotonicCounter
          else OtlpNonMonotonicCounter
      | MetricTypeHistogram _ \<Rightarrow> OtlpHistogram
      | MetricTypeExponentialHistogram _ \<Rightarrow> OtlpExponentialHistogram
      | MetricTypeSummary _ \<Rightarrow> OtlpSummary
      | MetricTypeEmpty \<Rightarrow> OtlpUnknown)"

definition BaseName :: "namer \<Rightarrow> ('m, 'x) metric \<Rightarrow> string" where
  "BaseName namer m =
     (case namer (metric_name m) (metric_unit m) (metricType m) of
        None \<Rightarrow> metric_name m
      | Some name \<Rightarrow> name)"

section \<open>Labels\<close>

definition label_rune :: "unicode_tables \<Rightarrow> nat \<Rightarrow> nat" where
  "label_rune u r = (if IsLetter u r \<or> IsDigit u r then r else ord (CHR ''_''))"

definition NormalizeLabelName :: "unicode_tables \<Rightarrow> string \<Rightarrow> string" where
  "NormalizeLabelName u label =
     (if label = [] then label
      else let l = MapRunes (label_rune u) label in
        if IsDigit u (ord (hd l)) then ''key_'' @ l
        else if HasPrefix l ''_'' \<and> \<not> HasPrefix l ''__'' then ''key'' @ l
        else l)"

definition getAttrAsString :: "('m, 'v) pcommon \<Rightarrow> 'm \<Rightarrow> string \<Rightarrow> string" where
  "getAttrAsString pc m key = (case pm_get pc m key of None \<Rightarrow> '''' | Some v \<Rightarrow> pv_asString pc v)"

definition jobLabelFromResource :: "('m, 'v) pcommon \<Rightarrow> 'm \<Rightarrow> string" where
  "jobLabelFromResource pc res =
     (let svcName = getAttrAsString pc res ''service.name'' in
      if svcName = '''' then ''''
      else let svcNS = getAttrAsString pc res ''service.namespace'' in
        if svcNS = '''' then svcName else svcNS @ ''/'' @ svcName)"

definition instanceLabelFromResource :: "('m, 'v) pcommon \<Rightarrow> 'm \<Rightarrow> string" where
  "instanceLabelFromResource pc res =
     (let inst = getAttrAsString pc res ''service.instance.id'' in
      if inst \<noteq> '''' then inst
      else let host = getAttrAsString pc res ''host.name'' in
        if host \<noteq> '''' then host else '''')"

definition add_if_absent :: "label_map \<Rightarrow> string \<Rightarrow> string \<Rightarrow> label_map" where
  "add_if_absent labels k v =
     (case fmlookup labels k of
        Some _ \<Rightarrow> labels
      | None \<Rightarrow> if v \<noteq> '''' then fmupd k v labels else labels)"

definition addSynthesizedJobInstance :: "('m, 'v) pcommon \<Rightarrow> label_map \<Rightarrow> 'm \<Rightarrow> label_map" where
  "addSynthesizedJobInstance pc labels res =
     add_if_absent (add_if_absent labels ''job'' (jobLabelFromResource pc res))
       ''instance'' (instanceLabelFromResource pc res)"

text \<open>The normalized attributes in the order the map is ranged over.\<close>

definition attr_labels ::
    "unicode_tables \<Rightarrow> ('m, 'v) pcommon \<Rightarrow> 'm \<Rightarrow> (string \<times> string) list" where
  "attr_labels u pc attrs =
     map (\<lambda>(k, v). (NormalizeLabelName u k, pv_asString pc v)) (pm_range pc attrs)"

definition BuildSeriesLabels ::
    "unicode_tables \<Rightarrow> ('m, 'v) pcommon \<Rightarrow> 'm \<Rightarrow> 'm \<Rightarrow> (string \<times> string) list \<Rightarrow> label_map" where
  "BuildSeriesLabels u pc resAttrs pointAttrs extraLabels =
     (let labels = put_all fmempty (attr_labels u pc resAttrs);
          labels = put_all labels (attr_labels u pc pointAttrs);
          labels = addSynthesizedJobInstance pc labels resAttrs
      in put_all labels (map (\<lambda>(k, v). (NormalizeLabelName u k, v)) extraLabels))"

definition ResourceLabelMap :: "unicode_tables \<Rightarrow> ('m, 'v) pcommon \<Rightarrow> 'm \<Rightarrow> label_map" where
  "ResourceLabelMap u pc resAttrs =
     addSynthesizedJobInstance pc (put_all fmempty (attr_labels u pc resAttrs)) resAttrs"

section \<open>The two label views agree\<close>

lemma lookup_add_if_absent [go_lookup]:
  "fmlookup (add_if_absent labels k v) n =
     (if n = k \<and> fmlookup labels k = None \<and> v \<noteq> '''' then Some v else fmlookup labels n)"
  by (auto simp: add_if_absent_def split: option.splits)

lemma lookup_addSynthesized [go_lookup]:
  "fmlookup (addSynthesizedJobInstance pc labels res) n =
     (case fmlookup labels n of
        Some v \<Rightarrow> Some v
      | None \<Rightarrow>
          if n = ''job'' \<and> jobLabelFromResource pc res \<noteq> '''' then Some (jobLabelFromResource pc res)
          else if n = ''instance'' \<and> instanceLabelFromResource pc res \<noteq> ''''
          then Some (instanceLabelFromResource pc res)
          else None)"
  by (auto simp: addSynthesizedJobInstance_def lookup_add_if_absent split: option.splits)

lemma BuildSeriesLabels_two_level:
  "fmlookup (BuildSeriesLabels u pc res pt []) n =
     (case fmlookup (put_all fmempty (attr_labels u pc pt)) n of
        Some v \<Rightarrow> Some v
      | None \<Rightarrow> fmlookup (ResourceLabelMap u pc res) n)"
  by (auto simp: BuildSeriesLabels_def ResourceLabelMap_def Let_def lookup_addSynthesized
      put_all_lookup split: option.splits)

section \<open>Normalized names\<close>

lemma runes_ascii: "\<forall>c \<in> set s. ord c < 0x80 \<Longrightarrow> runes s = map (\<lambda>c. (ord c, [c])) s"
  by (induction s) auto

lemma MapRunes_ascii:
  "\<forall>c \<in> set s. ord c < 0x80 \<Longrightarrow> \<forall>c \<in> set s. f (ord c) < 0x80 \<Longrightarrow>
   MapRunes f s = map (\<lambda>c. byte (f (ord c))) s"
  unfolding MapRunes_def by (induction s) (auto simp: encodeRune_ascii)

lemma char_le_iff: "c \<le> d \<longleftrightarrow> ord c \<le> ord d" for c d :: char
  by (simp add: less_eq_char_def)

lemma byte_underscore [simp]: "byte 0x5F = CHR ''_''"
  by code_simp

lemma label_rune_ascii:
  assumes "n < 0x80"
  shows "label_rune u n < 0x80" and "name_char False (byte (label_rune u n))"
    and "\<not> IsDigit u (label_rune u n) \<Longrightarrow> name_start (byte (label_rune u n))"
proof -
  have r: "label_rune u n = n \<and>
      (0x41 \<le> n \<and> n \<le> 0x5A \<or> 0x61 \<le> n \<and> n \<le> 0x7A \<or> 0x30 \<le> n \<and> n \<le> 0x39)
    \<or> label_rune u n = 0x5F"
    using assms by (auto simp: label_rune_def IsLetter_def IsDigit_def)
  then show "label_rune u n < 0x80" "name_char False (byte (label_rune u n))"
    using assms by (auto simp: name_char_def name_start_def char_le_iff)
  show "\<not> IsDigit u (label_rune u n) \<Longrightarrow> name_start (byte (label_rune u n))"
    using r assms by (auto simp: IsDigit_def name_start_def char_le_iff)
qed

lemma name_char_key: "list_all (name_char False) ''ey_''" "name_start (CHR ''k'')"
  by code_simp+

lemma NormalizeLabelName_valid_name:
  assumes "label \<noteq> []" and "\<forall>c \<in> set label. ord c < 0x80"
  shows "valid_name False (NormalizeLabelName u label)"
proof -
  define l where "l = map (\<lambda>c. byte (label_rune u (ord c))) label"
  have l: "MapRunes (label_rune u) label = l"
    using assms(2) label_rune_ascii(1) unfolding l_def by (intro MapRunes_ascii) auto
  have chars: "list_all (name_char False) l"
    using assms(2) label_rune_ascii(2) by (auto simp: l_def list_all_iff)
  obtain c cs where lc: "l = c # cs" "\<not> IsDigit u (ord c) \<longrightarrow> name_start c"
    using assms label_rune_ascii(1,3) [of "ord (hd label)" u]
    by (cases label) (auto simp: l_def)
  show ?thesis
    using assms(1) chars lc name_char_key by (auto simp: NormalizeLabelName_def l Let_def)
qed

section \<open>A concrete namer\<close>

definition plain_namer :: namer where
  "plain_namer name unit_of t = Some name"

section \<open>Properties\<close>

text \<open>The two label views of a series agree.  Reading a label of a datapoint first and of
  its resource second, which is what the demand filter does, finds exactly the label set
  that is flattened for the tracker: datapoint attributes win over resource attributes, and
  the synthesized \<open>job\<close> and \<open>instance\<close> appear only when neither defines them.\<close>

theorem BuildSeriesLabels_lookup:
  "fmlookup (BuildSeriesLabels u pc res pt []) n =
     (case fmlookup (put_all fmempty (attr_labels u pc pt)) n of
        Some v \<Rightarrow> Some v
      | None \<Rightarrow> fmlookup (ResourceLabelMap u pc res) n)"
  by (rule BuildSeriesLabels_two_level)

text \<open>Normalizing a non-empty ASCII attribute name gives a name of the selector grammar, so
  a selector can be written for every label the agent derives.\<close>

theorem NormalizeLabelName_valid:
  assumes "label \<noteq> []" and "\<forall>c \<in> set label. ord c < 0x80"
  shows "valid_name False (NormalizeLabelName u label)"
  using assms by (rule NormalizeLabelName_valid_name)

theorem NormalizeLabelName_valid_witness:
  "valid_name False (NormalizeLabelName latin_tables ''0.service-name'')
   \<and> NormalizeLabelName latin_tables ''0.service-name'' = ''key_0_service_name''"
proof
  show "valid_name False (NormalizeLabelName latin_tables ''0.service-name'')"
    by (rule NormalizeLabelName_valid) (simp, code_simp)
  show "NormalizeLabelName latin_tables ''0.service-name'' = ''key_0_service_name''"
    by code_simp
qed

end
