(* ===== verification/Demand_Filter.thy ===== *)
theory Demand_Filter
  imports Providers Prom_Naming
begin

text \<open>
  The metrics demand filter (\<open>src/components/demandfilter\<close>).  A batch is filtered by
  the demanded metric names or, when the provider offers metric selectors, per datapoint by
  the selectors.  The processor keeps the compiled selectors of the last demand list.

  The definitions follow \<open>selectors.go\<close> and \<open>processor.go\<close>.  The lemmas relate
  the compiled form (exact names in a map, the rest scanned; name and label matchers apart;
  \<open>le\<close> and \<open>quantile\<close> dropped) to the selectors as written, and the in-place pruning
  to a filter over the flat list of datapoints of the batch.
\<close>

section \<open>Compiled selectors (selectors.go)\<close>

record 're compiledSelector =
  nameMatchers :: "'re matcher list"
  labelMatchers :: "'re matcher list"

record 're compiledSelectorSet =
  byName :: "(string, 're compiledSelector list) fmap"
  scan :: "'re compiledSelector list"

fun name_matchers_accept :: "'re regexp_lib \<Rightarrow> 're matcher list \<Rightarrow> string \<Rightarrow> bool" where
  "name_matchers_accept lib [] name = True"
| "name_matchers_accept lib (m # ms) name =
     (if \<not> MatchValue lib m name then False else name_matchers_accept lib ms name)"

definition matchesName :: "'re regexp_lib \<Rightarrow> 're compiledSelector \<Rightarrow> string \<Rightarrow> bool" where
  "matchesName lib cs name = name_matchers_accept lib (nameMatchers cs) name"

definition set_empty :: "'re compiledSelectorSet \<Rightarrow> bool" where
  "set_empty s \<longleftrightarrow> map_len (byName s) = 0 \<and> length (scan s) = 0"

definition selectors_at :: "'re compiledSelectorSet \<Rightarrow> string \<Rightarrow> 're compiledSelector list" where
  "selectors_at s n = (case fmlookup (byName s) n of None \<Rightarrow> [] | Some xs \<Rightarrow> xs)"

fun candidatesFor ::
    "'re regexp_lib \<Rightarrow> 're compiledSelectorSet \<Rightarrow> string list \<Rightarrow> 're compiledSelector list" where
  "candidatesFor lib s [] = []"
| "candidatesFor lib s (n # ns) =
     selectors_at s n @ filter (\<lambda>cs. matchesName lib cs n) (scan s) @ candidatesFor lib s ns"

fun split_matchers :: "'re compiledSelector \<Rightarrow> 're matcher list \<Rightarrow> 're compiledSelector" where
  "split_matchers cs [] = cs"
| "split_matchers cs (m # ms) =
     (if Name m = ''__name__'' then
        split_matchers (cs\<lparr>nameMatchers := nameMatchers cs @ [m]\<rparr>) ms
      else if Name m = ''le'' \<or> Name m = ''quantile'' then split_matchers cs ms
      else split_matchers (cs\<lparr>labelMatchers := labelMatchers cs @ [m]\<rparr>) ms)"

definition index_selector ::
    "'re compiledSelectorSet \<Rightarrow> 're compiledSelector \<Rightarrow> 're compiledSelectorSet" where
  "index_selector s cs =
     (case nameMatchers cs of
        [m] \<Rightarrow>
          if Op m = OpEq
          then s\<lparr>byName := fmupd (Value m) (selectors_at s (Value m) @ [cs]) (byName s)\<rparr>
          else s\<lparr>scan := scan s @ [cs]\<rparr>
      | _ \<Rightarrow> s\<lparr>scan := scan s @ [cs]\<rparr>)"

fun compile_into ::
    "'re regexp_lib \<Rightarrow> 're compiledSelectorSet \<Rightarrow> string list \<Rightarrow> 're compiledSelectorSet" where
  "compile_into lib s [] = s"
| "compile_into lib s (raw # raws) =
     (case Parse lib raw of
        Inl _ \<Rightarrow> compile_into lib s raws
      | Inr sel \<Rightarrow>
          compile_into lib
            (index_selector s
              (split_matchers \<lparr>nameMatchers = [], labelMatchers = []\<rparr> (Matchers sel))) raws)"

definition compileSelectors :: "'re regexp_lib \<Rightarrow> string list \<Rightarrow> 're compiledSelectorSet" where
  "compileSelectors lib raw = compile_into lib \<lparr>byName = fmempty, scan = []\<rparr> raw"

definition familyNames :: "('m, 'x) metric \<Rightarrow> string \<Rightarrow> string list" where
  "familyNames m base =
     (case metric_data m of
        MetricTypeHistogram _ \<Rightarrow> [base @ ''_bucket'', base @ ''_sum'', base @ ''_count'']
      | MetricTypeSummary _ \<Rightarrow> [base, base @ ''_sum'', base @ ''_count'']
      | _ \<Rightarrow> [base])"

section \<open>Filtering the datapoints of one metric\<close>

definition dp_value :: "label_map \<Rightarrow> label_map \<Rightarrow> string \<Rightarrow> string" where
  "dp_value scratch resLabels n =
     (case fmlookup scratch n of Some v \<Rightarrow> v | None \<Rightarrow> go_get resLabels n)"

fun label_matchers_accept ::
    "'re regexp_lib \<Rightarrow> 're matcher list \<Rightarrow> label_map \<Rightarrow> label_map \<Rightarrow> bool" where
  "label_matchers_accept lib [] scratch resLabels = True"
| "label_matchers_accept lib (lm # lms) scratch resLabels =
     (if \<not> MatchValue lib lm (dp_value scratch resLabels (Name lm)) then False
      else label_matchers_accept lib lms scratch resLabels)"

fun any_candidate ::
    "'re regexp_lib \<Rightarrow> 're compiledSelector list \<Rightarrow> label_map \<Rightarrow> label_map \<Rightarrow> bool" where
  "any_candidate lib [] scratch resLabels = False"
| "any_candidate lib (cs # css) scratch resLabels =
     (if label_matchers_accept lib (labelMatchers cs) scratch resLabels then True
      else any_candidate lib css scratch resLabels)"

definition matchDP ::
    "'re regexp_lib \<Rightarrow> unicode_tables \<Rightarrow> ('m, 'v) pcommon \<Rightarrow> 're compiledSelector list \<Rightarrow> label_map
     \<Rightarrow> 'm \<Rightarrow> bool" where
  "matchDP lib u pc cands resLabels attrs =
     any_candidate lib cands (put_all fmempty (attr_labels u pc attrs)) resLabels"

definition filterMetricDatapoints ::
    "'re regexp_lib \<Rightarrow> unicode_tables \<Rightarrow> ('m, 'v) pcommon \<Rightarrow> namer \<Rightarrow> ('m, 'x) metric \<Rightarrow> label_map
     \<Rightarrow> 're compiledSelectorSet \<Rightarrow> ('m, 'x) metric \<times> bool" where
  "filterMetricDatapoints lib u pc namer m resLabels s =
     (let base = BaseName namer m;
          cands = candidatesFor lib s (familyNames m base);
          miss = (\<lambda>attrs. \<not> matchDP lib u pc cands resLabels attrs)
      in if cands = [] then (m, False)
         else if \<exists>cs \<in> set cands. labelMatchers cs = [] then (m, True)
         else case metric_data m of
           MetricTypeGauge dps \<Rightarrow>
             (let dps' = removeIf (\<lambda>dp. (dp, miss (dp_attrs dp))) dps
              in (m\<lparr>metric_data := MetricTypeGauge dps'\<rparr>, dps' \<noteq> []))
         | MetricTypeSum isMonotonic temp dps \<Rightarrow>
             (let dps' = removeIf (\<lambda>dp. (dp, miss (dp_attrs dp))) dps
              in (m\<lparr>metric_data := MetricTypeSum isMonotonic temp dps'\<rparr>, dps' \<noteq> []))
         | MetricTypeHistogram dps \<Rightarrow>
             (let dps' = removeIf (\<lambda>dp. (dp, miss (dp_attrs dp))) dps
              in (m\<lparr>metric_data := MetricTypeHistogram dps'\<rparr>, dps' \<noteq> []))
         | MetricTypeExponentialHistogram dps \<Rightarrow>
             (let dps' = removeIf (\<lambda>dp. (dp, miss (dp_attrs dp))) dps
              in (m\<lparr>metric_data := MetricTypeExponentialHistogram dps'\<rparr>, dps' \<noteq> []))
         | MetricTypeSummary dps \<Rightarrow>
             (let dps' = removeIf (\<lambda>dp. (dp, miss (dp_attrs dp))) dps
              in (m\<lparr>metric_data := MetricTypeSummary dps'\<rparr>, dps' \<noteq> []))
         | MetricTypeEmpty \<Rightarrow> (m, False))"

text \<open>Pruning a batch bottom up: the callback decides on a metric (and may change it), empty
  scopes and empty resources are dropped.\<close>

definition prune_scope ::
    "(('m, 'x) metric \<Rightarrow> ('m, 'x) metric \<times> bool) \<Rightarrow> ('m, 'x) scope_metrics
     \<Rightarrow> ('m, 'x) scope_metrics \<times> bool" where
  "prune_scope f sm =
     (let ms = removeIf f (sm_metrics sm) in (sm\<lparr>sm_metrics := ms\<rparr>, ms = []))"

definition prune_resource ::
    "(('m, 'x) metric \<Rightarrow> ('m, 'x) metric \<times> bool) \<Rightarrow> ('m, 'x) resource_metrics
     \<Rightarrow> ('m, 'x) resource_metrics \<times> bool" where
  "prune_resource f rm =
     (let sms = removeIf (prune_scope f) (rm_scopes rm) in (rm\<lparr>rm_scopes := sms\<rparr>, sms = []))"

definition filterBySelectors ::
    "'re regexp_lib \<Rightarrow> unicode_tables \<Rightarrow> ('m, 'v) pcommon \<Rightarrow> namer \<Rightarrow> ('m, 'x) metrics
     \<Rightarrow> 're compiledSelectorSet \<Rightarrow> ('m, 'x) metrics" where
  "filterBySelectors lib u pc namer md s =
     removeIf (\<lambda>rm.
         let resLabels = ResourceLabelMap u pc (rm_attrs rm) in
         prune_resource (\<lambda>m.
             let (m', keep) = filterMetricDatapoints lib u pc namer m resLabels s in (m', \<not> keep)) rm)
       md"

section \<open>The processor (processor.go)\<close>

record ('st, 're) demandFilterProcessor =
  provider :: "('st \<Rightarrow> string list) option"
  selectorProvider :: "('st \<Rightarrow> string list) option"
  selCachedKey :: string
  selCachedSet :: "'re compiledSelectorSet option"

definition newDemandFilterProcessor :: "('st, 're) demandFilterProcessor" where
  "newDemandFilterProcessor =
     \<lparr>provider = None, selectorProvider = None, selCachedKey = '''', selCachedSet = None\<rparr>"

text \<open>\<open>Start\<close>: the first extension, in the order the host lists them, that offers demands.\<close>

fun Start ::
    "('st, 're) demandFilterProcessor \<Rightarrow> 'st extension list \<Rightarrow> ('st, 're) demandFilterProcessor" where
  "Start p [] = p"
| "Start p (ext # exts) =
     (case ext_GetDemands ext of
        Some dp \<Rightarrow>
          (case ext_GetMetricSelectors ext of
             Some sp \<Rightarrow> p\<lparr>provider := Some dp, selectorProvider := Some sp\<rparr>
           | None \<Rightarrow> p\<lparr>provider := Some dp\<rparr>)
      | None \<Rightarrow> Start p exts)"

definition parsedSelectors ::
    "'re regexp_lib \<Rightarrow> ('st, 're) demandFilterProcessor \<Rightarrow> string list
     \<Rightarrow> 're compiledSelectorSet \<times> ('st, 're) demandFilterProcessor" where
  "parsedSelectors lib p raw =
     (let key = Join raw [nulbyte] in
      case (if key = selCachedKey p then selCachedSet p else None) of
        Some s \<Rightarrow> (s, p)
      | None \<Rightarrow>
          let s = compileSelectors lib raw in
          (s, p\<lparr>selCachedKey := key, selCachedSet := Some s\<rparr>))"

definition isMetricDemanded :: "namer \<Rightarrow> ('m, 'x) metric \<Rightarrow> string key_set \<Rightarrow> bool" where
  "isMetricDemanded namer m demandSet =
     (let base = BaseName namer m; has = (\<lambda>n. fmlookup demandSet n \<noteq> None) in
      case metric_data m of
        MetricTypeGauge _ \<Rightarrow> has base
      | MetricTypeSum _ _ _ \<Rightarrow> has base
      | MetricTypeHistogram _ \<Rightarrow> has (base @ ''_bucket'') \<or> has (base @ ''_sum'') \<or> has (base @ ''_count'')
      | MetricTypeExponentialHistogram _ \<Rightarrow> has base
      | MetricTypeSummary _ \<Rightarrow> has base \<or> has (base @ ''_sum'') \<or> has (base @ ''_count'')
      | MetricTypeEmpty \<Rightarrow> False)"

definition consumeSelectorMode ::
    "'re regexp_lib \<Rightarrow> unicode_tables \<Rightarrow> ('m, 'v) pcommon \<Rightarrow> namer \<Rightarrow> ('st, 're) demandFilterProcessor
     \<Rightarrow> ('m, 'x) metrics \<Rightarrow> string list
     \<Rightarrow> ('m, 'x) metrics outcome \<times> ('st, 're) demandFilterProcessor" where
  "consumeSelectorMode lib u pc namer p md rawSelectors =
     (let (s, p') = parsedSelectors lib p rawSelectors in
      if set_empty s then (Blocked, p')
      else (Forward (filterBySelectors lib u pc namer md s), p'))"

definition filterByNames :: "namer \<Rightarrow> ('m, 'x) metrics \<Rightarrow> string list \<Rightarrow> ('m, 'x) metrics" where
  "filterByNames namer md demands =
     (let demandSet = put_all fmempty (map (\<lambda>d. (d, ())) demands) in
      removeIf (prune_resource (\<lambda>m. (m, \<not> isMetricDemanded namer m demandSet))) md)"

definition ConsumeMetrics ::
    "'re regexp_lib \<Rightarrow> unicode_tables \<Rightarrow> ('m, 'v) pcommon \<Rightarrow> namer \<Rightarrow> ('st, 're) demandFilterProcessor
     \<Rightarrow> 'st \<Rightarrow> ('m, 'x) metrics
     \<Rightarrow> ('m, 'x) metrics outcome \<times> ('st, 're) demandFilterProcessor" where
  "ConsumeMetrics lib u pc namer p st md =
     (case provider p of
        None \<Rightarrow> (Blocked, p)
      | Some getDemands \<Rightarrow>
          let rawSelectors = (case selectorProvider p of None \<Rightarrow> [] | Some getSel \<Rightarrow> getSel st) in
          if 0 < length rawSelectors then consumeSelectorMode lib u pc namer p md rawSelectors
          else let demands = getDemands st in
            if length demands = 0 then (Blocked, p)
            else (Forward (filterByNames namer md demands), p))"

section \<open>The meaning of a demand list\<close>

text \<open>A selector demands the series of the given name and labels: every matcher but those on
  \<open>le\<close> and \<open>quantile\<close> accepts.\<close>

definition selector_demands :: "'re regexp_lib \<Rightarrow> 're selector \<Rightarrow> string \<Rightarrow> label_map \<Rightarrow> bool" where
  "selector_demands lib sel name labels =
     list_all (\<lambda>m. Name m = ''le'' \<or> Name m = ''quantile'' \<or>
         MatchValue lib m (if Name m = ''__name__'' then name else go_get labels (Name m)))
       (Matchers sel)"

definition series_demanded ::
    "'re regexp_lib \<Rightarrow> string list \<Rightarrow> string list \<Rightarrow> label_map \<Rightarrow> bool" where
  "series_demanded lib raws names labels =
     list_ex (\<lambda>raw. case Parse lib raw of
         Inl _ \<Rightarrow> False
       | Inr sel \<Rightarrow> list_ex (\<lambda>n. selector_demands lib sel n labels) names) raws"

text \<open>The datapoints of a batch as one list, each with the metric it belongs to (without its
  datapoints), its scope and its resource.\<close>

datatype ('m, 'x) any_dp =
    NumberDP "('m, 'x) dp"
  | HistogramDP "('m, 'x) histogram_dp"
  | SummaryDP "('m, 'x) summary_dp"

fun any_attrs :: "('m, 'x) any_dp \<Rightarrow> 'm" where
  "any_attrs (NumberDP d) = dp_attrs d"
| "any_attrs (HistogramDP d) = dp_attrs d"
| "any_attrs (SummaryDP d) = dp_attrs d"

fun dps_of :: "('m, 'x) metric_data \<Rightarrow> ('m, 'x) any_dp list" where
  "dps_of MetricTypeEmpty = []"
| "dps_of (MetricTypeGauge ds) = map NumberDP ds"
| "dps_of (MetricTypeSum _ _ ds) = map NumberDP ds"
| "dps_of (MetricTypeHistogram ds) = map HistogramDP ds"
| "dps_of (MetricTypeExponentialHistogram ds) = map NumberDP ds"
| "dps_of (MetricTypeSummary ds) = map SummaryDP ds"

fun clear_dps :: "('m, 'x) metric_data \<Rightarrow> ('m, 'x) metric_data" where
  "clear_dps MetricTypeEmpty = MetricTypeEmpty"
| "clear_dps (MetricTypeGauge _) = MetricTypeGauge []"
| "clear_dps (MetricTypeSum isMonotonic temp _) = MetricTypeSum isMonotonic temp []"
| "clear_dps (MetricTypeHistogram _) = MetricTypeHistogram []"
| "clear_dps (MetricTypeExponentialHistogram _) = MetricTypeExponentialHistogram []"
| "clear_dps (MetricTypeSummary _) = MetricTypeSummary []"

definition header :: "('m, 'x) metric \<Rightarrow> ('m, 'x) metric" where
  "header m = m\<lparr>metric_data := clear_dps (metric_data m)\<rparr>"

record ('m, 'x) flat_dp =
  f_resource :: 'm
  f_resource_rest :: 'x
  f_scope :: 'x
  f_metric :: "('m, 'x) metric"
  f_dp :: "('m, 'x) any_dp"

definition flat_metric ::
    "('m, 'x) resource_metrics \<Rightarrow> ('m, 'x) scope_metrics \<Rightarrow> ('m, 'x) metric \<Rightarrow> ('m, 'x) flat_dp list" where
  "flat_metric rm sm m =
     map (\<lambda>d. \<lparr>f_resource = rm_attrs rm, f_resource_rest = rm_rest rm, f_scope = sm_rest sm,
               f_metric = header m, f_dp = d\<rparr>) (dps_of (metric_data m))"

definition flat_scope ::
    "('m, 'x) resource_metrics \<Rightarrow> ('m, 'x) scope_metrics \<Rightarrow> ('m, 'x) flat_dp list" where
  "flat_scope rm sm = concat (map (flat_metric rm sm) (sm_metrics sm))"

definition flat_resource :: "('m, 'x) resource_metrics \<Rightarrow> ('m, 'x) flat_dp list" where
  "flat_resource rm = concat (map (flat_scope rm) (rm_scopes rm))"

definition flat :: "('m, 'x) metrics \<Rightarrow> ('m, 'x) flat_dp list" where
  "flat md = concat (map flat_resource md)"

definition dp_demanded ::
    "'re regexp_lib \<Rightarrow> unicode_tables \<Rightarrow> ('m, 'v) pcommon \<Rightarrow> namer \<Rightarrow> string list \<Rightarrow> ('m, 'x) flat_dp
     \<Rightarrow> bool" where
  "dp_demanded lib u pc namer raws f =
     series_demanded lib raws (familyNames (f_metric f) (BaseName namer (f_metric f)))
       (BuildSeriesLabels u pc (f_resource f) (any_attrs (f_dp f)) [])"

definition dp_name_demanded :: "namer \<Rightarrow> string list \<Rightarrow> ('m, 'x) flat_dp \<Rightarrow> bool" where
  "dp_name_demanded namer demands f =
     list_ex (\<lambda>n. n \<in> set demands) (familyNames (f_metric f) (BaseName namer (f_metric f)))"

section \<open>Compiled selectors and selectors\<close>

lemma name_matchers_accept_iff:
  "name_matchers_accept lib ms n \<longleftrightarrow> (\<forall>m \<in> set ms. MatchValue lib m n)"
  by (induction ms) auto

lemma label_matchers_accept_iff:
  "label_matchers_accept lib lms scratch res \<longleftrightarrow>
   (\<forall>m \<in> set lms. MatchValue lib m (dp_value scratch res (Name m)))"
  by (induction lms) auto

lemma any_candidate_iff:
  "any_candidate lib css scratch res \<longleftrightarrow>
   (\<exists>cs \<in> set css. label_matchers_accept lib (labelMatchers cs) scratch res)"
  by (induction css) auto

lemma split_matchers_eq:
  "split_matchers cs ms =
     cs\<lparr>nameMatchers := nameMatchers cs @ filter (\<lambda>m. Name m = ''__name__'') ms,
        labelMatchers := labelMatchers cs @
          filter (\<lambda>m. Name m \<noteq> ''__name__'' \<and> Name m \<noteq> ''le'' \<and> Name m \<noteq> ''quantile'') ms\<rparr>"
  by (induction cs ms rule: split_matchers.induct) auto

abbreviation compiled :: "'re selector \<Rightarrow> 're compiledSelector" where
  "compiled sel \<equiv> split_matchers \<lparr>nameMatchers = [], labelMatchers = []\<rparr> (Matchers sel)"

lemma selector_demands_compiled:
  "selector_demands lib sel n labels \<longleftrightarrow>
     matchesName lib (compiled sel) n \<and>
     (\<forall>m \<in> set (labelMatchers (compiled sel)). MatchValue lib m (go_get labels (Name m)))"
  by (auto simp: selector_demands_def matchesName_def name_matchers_accept_iff split_matchers_eq
      list_all_iff)

text \<open>The selectors a set offers for a name.\<close>

definition offers ::
    "'re regexp_lib \<Rightarrow> 're compiledSelectorSet \<Rightarrow> string \<Rightarrow> 're compiledSelector \<Rightarrow> bool" where
  "offers lib s n cs \<longleftrightarrow> cs \<in> set (selectors_at s n) \<or> cs \<in> set (scan s) \<and> matchesName lib cs n"

lemma candidatesFor_iff: "cs \<in> set (candidatesFor lib s ns) \<longleftrightarrow> (\<exists>n \<in> set ns. offers lib s n cs)"
  by (induction ns) (auto simp: offers_def)

lemma selectors_at_upd:
  "selectors_at (s\<lparr>byName := fmupd k xs (byName s)\<rparr>) n = (if n = k then xs else selectors_at s n)"
  by (simp add: selectors_at_def)

lemma selectors_at_scan [simp]: "selectors_at (s\<lparr>scan := x\<rparr>) n = selectors_at s n"
  by (simp add: selectors_at_def)

lemma offers_scan:
  "offers lib (s\<lparr>scan := scan s @ [cs]\<rparr>) n x \<longleftrightarrow> offers lib s n x \<or> x = cs \<and> matchesName lib cs n"
  by (auto simp: offers_def)

lemma offers_byName:
  assumes "nameMatchers cs = [m]" "Op m = OpEq"
  shows "offers lib (s\<lparr>byName := fmupd (Value m) (selectors_at s (Value m) @ [cs]) (byName s)\<rparr>) n x
    \<longleftrightarrow> offers lib s n x \<or> x = cs \<and> matchesName lib cs n"
proof -
  have "matchesName lib cs n \<longleftrightarrow> n = Value m"
    using assms by (simp add: matchesName_def MatchValue_def)
  then show ?thesis by (auto simp: offers_def selectors_at_upd)
qed

lemma offers_index_selector:
  "offers lib (index_selector s cs) n x \<longleftrightarrow> offers lib s n x \<or> x = cs \<and> matchesName lib cs n"
  by (auto simp: index_selector_def offers_scan offers_byName split: list.splits)

lemma offers_compile_into:
  "offers lib (compile_into lib s raws) n x \<longleftrightarrow>
   offers lib s n x \<or>
   (\<exists>raw \<in> set raws. \<exists>sel. Parse lib raw = Inr sel \<and> x = compiled sel \<and> matchesName lib x n)"
  by (induction lib s raws rule: compile_into.induct)
    (auto simp: offers_index_selector split: sum.splits)

lemma offers_compileSelectors:
  "offers lib (compileSelectors lib raws) n x \<longleftrightarrow>
   (\<exists>raw \<in> set raws. \<exists>sel. Parse lib raw = Inr sel \<and> x = compiled sel \<and> matchesName lib x n)"
  by (simp add: compileSelectors_def offers_compile_into) (simp add: offers_def selectors_at_def)

lemma set_empty_index_selector: "\<not> set_empty (index_selector s cs)"
  by (auto simp: index_selector_def set_empty_def split: list.splits)

lemma set_empty_compile_into:
  "set_empty (compile_into lib s raws) \<longleftrightarrow> set_empty s \<and> (\<forall>raw \<in> set raws. \<exists>e. Parse lib raw = Inl e)"
  by (induction lib s raws rule: compile_into.induct)
    (auto simp: set_empty_index_selector split: sum.splits)

lemma set_empty_compileSelectors:
  "set_empty (compileSelectors lib raws) \<longleftrightarrow> (\<forall>raw \<in> set raws. \<exists>e. Parse lib raw = Inl e)"
  by (simp add: compileSelectors_def set_empty_compile_into) (simp add: set_empty_def)

section \<open>One metric\<close>

lemma dp_value_labels:
  "dp_value (put_all fmempty (attr_labels u pc pt)) (ResourceLabelMap u pc res) n =
   go_get (BuildSeriesLabels u pc res pt []) n"
  by (auto simp: dp_value_def go_get_def BuildSeriesLabels_two_level split: option.splits)

lemma matchDP_iff:
  "matchDP lib u pc cands (ResourceLabelMap u pc res) pt \<longleftrightarrow>
   (\<exists>cs \<in> set cands. \<forall>m \<in> set (labelMatchers cs).
      MatchValue lib m (go_get (BuildSeriesLabels u pc res pt []) (Name m)))"
  by (simp add: matchDP_def any_candidate_iff label_matchers_accept_iff dp_value_labels)

lemma series_demanded_iff:
  "series_demanded lib raws names labels \<longleftrightarrow>
   (\<exists>raw \<in> set raws. \<exists>sel. Parse lib raw = Inr sel \<and>
      (\<exists>n \<in> set names. selector_demands lib sel n labels))"
  by (simp add: series_demanded_def list_ex_iff)

lemma matchDP_candidates:
  "matchDP lib u pc (candidatesFor lib (compileSelectors lib raws) names) (ResourceLabelMap u pc res) pt
   \<longleftrightarrow> series_demanded lib raws names (BuildSeriesLabels u pc res pt [])"
  unfolding matchDP_iff Bex_def candidatesFor_iff offers_compileSelectors series_demanded_iff
    selector_demands_compiled by blast

lemma BaseName_header [simp]: "BaseName namer (header m) = BaseName namer m"
  by (cases "metric_data m") (auto simp: BaseName_def header_def metricType_def split: option.splits)

lemma familyNames_header [simp]: "familyNames (header m) base = familyNames m base"
  by (cases "metric_data m") (simp_all add: familyNames_def header_def)

lemma header_update:
  "clear_dps d = clear_dps (metric_data m) \<Longrightarrow> header (m\<lparr>metric_data := d\<rparr>) = header m"
  by (simp add: header_def)

text \<open>What a callback on metrics has to do to keep exactly the datapoints that satisfy a
  predicate, and that this is then what pruning does to the batch.\<close>

definition keeps_exactly ::
    "(('m, 'x) metric \<Rightarrow> ('m, 'x) metric \<times> bool) \<Rightarrow> (('m, 'x) flat_dp \<Rightarrow> bool)
     \<Rightarrow> ('m, 'x) resource_metrics \<Rightarrow> bool" where
  "keeps_exactly f P rm \<longleftrightarrow>
     (\<forall>sm m. filter P (flat_metric rm sm m)
       = (if snd (f m) then [] else flat_metric rm sm (fst (f m))))"

lemma concat_removeIf:
  assumes "\<And>x. x \<in> set xs \<Longrightarrow> filter P (g x) = (if snd (f x) then [] else g' (fst (f x)))"
  shows "concat (map g' (removeIf f xs)) = filter P (concat (map g xs))"
  using assms by (induction xs) (auto split: prod.splits)

lemma flat_scope_prune:
  assumes "keeps_exactly f P rm"
  shows "flat_scope rm (fst (prune_scope f sm)) = filter P (flat_scope rm sm)"
    and "snd (prune_scope f sm) \<Longrightarrow> filter P (flat_scope rm sm) = []"
proof -
  have same: "flat_metric rm (sm\<lparr>sm_metrics := xs\<rparr>) = flat_metric rm sm" for xs
    by (rule ext) (simp add: flat_metric_def)
  show 1: "flat_scope rm (fst (prune_scope f sm)) = filter P (flat_scope rm sm)"
    using assms unfolding flat_scope_def prune_scope_def keeps_exactly_def
    by (simp add: Let_def same concat_removeIf)
  show "snd (prune_scope f sm) \<Longrightarrow> filter P (flat_scope rm sm) = []"
    unfolding 1 [symmetric] by (simp add: prune_scope_def Let_def flat_scope_def)
qed

lemma flat_resource_prune:
  assumes "keeps_exactly f P rm"
  shows "flat_resource (fst (prune_resource f rm)) = filter P (flat_resource rm)"
    and "snd (prune_resource f rm) \<Longrightarrow> filter P (flat_resource rm) = []"
proof -
  have "flat_metric (rm\<lparr>rm_scopes := xs\<rparr>) = flat_metric rm" for xs
    by (intro ext) (simp add: flat_metric_def)
  then have same: "flat_scope (rm\<lparr>rm_scopes := xs\<rparr>) = flat_scope rm" for xs
    by (intro ext) (simp add: flat_scope_def)
  have "filter P (flat_scope rm sm) = (if snd (prune_scope f sm) then [] else flat_scope rm (fst (prune_scope f sm)))"
    for sm using flat_scope_prune [OF assms, of sm] by simp
  then show 1: "flat_resource (fst (prune_resource f rm)) = filter P (flat_resource rm)"
    unfolding flat_resource_def prune_resource_def
    by (simp add: Let_def same concat_removeIf)
  show "snd (prune_resource f rm) \<Longrightarrow> filter P (flat_resource rm) = []"
    unfolding 1 [symmetric] by (simp add: prune_resource_def Let_def flat_resource_def)
qed

lemma flat_prune:
  assumes "\<And>rm. rm \<in> set md \<Longrightarrow> keeps_exactly (f rm) P rm"
  shows "flat (removeIf (\<lambda>rm. prune_resource (f rm) rm) md) = filter P (flat md)"
  unfolding flat_def
proof (rule concat_removeIf)
  fix rm assume "rm \<in> set md"
  from flat_resource_prune [OF assms [OF this]]
  show "filter P (flat_resource rm) = (if snd (prune_resource (f rm) rm) then []
      else flat_resource (fst (prune_resource (f rm) rm)))" by simp
qed

text \<open>No empty metric group is left behind: pruning drops empty scopes and resources.\<close>

definition no_empty_groups :: "('m, 'x) metrics \<Rightarrow> bool" where
  "no_empty_groups md \<longleftrightarrow>
     list_all (\<lambda>rm. rm_scopes rm \<noteq> [] \<and> list_all (\<lambda>sm. sm_metrics sm \<noteq> []) (rm_scopes rm)) md"

lemma removeIf_list_all:
  "(\<And>x. x \<in> set xs \<Longrightarrow> \<not> snd (f x) \<Longrightarrow> Q (fst (f x))) \<Longrightarrow> list_all Q (removeIf f xs)"
  by (auto simp: removeIf_map_filter list_all_iff)

lemma no_empty_groups_prune: "no_empty_groups (removeIf (\<lambda>rm. prune_resource (f rm) rm) md)"
  unfolding no_empty_groups_def
  by (rule removeIf_list_all)
    (auto simp: prune_resource_def prune_scope_def Let_def intro!: removeIf_list_all)

section \<open>The filters keep exactly what is demanded\<close>

lemma filterMetricDatapoints_keeps:
  fixes rm :: "('m, 'x) resource_metrics" and pc :: "('m, 'v) pcommon"
  shows "keeps_exactly
    (\<lambda>m. let (m', keep) = filterMetricDatapoints lib u pc namer m
            (ResourceLabelMap u pc (rm_attrs rm)) (compileSelectors lib raws) in (m', \<not> keep))
    (dp_demanded lib u pc namer raws) rm"
  unfolding keeps_exactly_def
proof (intro allI)
  fix sm :: "('m, 'x) scope_metrics" and m :: "('m, 'x) metric"
  let ?names = "familyNames m (BaseName namer m)"
  let ?cands = "candidatesFor lib (compileSelectors lib raws) ?names"
  let ?D = "\<lambda>d. series_demanded lib raws ?names
              (BuildSeriesLabels u pc (rm_attrs rm) (any_attrs d) [])"
  have md: "matchDP lib u pc ?cands (ResourceLabelMap u pc (rm_attrs rm)) (any_attrs d) \<longleftrightarrow> ?D d"
    for d :: "('m, 'x) any_dp"
    by (rule matchDP_candidates)
  have L: "filter (dp_demanded lib u pc namer raws) (flat_metric rm sm m)
      = map (\<lambda>d. \<lparr>f_resource = rm_attrs rm, f_resource_rest = rm_rest rm, f_scope = sm_rest sm,
               f_metric = header m, f_dp = d\<rparr>) (filter ?D (dps_of (metric_data m)))"
    by (simp add: flat_metric_def filter_map comp_def dp_demanded_def)
  consider (none) "?cands = []" | (all) cs where "cs \<in> set ?cands" "labelMatchers cs = []"
    | (some) "?cands \<noteq> []" "\<not> (\<exists>cs \<in> set ?cands. labelMatchers cs = [])" by blast
  then show "filter (dp_demanded lib u pc namer raws) (flat_metric rm sm m) =
      (if snd (let (m', keep) = filterMetricDatapoints lib u pc namer m
            (ResourceLabelMap u pc (rm_attrs rm)) (compileSelectors lib raws) in (m', \<not> keep)) then []
       else flat_metric rm sm (fst (let (m', keep) = filterMetricDatapoints lib u pc namer m
            (ResourceLabelMap u pc (rm_attrs rm)) (compileSelectors lib raws) in (m', \<not> keep))))"
  proof cases
    case none
    then have "\<not> ?D d" for d :: "('m, 'x) any_dp" using md [of d] by (simp add: matchDP_iff)
    with none show ?thesis unfolding L by (simp add: filterMetricDatapoints_def Let_def)
  next
    case all
    then have "?D d" for d :: "('m, 'x) any_dp" using md [of d] by (force simp: matchDP_iff)
    with all show ?thesis unfolding L
      by (auto simp: filterMetricDatapoints_def Let_def flat_metric_def)
  next
    case some
    show ?thesis unfolding L using some md [of "NumberDP _"] md [of "HistogramDP _"] md [of "SummaryDP _"]
      by (cases "metric_data m")
        (auto simp: filterMetricDatapoints_def Let_def flat_metric_def header_def filter_map comp_def)
  qed
qed

lemma filterBySelectors_flat:
  "flat (filterBySelectors lib u pc namer md (compileSelectors lib raws))
   = filter (dp_demanded lib u pc namer raws) (flat md)"
  unfolding filterBySelectors_def Let_def
  by (rule flat_prune) (rule filterMetricDatapoints_keeps [unfolded Let_def])

lemma key_set_lookup:
  "fmlookup (put_all fmempty (map (\<lambda>d. (d, ())) ds)) n \<noteq> None \<longleftrightarrow> n \<in> set ds"
  by (auto simp: put_all_lookup rev_map map_of_map_restrict restrict_map_def split: option.splits)

lemma isMetricDemanded_iff:
  "isMetricDemanded namer m (put_all fmempty (map (\<lambda>d. (d, ())) demands)) \<longleftrightarrow>
   metric_data m \<noteq> MetricTypeEmpty \<and>
   list_ex (\<lambda>n. n \<in> set demands) (familyNames m (BaseName namer m))"
  unfolding isMetricDemanded_def Let_def key_set_lookup
  by (cases "metric_data m") (auto simp: familyNames_def)

lemma filterByNames_flat:
  "flat (filterByNames namer md demands) = filter (dp_name_demanded namer demands) (flat md)"
  unfolding filterByNames_def Let_def
proof (rule flat_prune)
  fix rm :: "('a, 'b) resource_metrics"
  show "keeps_exactly (\<lambda>m. (m, \<not> isMetricDemanded namer m (put_all fmempty (map (\<lambda>d. (d, ())) demands))))
      (dp_name_demanded namer demands) rm"
    by (auto simp: keeps_exactly_def isMetricDemanded_iff flat_metric_def filter_map comp_def
        dp_name_demanded_def)
qed

section \<open>The cache of compiled selectors\<close>

definition cached_set ::
    "('st, 're) demandFilterProcessor \<Rightarrow> string \<Rightarrow> 're compiledSelectorSet option" where
  "cached_set p key = (if key = selCachedKey p then selCachedSet p else None)"

interpretation metric_cache: keyed_store "parsedSelectors lib" "compileSelectors lib" nul_free
    "\<lambda>raws. Join raws [nulbyte]" cached_set for lib
proof (unfold_locales, goal_cases)
  case (3 s r k c)
  then show ?case
    by (auto simp: parsedSelectors_def cached_set_def Let_def split: if_splits option.splits)
next
  case (4 r r')
  then show ?case using nul_free_Join by metis
qed (auto simp: parsedSelectors_def cached_set_def Let_def split: option.splits)

lemma parsedSelectors_providers [simp]:
  "provider (snd (parsedSelectors lib p raws)) = provider p"
  "selectorProvider (snd (parsedSelectors lib p raws)) = selectorProvider p"
  by (auto simp: parsedSelectors_def Let_def split: option.splits)

text \<open>The precondition on NUL bytes is needed: after a list of broken selectors a good selector
  with the same key is answered from the cache, with nothing to scan, although it compiles.\<close>

theorem metric_key_collision:
  "let p = snd (parsedSelectors literal_regexp newDemandFilterProcessor nul_split_selectors) in
   length (scan (fst (parsedSelectors literal_regexp p nul_value_selectors))) = 0
   \<and> length (scan (compileSelectors literal_regexp nul_value_selectors)) = 1"
  by code_simp

section \<open>The processor over a run of batches\<close>

definition selectors_now :: "('st, 're) demandFilterProcessor \<Rightarrow> 'st \<Rightarrow> string list" where
  "selectors_now p st = (case selectorProvider p of None \<Rightarrow> [] | Some getSel \<Rightarrow> getSel st)"

definition demands_now :: "('st, 're) demandFilterProcessor \<Rightarrow> 'st \<Rightarrow> string list" where
  "demands_now p st = (case provider p of None \<Rightarrow> [] | Some getDemands \<Rightarrow> getDemands st)"

text \<open>What the processor should keep of a batch, from the demand alone.\<close>

definition metric_demanded ::
    "'re regexp_lib \<Rightarrow> unicode_tables \<Rightarrow> ('m, 'v) pcommon \<Rightarrow> namer \<Rightarrow> string list \<Rightarrow> string list
     \<Rightarrow> ('m, 'x) flat_dp \<Rightarrow> bool" where
  "metric_demanded lib u pc namer raws demands f =
     (if raws \<noteq> [] then dp_demanded lib u pc namer raws f else dp_name_demanded namer demands f)"

definition consume_flat ::
    "'re regexp_lib \<Rightarrow> unicode_tables \<Rightarrow> ('m, 'v) pcommon \<Rightarrow> namer \<Rightarrow> ('st, 're) demandFilterProcessor
     \<Rightarrow> 'st \<times> ('m, 'x) metrics \<Rightarrow> ('m, 'x) flat_dp list \<times> ('st, 're) demandFilterProcessor" where
  "consume_flat lib u pc namer p r =
     (let (out, p') = ConsumeMetrics lib u pc namer p (fst r) (snd r) in (flat (forwarded out), p'))"

lemma flat_Nil [simp]: "flat [] = []"
  by (simp add: flat_def)

lemma no_names_demanded [simp]: "dp_name_demanded namer [] f = False"
  by (simp add: dp_name_demanded_def list_ex_iff)

lemma unparseable_demands_nothing:
  "set_empty (compileSelectors lib raws) \<Longrightarrow> filter (dp_demanded lib u pc namer raws) fs = []"
  by (auto simp: set_empty_compileSelectors dp_demanded_def series_demanded_iff filter_empty_conv)

lemma metric_demanded_names [simp]:
  "metric_demanded lib u pc namer [] demands = dp_name_demanded namer demands"
  by (rule ext) (simp add: metric_demanded_def)

lemma metric_demanded_selectors:
  "raws \<noteq> [] \<Longrightarrow> metric_demanded lib u pc namer raws demands = dp_demanded lib u pc namer raws"
  by (rule ext) (simp add: metric_demanded_def)

lemma consumeSelectorMode_flat:
  assumes "metric_cache.coherent lib p" "nul_free raws"
  shows "flat (forwarded (fst (consumeSelectorMode lib u pc namer p md raws)))
    = filter (dp_demanded lib u pc namer raws) (flat md)"
    and "snd (consumeSelectorMode lib u pc namer p md raws) = snd (parsedSelectors lib p raws)"
  using metric_cache.coherent_get [OF assms] 
  by (auto simp: consumeSelectorMode_def filterBySelectors_flat unparseable_demands_nothing
      split: prod.splits)

lemma consume_flat_correct:
  assumes "metric_cache.coherent lib p" "provider p \<noteq> None"
    and "selectors_now p (fst r) = [] \<or> nul_free (selectors_now p (fst r))"
  shows "fst (consume_flat lib u pc namer p r) =
      filter (metric_demanded lib u pc namer (selectors_now p (fst r)) (demands_now p (fst r)))
        (flat (snd r))"
    and "metric_cache.coherent lib (snd (consume_flat lib u pc namer p r))
      \<and> provider (snd (consume_flat lib u pc namer p r)) = provider p
      \<and> selectorProvider (snd (consume_flat lib u pc namer p r)) = selectorProvider p"
proof -
  obtain g where g: "provider p = Some g" using assms(2) by blast
  let ?raws = "selectors_now p (fst r)"
  have c: "ConsumeMetrics lib u pc namer p (fst r) (snd r) =
      (if ?raws \<noteq> [] then consumeSelectorMode lib u pc namer p (snd r) ?raws
       else if g (fst r) = [] then (Blocked, p)
       else (Forward (filterByNames namer (snd r) (g (fst r))), p))"
    by (simp add: ConsumeMetrics_def g selectors_now_def Let_def)
  have "nul_free ?raws" if "?raws \<noteq> []" using assms(3) that by blast
  note sel = consumeSelectorMode_flat [OF assms(1) this]
    metric_cache.coherent_get [OF assms(1) this, THEN conjunct2]
  show "fst (consume_flat lib u pc namer p r) =
      filter (metric_demanded lib u pc namer ?raws (demands_now p (fst r))) (flat (snd r))"
  proof (cases "?raws = []")
    case True
    then show ?thesis by (simp add: consume_flat_def c g demands_now_def filterByNames_flat)
  next
    case False
    then show ?thesis using sel(1) [OF False, of u pc namer "snd r"]
      by (simp add: consume_flat_def c metric_demanded_selectors case_prod_unfold Let_def)
  qed
  show "metric_cache.coherent lib (snd (consume_flat lib u pc namer p r))
      \<and> provider (snd (consume_flat lib u pc namer p r)) = provider p
      \<and> selectorProvider (snd (consume_flat lib u pc namer p r)) = selectorProvider p"
    using sel(2) [of u pc namer "snd r"] sel(3) assms(1) by (cases "?raws = []")
      (auto simp: consume_flat_def c case_prod_unfold Let_def)
qed

interpretation metric_filter: transparent_cache "consume_flat lib u pc namer"
    "\<lambda>r. filter (metric_demanded lib u pc namer (selectors_now p0 (fst r)) (demands_now p0 (fst r)))
      (flat (snd r))"
    "\<lambda>r. selectors_now p0 (fst r) = [] \<or> nul_free (selectors_now p0 (fst r))"
    "\<lambda>p. metric_cache.coherent lib p \<and> provider p0 \<noteq> None \<and> provider p = provider p0
      \<and> selectorProvider p = selectorProvider p0"
  for lib u pc namer p0
proof (unfold_locales, goal_cases)
  case (1 s r)
  then show ?case using consume_flat_correct(1) [of lib s r]
    by (simp add: selectors_now_def demands_now_def)
next
  case (2 s r)
  then show ?case using consume_flat_correct(2) [of lib s r] by (simp add: selectors_now_def)
qed

lemma Start_cache [simp]: "selCachedSet (Start p exts) = selCachedSet p"
  by (induction p exts rule: Start.induct) (auto split: option.splits)

lemma coherent_started: "metric_cache.coherent lib (Start newDemandFilterProcessor exts)"
  by (simp add: metric_cache.coherent_def cached_set_def newDemandFilterProcessor_def)

lemma no_empty_groups_filter:
  "no_empty_groups (filterBySelectors lib u pc namer md s)" "no_empty_groups (filterByNames namer md ds)"
  unfolding filterBySelectors_def filterByNames_def Let_def by (rule no_empty_groups_prune)+

text \<open>The selector of the series of one name.\<close>

definition name_selector :: "unicode_tables \<Rightarrow> string \<Rightarrow> string" where
  "name_selector u n = ''{__name__='' @ Quote u n @ ''}''"

lemma Parse_name_selector:
  "Parse lib (name_selector u n)
   = Inr \<lparr>Matchers = [\<lparr>Name = ''__name__'', Op = OpEq, Value = n, re = None\<rparr>]\<rparr>"
  (is "_ = Inr ?s")
proof -
  have "wf_selector lib False ?s"
    by (simp add: wf_selector_def wf_matcher_def is_regex_op_def) code_simp
  moreover have "render_selector u ?s = name_selector u n"
    by (simp add: render_selector_def render_matcher_def name_selector_def)
  ultimately show ?thesis unfolding Parse_def by (metis parse_render_selector)
qed

lemma name_selectors_demand:
  "dp_demanded lib u pc namer (map (name_selector u) demands) = dp_name_demanded namer demands"
  by (rule ext) (auto simp: dp_demanded_def series_demanded_iff dp_name_demanded_def Parse_name_selector
      selector_demands_def MatchValue_def list_ex_iff)

section \<open>Properties\<close>

text \<open>C2: over every run of batches, each with the state of the providing extension at the time
  it arrives, a started processor hands on exactly the datapoints the demand of that moment
  asks for, in their order and with their resource, scope and metric unchanged: by the metric
  selectors when there are any, else by the demanded names.  The selectors compiled for
  earlier batches never leak into a later one, as long as no selector contains the NUL byte
  that separates the entries of the cache key.\<close>

theorem ConsumeMetrics_exact:
  assumes "p0 = Start newDemandFilterProcessor exts" and "provider p0 \<noteq> None"
    and "list_all (\<lambda>r. selectors_now p0 (fst r) = [] \<or> nul_free (selectors_now p0 (fst r))) batches"
  shows "fst (serve (consume_flat lib u pc namer) p0 batches) =
    map (\<lambda>(st, md). filter (metric_demanded lib u pc namer (selectors_now p0 st) (demands_now p0 st))
           (flat md)) batches"
  using metric_filter.serve_fresh [of lib p0 p0 batches u pc namer] assms coherent_started [of lib exts]
  by (simp add: case_prod_unfold)

text \<open>The filter is fail-closed.  Without a providing extension, with no demand at all, or
  with selectors none of which parses, nothing is forwarded.\<close>

theorem ConsumeMetrics_fail_closed:
  assumes "provider p = None
    \<or> selectors_now p st = [] \<and> demands_now p st = []
    \<or> metric_cache.coherent lib p \<and> nul_free (selectors_now p st)
        \<and> list_all (\<lambda>raw. \<exists>e. Parse lib raw = Inl e) (selectors_now p st)"
  shows "fst (ConsumeMetrics lib u pc namer p st md) = Blocked"
proof -
  consider "provider p = None" | g where "provider p = Some g" "selectors_now p st = []" "g st = []"
    | g where "provider p = Some g" "metric_cache.coherent lib p" "nul_free (selectors_now p st)"
        "set_empty (compileSelectors lib (selectors_now p st))"
    using assms by (cases "provider p")
      (auto simp: demands_now_def set_empty_compileSelectors list_all_iff)
  then show ?thesis
  proof cases
    case (3 g)
    have "selectors_now p st \<noteq> []" using 3 by (simp add: nul_free_def)
    with 3 metric_cache.coherent_get [OF 3(2,3)] show ?thesis
      by (simp add: ConsumeMetrics_def consumeSelectorMode_def case_prod_unfold Let_def
          flip: selectors_now_def)
  qed (simp_all add: ConsumeMetrics_def flip: selectors_now_def)
qed

text \<open>A name list and the list of the selectors \<open>{__name__="..."}\<close> of the same names
  keep the same datapoints, so a backend that switches from names to selectors changes
  nothing.\<close>

theorem names_as_selectors:
  "flat (filterBySelectors lib u pc namer md (compileSelectors lib (map (name_selector u) demands)))
   = flat (filterByNames namer md demands)"
  by (simp add: filterBySelectors_flat filterByNames_flat name_selectors_demand)

text \<open>A forwarded batch has no resource without scopes and no scope without metrics.\<close>

theorem ConsumeMetrics_no_empty_groups:
  "no_empty_groups (forwarded (fst (ConsumeMetrics lib u pc namer p st md)))"
  by (auto simp: ConsumeMetrics_def consumeSelectorMode_def Let_def no_empty_groups_filter
      case_prod_unfold no_empty_groups_def [of "[]"] split: option.splits)

section \<open>Witnesses\<close>

text \<open>An extension whose state is the pair of its demanded names and its metric selectors, and a
  batch of two gauge points of one metric.\<close>

definition pair_extension :: "(string list \<times> string list) extension" where
  "pair_extension = \<lparr>ext_GetDemands = Some fst, ext_GetMetricSelectors = Some snd,
     ext_GetLogDemands = None, ext_GetTraceDemands = None, ext_GetTraceRoutes = None\<rparr>"

definition gauge_batch :: "(attr_list, nat) metrics" where
  "gauge_batch =
     [\<lparr>rm_attrs = attrs_list [(''service.name'', ''api'')],
       rm_scopes = [\<lparr>sm_metrics = [\<lparr>metric_name = ''up'', metric_unit = '''',
           metric_data = MetricTypeGauge
             [\<lparr>dp_attrs = attrs_list [(''env'', ''prod'')], dp_rest = 1\<rparr>,
              \<lparr>dp_attrs = attrs_list [(''env'', ''dev'')], dp_rest = 2\<rparr>]\<rparr>], sm_rest = 0\<rparr>],
       rm_rest = 0\<rparr>]"

definition kept_rests :: "(attr_list, nat) flat_dp list \<Rightarrow> nat list" where
  "kept_rests = map (\<lambda>f. case f_dp f of NumberDP d \<Rightarrow> dp_rest d | _ \<Rightarrow> 0)"

lemma kept_gauge_points:
  "kept_rests (filter (dp_name_demanded plain_namer [''up'']) (flat gauge_batch)) = [1, 2]"
  "kept_rests (filter (dp_name_demanded plain_namer [''down'']) (flat gauge_batch)) = []"
  by code_simp+

lemma kept_by_selector:
  "kept_rests (filter (dp_demanded literal_regexp latin_tables list_pcommon plain_namer
     [name_selector latin_tables ''up'']) (flat gauge_batch)) = [1, 2]"
  by code_simp

lemma up_selector: "nul_free [name_selector latin_tables ''up'']"
  by code_simp

text \<open>Witness of C2 (the run of batches): three batches under changing demand.\<close>

theorem ConsumeMetrics_exact_witness:
  "map kept_rests (fst (serve (consume_flat literal_regexp latin_tables list_pcommon plain_namer)
       (Start newDemandFilterProcessor [pair_extension])
       [(([''up''], []), gauge_batch), (([''up''], [name_selector latin_tables ''up'']), gauge_batch),
        (([''down''], []), gauge_batch)])) = [[1, 2], [1, 2], []]"
  using ConsumeMetrics_exact
    [of "Start newDemandFilterProcessor [pair_extension]" "[pair_extension]"
      "[(([''up''], []), gauge_batch), (([''up''], [name_selector latin_tables ''up'']), gauge_batch),
        (([''down''], []), gauge_batch)]" literal_regexp latin_tables list_pcommon plain_namer]
    kept_gauge_points kept_by_selector up_selector
  by (simp add: pair_extension_def selectors_now_def demands_now_def metric_demanded_selectors)

text \<open>Witness (fail-closed): a selector that does not parse.\<close>

theorem ConsumeMetrics_fail_closed_witness:
  "fst (ConsumeMetrics literal_regexp latin_tables list_pcommon plain_namer
     (Start newDemandFilterProcessor [pair_extension]) ([''up''], [''up'']) gauge_batch) = Blocked"
proof (rule ConsumeMetrics_fail_closed, intro disjI2 conjI)
  show "metric_cache.coherent literal_regexp (Start newDemandFilterProcessor [pair_extension])"
    by (rule coherent_started)
  show "nul_free (selectors_now (Start newDemandFilterProcessor [pair_extension]
      :: (string list \<times> string list, string) demandFilterProcessor) ([''up''], [''up'']))"
    by code_simp
  show "list_all (\<lambda>raw. \<exists>e. Parse literal_regexp raw = Inl e)
     (selectors_now (Start newDemandFilterProcessor [pair_extension]
      :: (string list \<times> string list, string) demandFilterProcessor) ([''up''], [''up'']))"
    by (simp add: selectors_now_def pair_extension_def Parse_def parse_def consume_def skipSpace_def
        is_blank_def)
qed

end
