(* ===== verification/Demand_Matcher.thy ===== *)
theory Demand_Matcher
  imports Demand_Filter "HOL-Library.Multiset"
begin

text \<open>
  The name-level demand matcher of the edge controller
  (\<open>src/components/edgecontroller/demand_matcher.go\<close>), which estimates what the demand
  filter forwards from the names of the known series alone.  Sets of names are finite maps to
  unit; where the code ranges over a set only to find whether some element satisfies a test,
  or to collect a set, the order is irrelevant and the model uses the sorted keys.

  The lemmas relate the estimate to the filter: every series of a metric the filter keeps is
  counted, except for metrics without a name and for summaries whose own name ends in one of
  the component suffixes.
\<close>

section \<open>Name lists\<close>

definition family_suffixes :: "string list" where
  "family_suffixes = [''_bucket'', ''_sum'', ''_count'']"

text \<open>The loop over the suffixes: the base and the suffix found, if any.\<close>

fun find_suffix :: "string \<Rightarrow> string list \<Rightarrow> (string \<times> string) option" where
  "find_suffix d [] = None"
| "find_suffix d (s # ss) =
     (if HasSuffix d s \<and> length s < length d then Some (TrimSuffix d s, s) else find_suffix d ss)"

definition expand_one :: "string \<Rightarrow> string list" where
  "expand_one d =
     (if d = '''' then []
      else case find_suffix d family_suffixes of
        Some (base, s) \<Rightarrow> [d, base, base @ ''_bucket'', base @ ''_sum'', base @ ''_count'']
      | None \<Rightarrow> [d, d @ ''_sum'', d @ ''_count''])"

definition expandDemandNames :: "string list \<Rightarrow> string key_set" where
  "expandDemandNames demands = put_all fmempty (map (\<lambda>n. (n, ())) (concat (map expand_one demands)))"

definition diagnoseDemand :: "string list \<Rightarrow> string key_set \<Rightarrow> string list \<times> string list" where
  "diagnoseDemand demands knownNames =
     (let ds = filter (\<lambda>d. d \<noteq> '''') demands;
          found = (\<lambda>d. list_ex (\<lambda>n. fmlookup knownNames n \<noteq> None) (sorted_keys (expandDemandNames [d])))
      in (sort (filter found ds), sort (filter (\<lambda>d. \<not> found d) ds)))"

section \<open>Selector lists\<close>

record 're nameSelector =
  ns_raw :: string
  ns_parsed :: bool
  ns_nameMatchers :: "'re matcher list"

definition parse_name_selector :: "'re regexp_lib \<Rightarrow> string \<Rightarrow> 're nameSelector" where
  "parse_name_selector lib raw =
     (case Parse lib raw of
        Inl _ \<Rightarrow> \<lparr>ns_raw = raw, ns_parsed = False, ns_nameMatchers = []\<rparr>
      | Inr sel \<Rightarrow> \<lparr>ns_raw = raw, ns_parsed = True,
                   ns_nameMatchers = filter (\<lambda>m. Name m = ''__name__'') (Matchers sel)\<rparr>)"

definition parseNameSelectors :: "'re regexp_lib \<Rightarrow> string list \<Rightarrow> 're nameSelector list" where
  "parseNameSelectors lib selectors = map (parse_name_selector lib) selectors"

definition familyNameVariants :: "string \<Rightarrow> string list" where
  "familyNameVariants n =
     (let (base, suf) = (case find_suffix n family_suffixes of Some p \<Rightarrow> p | None \<Rightarrow> (n, '''')) in
      [n, base @ ''_bucket'', base @ ''_sum'', base @ ''_count'']
      @ (if suf \<noteq> ''_bucket'' \<and> base \<noteq> n then [base] else []))"

definition matchesSeriesName :: "'re regexp_lib \<Rightarrow> 're nameSelector \<Rightarrow> string \<Rightarrow> bool" where
  "matchesSeriesName lib ns n =
     (if \<not> ns_parsed ns then False
      else list_ex (\<lambda>v. name_matchers_accept lib (ns_nameMatchers ns) v) (familyNameVariants n))"

definition selectorDemandedNames ::
    "'re regexp_lib \<Rightarrow> string list \<Rightarrow> string key_set \<Rightarrow> string key_set" where
  "selectorDemandedNames lib selectors knownNames =
     (let parsed = parseNameSelectors lib selectors in
      put_all fmempty (map (\<lambda>n. (n, ()))
        (filter (\<lambda>n. list_ex (\<lambda>ns. matchesSeriesName lib ns n) parsed) (sorted_keys knownNames))))"

definition diagnoseDemandSelectors ::
    "'re regexp_lib \<Rightarrow> string list \<Rightarrow> string key_set \<Rightarrow> string list \<times> string list" where
  "diagnoseDemandSelectors lib selectors knownNames =
     (let parsed = parseNameSelectors lib selectors;
          found = (\<lambda>ns. list_ex (matchesSeriesName lib ns) (sorted_keys knownNames))
      in (sort (map ns_raw (filter found parsed)), sort (map ns_raw (filter (\<lambda>ns. \<not> found ns) parsed))))"

section \<open>Suffixes\<close>

lemma HasSuffix_rev: "HasSuffix s p \<longleftrightarrow> prefix (rev p) (rev s)"
  by (simp add: HasSuffix_def suffix_to_prefix)

lemma find_suffix_component:
  assumes "b \<noteq> ''''"
  shows "find_suffix (b @ ''_bucket'') family_suffixes = Some (b, ''_bucket'')"
    and "find_suffix (b @ ''_sum'') family_suffixes = Some (b, ''_sum'')"
    and "find_suffix (b @ ''_count'') family_suffixes = Some (b, ''_count'')"
  using assms by (auto simp: family_suffixes_def HasSuffix_rev TrimSuffix_def suffix_def)

text \<open>A name without a component suffix.\<close>

definition plain_name :: "string \<Rightarrow> bool" where
  "plain_name b \<longleftrightarrow> b \<noteq> '''' \<and> find_suffix b family_suffixes = None"

text \<open>Metrics for which the name-level view covers the whole family.\<close>

definition regular_family :: "('m, 'x) metric \<Rightarrow> string \<Rightarrow> bool" where
  "regular_family m base \<longleftrightarrow>
     base \<noteq> '''' \<and> (case metric_data m of MetricTypeSummary _ \<Rightarrow> plain_name base | _ \<Rightarrow> True)"

lemma expand_one_self [simp]: "d \<noteq> '''' \<Longrightarrow> d \<in> set (expand_one d)"
  by (simp add: expand_one_def split: option.splits prod.splits)

lemma variants_self [simp]: "n \<in> set (familyNameVariants n)"
  by (simp add: familyNameVariants_def case_prod_unfold Let_def)

lemma family_expanded:
  assumes "regular_family m base" "f \<in> set (familyNames m base)"
  shows "set (familyNames m base) \<subseteq> set (expand_one f)"
proof (cases "metric_data m")
  case (MetricTypeHistogram ds)
  then show ?thesis using assms
    by (auto simp: regular_family_def familyNames_def expand_one_def find_suffix_component)
next
  case (MetricTypeSummary ds)
  then show ?thesis using assms
    by (auto simp: regular_family_def familyNames_def expand_one_def plain_name_def find_suffix_component)
qed (use assms in \<open>auto simp: regular_family_def familyNames_def\<close>)

lemma family_variants:
  assumes "regular_family m base" "n \<in> set (familyNames m base)"
  shows "set (familyNames m base) \<subseteq> set (familyNameVariants n)"
proof (cases "metric_data m")
  case (MetricTypeHistogram ds)
  then show ?thesis using assms
    by (auto simp: regular_family_def familyNames_def familyNameVariants_def find_suffix_component)
next
  case (MetricTypeSummary ds)
  then show ?thesis using assms
    by (auto simp: regular_family_def familyNames_def familyNameVariants_def plain_name_def find_suffix_component)
qed (use assms in \<open>auto simp: regular_family_def familyNames_def\<close>)

lemma expandDemandNames_iff:
  "fmlookup (expandDemandNames demands) n \<noteq> None \<longleftrightarrow> (\<exists>d \<in> set demands. n \<in> set (expand_one d))"
  unfolding expandDemandNames_def key_set_lookup by auto

lemma expand_names_iff:
  "n \<in> set (sorted_keys (expandDemandNames demands)) \<longleftrightarrow> (\<exists>d \<in> set demands. n \<in> set (expand_one d))"
  using expandDemandNames_iff [of demands n] by (auto simp: fmlookup_dom_iff)

lemma selectorDemandedNames_iff:
  "fmlookup (selectorDemandedNames lib selectors knownNames) n \<noteq> None \<longleftrightarrow>
   fmlookup knownNames n \<noteq> None \<and> (\<exists>raw \<in> set selectors. matchesSeriesName lib (parse_name_selector lib raw) n)"
  unfolding selectorDemandedNames_def Let_def key_set_lookup
  by (auto simp: parseNameSelectors_def list_ex_iff fmlookup_dom_iff)

lemma matchesSeriesName_iff:
  "matchesSeriesName lib (parse_name_selector lib raw) n \<longleftrightarrow>
   (\<exists>sel. Parse lib raw = Inr sel \<and>
      (\<exists>v \<in> set (familyNameVariants n). \<forall>m \<in> set (Matchers sel). Name m = ''__name__'' \<longrightarrow> MatchValue lib m v))"
  by (auto simp: matchesSeriesName_def parse_name_selector_def list_ex_iff name_matchers_accept_iff
      split: sum.splits)

section \<open>Properties\<close>

text \<open>C36: in name mode, every series name of a metric the demand filter keeps is in the expansion
  of the demand list, so counting known series by the expansion never misses one; the
  exceptions are metrics with an empty name and summaries whose own name ends in a component
  suffix.\<close>

theorem expansion_covers_filter:
  assumes "regular_family m (BaseName namer m)"
    and "isMetricDemanded namer m (put_all fmempty (map (\<lambda>d. (d, ())) demands))"
    and "n \<in> set (familyNames m (BaseName namer m))"
  shows "fmlookup (expandDemandNames demands) n \<noteq> None"
proof -
  obtain f where "f \<in> set (familyNames m (BaseName namer m))" "f \<in> set demands"
    using assms(2) by (auto simp: isMetricDemanded_iff list_ex_iff)
  then show ?thesis using family_expanded [OF assms(1), of f] assms(3)
    unfolding expandDemandNames_iff by blast
qed

text \<open>C37: in selector mode, when the filter keeps a datapoint of a metric, every known series name
  of that metric is counted as demanded, whatever the label matchers say; the same
  exceptions apply.\<close>

theorem selector_names_cover_filter:
  assumes "regular_family m (BaseName namer m)"
    and "series_demanded lib raws (familyNames m (BaseName namer m)) labels"
    and "n \<in> set (familyNames m (BaseName namer m))" and "fmlookup knownNames n \<noteq> None"
  shows "fmlookup (selectorDemandedNames lib raws knownNames) n \<noteq> None"
proof -
  obtain raw sel f where f: "raw \<in> set raws" "Parse lib raw = Inr sel"
    "f \<in> set (familyNames m (BaseName namer m))" "selector_demands lib sel f labels"
    using assms(2) by (auto simp: series_demanded_iff)
  have "f \<in> set (familyNameVariants n)" using family_variants [OF assms(1,3)] f(3) by blast
  moreover have "\<forall>ma \<in> set (Matchers sel). Name ma = ''__name__'' \<longrightarrow> MatchValue lib ma f"
    using f(4) by (auto simp: selector_demands_def list_all_iff)
  ultimately show ?thesis using f(1,2) assms(4)
    unfolding selectorDemandedNames_iff matchesSeriesName_iff by blast
qed

text \<open>A summary whose own name ends in a component suffix.\<close>

definition rpc_summary :: "(attr_list, nat) metric" where
  "rpc_summary = \<lparr>metric_name = ''rpc_count'', metric_unit = '''', metric_data = MetricTypeSummary []\<rparr>"

text \<open>The exceptions are real.  Of a summary named \<open>rpc_count\<close> demanded by its name
  the filter keeps every series, but the series \<open>rpc_count_sum\<close> is not in the expansion;
  and when \<open>rpc_count_sum\<close> is demanded by a selector, the known series
  \<open>rpc_count\<close> of the kept metric is not counted.\<close>

theorem nested_suffix_undercount:
  "isMetricDemanded plain_namer rpc_summary (put_all fmempty [(''rpc_count'', ())])
   \<and> fmlookup (expandDemandNames [''rpc_count'']) ''rpc_count_sum'' = None
   \<and> series_demanded literal_regexp [name_selector latin_tables ''rpc_count_sum'']
       (familyNames rpc_summary (BaseName plain_namer rpc_summary)) fmempty
   \<and> \<not> matchesSeriesName literal_regexp
       (parse_name_selector literal_regexp (name_selector latin_tables ''rpc_count_sum'')) ''rpc_count''
   \<and> familyNames rpc_summary (BaseName plain_namer rpc_summary)
       = [''rpc_count'', ''rpc_count_sum'', ''rpc_count_count'']"
  by code_simp

text \<open>The diagnosis splits the demand into what has a known counterpart and what has none,
  each part sorted and with its multiplicity: non-empty names by their expansion, selectors
  by the names they accept, with unparseable selectors reported as missing.\<close>

theorem diagnosis_partition:
  "sorted (fst (diagnoseDemand demands knownNames)) \<and> sorted (snd (diagnoseDemand demands knownNames))
   \<and> mset (fst (diagnoseDemand demands knownNames)) + mset (snd (diagnoseDemand demands knownNames))
     = mset (filter (\<lambda>d. d \<noteq> '''') demands)
   \<and> set (fst (diagnoseDemand demands knownNames))
     = {d \<in> set demands. \<exists>n \<in> set (expand_one d). fmlookup knownNames n \<noteq> None}
   \<and> mset (fst (diagnoseDemandSelectors lib selectors knownNames))
       + mset (snd (diagnoseDemandSelectors lib selectors knownNames)) = mset selectors
   \<and> set (fst (diagnoseDemandSelectors lib selectors knownNames))
     = {raw \<in> set selectors. \<exists>n. fmlookup knownNames n \<noteq> None
          \<and> matchesSeriesName lib (parse_name_selector lib raw) n}"
proof (intro conjI)
  show "sorted (fst (diagnoseDemand demands knownNames))" "sorted (snd (diagnoseDemand demands knownNames))"
    by (simp_all add: diagnoseDemand_def Let_def)
  show "mset (fst (diagnoseDemand demands knownNames)) + mset (snd (diagnoseDemand demands knownNames))
     = mset (filter (\<lambda>d. d \<noteq> '''') demands)"
    unfolding diagnoseDemand_def Let_def by (induction demands) auto
  show "set (fst (diagnoseDemand demands knownNames))
     = {d \<in> set demands. \<exists>n \<in> set (expand_one d). fmlookup knownNames n \<noteq> None}"
    by (auto simp: diagnoseDemand_def Let_def list_ex_iff expand_names_iff simp del: set_sorted_keys)
      (auto simp: expand_one_def)
  have raw: "ns_raw (parse_name_selector lib raw) = raw" for raw
    by (simp add: parse_name_selector_def split: sum.splits)
  show "mset (fst (diagnoseDemandSelectors lib selectors knownNames))
       + mset (snd (diagnoseDemandSelectors lib selectors knownNames)) = mset selectors"
    by (induction selectors) (auto simp: diagnoseDemandSelectors_def Let_def parseNameSelectors_def raw)
  show "set (fst (diagnoseDemandSelectors lib selectors knownNames))
     = {raw \<in> set selectors. \<exists>n. fmlookup knownNames n \<noteq> None
          \<and> matchesSeriesName lib (parse_name_selector lib raw) n}"
    by (auto simp: diagnoseDemandSelectors_def Let_def parseNameSelectors_def filter_map comp_def raw
        list_ex_iff fmlookup_dom_iff)
qed

section \<open>Witnesses\<close>

definition latency_histogram :: "(attr_list, nat) metric" where
  "latency_histogram = \<lparr>metric_name = ''latency'', metric_unit = '''', metric_data = MetricTypeHistogram []\<rparr>"

lemma latency_regular:
  "regular_family latency_histogram (BaseName plain_namer latency_histogram)"
  "''latency_sum'' \<in> set (familyNames latency_histogram (BaseName plain_namer latency_histogram))"
  by code_simp+

theorem expansion_covers_filter_witness:
  "fmlookup (expandDemandNames [''latency_bucket'']) ''latency_sum'' \<noteq> None"
proof (rule expansion_covers_filter [OF latency_regular(1) _ latency_regular(2)])
  show "isMetricDemanded plain_namer latency_histogram
      (put_all fmempty (map (\<lambda>d. (d, ())) [''latency_bucket'']))"
    by code_simp
qed

theorem selector_names_cover_filter_witness:
  "fmlookup (selectorDemandedNames literal_regexp [name_selector latin_tables ''latency_count'']
     (fmupd ''latency_sum'' () fmempty)) ''latency_sum'' \<noteq> None"
proof (rule selector_names_cover_filter [OF latency_regular(1) _ latency_regular(2)])
  show "series_demanded literal_regexp [name_selector latin_tables ''latency_count'']
     (familyNames latency_histogram (BaseName plain_namer latency_histogram)) fmempty"
    by code_simp
qed simp

end
