(* ===== verification/Agent_Protocol.thy ===== *)
theory Agent_Protocol
  imports Prelude
begin

text \<open>
  The messages of the control stream between the agent and the backend, as generated from the
  protocol (\<open>src/proto/gen/leansignal/agent/v1/agent_control.pb.go\<close>): one record per
  message with its fields, one constructor per alternative of the two \<open>oneof\<close> bodies.
  Bytes and strings are byte strings, \<open>int32\<close> and \<open>uint64\<close> are words.  A message
  whose body is unset or of an unknown kind is \<open>UnknownBody\<close>.
\<close>

datatype QueryTarget = QUERY_TARGET_VM | QUERY_TARGET_LOKI | QUERY_TARGET_TEMPO | QUERY_TARGET_OTHER int

record Label =
  label_Name :: string
  label_Value :: string

record DiscoveredSeries =
  ds_Fingerprint :: string
  ds_MetricName :: string
  ds_Labels :: "Label list"

record ActiveSeries =
  as_Fingerprint :: string
  as_Samples :: "64 word"
  as_LastUpdateMs :: int

record Ping =
  KnownCacheSize :: "32 word"
  DiscoveredCacheSize :: "32 word"
  PendingBackendUpdates :: "32 word"
  DemandCacheSize :: "32 word"
  DemandLastUpdate :: int
  DemandedKnownCacheSize :: "32 word"
  ping_DemandHash :: "64 word"

record CommandResult =
  cr_Success :: bool
  cr_Message :: string

record Ack =
  ack_Success :: bool
  ack_Message :: string

record TraceDemand =
  td_Selector :: string
  td_FilterId :: string

record DemandSet =
  set_Metrics :: "string list"
  set_Hash :: "64 word"
  set_LogSelectors :: "string list"
  set_TraceSelectors :: "string list"
  set_MetricSelectors :: "string list"
  set_TraceDemands :: "TraceDemand list"

record Header =
  header_Name :: string
  header_Values :: "string list"

record QueryRequest =
  qr_Method :: string
  qr_Path :: string
  qr_RawQuery :: string
  qr_Body :: string
  qr_Headers :: "Header list"
  qr_Target :: QueryTarget

record QueryResponse =
  qs_StatusCode :: "32 word"
  qs_Body :: string
  qs_Headers :: "Header list"
  qs_Error :: string

record ConfigFile =
  cf_Path :: string
  cf_Content :: string
  cf_Writable :: bool
  cf_Error :: string

record ConfigSnapshot =
  cs_Files :: "ConfigFile list"
  cs_PrimaryPath :: string
  cs_WriteEnabled :: bool
  cs_Error :: string

record UpdateConfig =
  uc_Config :: string
  uc_Path :: string
  uc_SkipReload :: bool

datatype AgentMessage_Body =
    AgentMessage_Hello string
  | AgentMessage_Ping Ping
  | AgentMessage_IndexCreate "DiscoveredSeries list"
  | AgentMessage_IndexUpdate "ActiveSeries list"
  | AgentMessage_IndexDelete "string list"
  | AgentMessage_CommandResult CommandResult
  | AgentMessage_QueryResponse QueryResponse
  | AgentMessage_ConfigSnapshot ConfigSnapshot

record AgentMessage =
  am_CorrelationId :: "64 word"
  am_Body :: AgentMessage_Body

datatype ServerMessage_Body =
    ServerMessage_Pong
  | ServerMessage_Ack Ack
  | ServerMessage_DemandSet DemandSet
  | ServerMessage_GetStatus
  | ServerMessage_UpdateConfig UpdateConfig
  | ServerMessage_QueryRequest QueryRequest
  | ServerMessage_GetDiagnosis
  | ServerMessage_GetConfig
  | UnknownBody

record ServerMessage =
  sm_CorrelationId :: "64 word"
  sm_Body :: ServerMessage_Body

end
