(* ===== verification/Edge_Controller.thy ===== *)
theory Edge_Controller
  imports Known_Cache Discovered_Cache Demand_Cache Demand_Matcher Agent_Protocol
begin

text \<open>
  The edge controller extension (\<open>src/components/edgecontroller/extension.go\<close>): the three
  caches, the control stream with its correlated requests, and the handling of what the
  backend pushes.

  \<open>stream_up\<close> says whether the stream is set; \<open>outbox\<close> is what was handed to it
  so far; \<open>net\<close> decides whether the stream accepts a message after those already sent.  A
  channel of \<open>sendAndWaitAck\<close> is a number, \<open>chans\<close> its buffered content.  Query and
  config commands run in goroutines of their own: the handler records them in
  \<open>jobs\<close>.  The configuration snapshot a \<open>GetConfig\<close> is answered with is an
  argument (\<open>config_manager.go\<close> produces it).

  The lemmas: what a received batch does to the caches, that a pushed demand set is what the
  filters read next, and that acknowledgements reach exactly the call they answer.
\<close>

section \<open>State\<close>

datatype job = UpdateConfigJob "64 word" UpdateConfig | QueryJob "64 word" QueryRequest

record edgeControllerExtension =
  version :: string
  knownTimeseriesCache :: KnownTimeseriesCache
  discoveredTimeseriesCache :: DiscoveredTimeseriesCache
  demandTimeseriesCache :: DemandTimeseriesCache
  stream_up :: bool
  outbox :: "AgentMessage list"
  corrSeq :: "64 word"
  pending :: "(64 word, nat) fmap"
  chans :: "nat \<Rightarrow> Ack list"
  next_chan :: nat
  jobs :: "job list"

definition newEdgeControllerExtension :: edgeControllerExtension where
  "newEdgeControllerExtension =
     \<lparr>version = ''dev'', knownTimeseriesCache = NewKnownTimeseriesCache,
      discoveredTimeseriesCache = NewDiscoveredTimeseriesCache,
      demandTimeseriesCache = NewDemandTimeseriesCache, stream_up = False, outbox = [],
      corrSeq = 0, pending = fmempty, chans = (\<lambda>_. []), next_chan = 0, jobs = []\<rparr>"

text \<open>\<open>Start\<close> re-initialises the caches before the connection loop runs.\<close>

definition edge_Start :: "edgeControllerExtension \<Rightarrow> edgeControllerExtension" where
  "edge_Start e =
     e\<lparr>knownTimeseriesCache := known_Init (knownTimeseriesCache e),
       discoveredTimeseriesCache := discovered_Init (discoveredTimeseriesCache e),
       demandTimeseriesCache := demand_Init (demandTimeseriesCache e)\<rparr>"

section \<open>Demand\<close>

definition GetDemands :: "edgeControllerExtension \<Rightarrow> string list" where
  "GetDemands e = Timeseries (demand_GetDemands (demandTimeseriesCache e))"

definition GetLogDemands :: "edgeControllerExtension \<Rightarrow> string list" where
  "GetLogDemands e = LogSelectors (demand_GetDemands (demandTimeseriesCache e))"

definition GetTraceDemands :: "edgeControllerExtension \<Rightarrow> string list" where
  "GetTraceDemands e = TraceSelectors (demand_GetDemands (demandTimeseriesCache e))"

definition GetTraceRoutes :: "edgeControllerExtension \<Rightarrow> Route list" where
  "GetTraceRoutes e = TraceRoutes (demand_GetDemands (demandTimeseriesCache e))"

definition GetMetricSelectors :: "edgeControllerExtension \<Rightarrow> string list" where
  "GetMetricSelectors e = MetricSelectors (demand_GetDemands (demandTimeseriesCache e))"

text \<open>The extension as the filters find it.\<close>

definition edge_extension :: "edgeControllerExtension extension" where
  "edge_extension = \<lparr>ext_GetDemands = Some GetDemands, ext_GetMetricSelectors = Some GetMetricSelectors,
     ext_GetLogDemands = Some GetLogDemands, ext_GetTraceDemands = Some GetTraceDemands,
     ext_GetTraceRoutes = Some GetTraceRoutes\<rparr>"

fun trace_routes_loop :: "TraceDemand list \<Rightarrow> Route list" where
  "trace_routes_loop [] = []"
| "trace_routes_loop (d # ds) =
     (if td_Selector d = '''' \<or> td_FilterId d = '''' then trace_routes_loop ds
      else \<lparr>Selector = td_Selector d, FilterID = td_FilterId d\<rparr> # trace_routes_loop ds)"

definition traceRoutesFromProto :: "TraceDemand list \<Rightarrow> Route list" where
  "traceRoutesFromProto ds = (if length ds = 0 then [] else trace_routes_loop ds)"

section \<open>Received batches\<close>

text \<open>The entries of a batch in the order they are visited, each with the reading of the clock.\<close>

fun receive_loop ::
    "(HashKey, TimeseriesEntry) fmap \<Rightarrow> (HashKey \<times> int) list \<Rightarrow> edgeControllerExtension
     \<Rightarrow> edgeControllerExtension option" where
  "receive_loop m [] e = Some e"
| "receive_loop m ((key, now) # ks) e =
     (case fmlookup m key of
        None \<Rightarrow> receive_loop m ks e
      | Some entry \<Rightarrow>
          (let e1 = (if IsTimeseriesKnown (knownTimeseriesCache e) key then e
                     else e\<lparr>discoveredTimeseriesCache :=
                              discovered_Add key entry (discoveredTimeseriesCache e)\<rparr>)
           in case UpdateTimeseries now key entry (knownTimeseriesCache e1) of
                None \<Rightarrow> None
              | Some k \<Rightarrow> receive_loop m ks (e1\<lparr>knownTimeseriesCache := k\<rparr>)))"

definition ReceiveTimeseriesBatch ::
    "(HashKey \<times> int) list \<Rightarrow> TimeseriesBatch \<Rightarrow> edgeControllerExtension \<Rightarrow> edgeControllerExtension option" where
  "ReceiveTimeseriesBatch visit batch e = receive_loop (Data batch) visit e"

section \<open>Sending\<close>

datatype send_error = StreamError

definition sendAgentMessage ::
    "(AgentMessage list \<Rightarrow> AgentMessage \<Rightarrow> bool) \<Rightarrow> AgentMessage \<Rightarrow> edgeControllerExtension
     \<Rightarrow> send_error option \<times> edgeControllerExtension" where
  "sendAgentMessage net msg e =
     (if \<not> stream_up e then (None, e)
      else if net (outbox e) msg then (None, e\<lparr>outbox := outbox e @ [msg]\<rparr>)
      else (Some StreamError, e))"

definition replyCommand ::
    "(AgentMessage list \<Rightarrow> AgentMessage \<Rightarrow> bool) \<Rightarrow> 64 word \<Rightarrow> bool \<Rightarrow> string \<Rightarrow> edgeControllerExtension
     \<Rightarrow> edgeControllerExtension" where
  "replyCommand net correlationID success message e =
     (if correlationID = 0 then e
      else snd (sendAgentMessage net
        \<lparr>am_CorrelationId = correlationID,
         am_Body = AgentMessage_CommandResult \<lparr>cr_Success = success, cr_Message = message\<rparr>\<rparr> e))"

definition sendConfigSnapshot ::
    "(AgentMessage list \<Rightarrow> AgentMessage \<Rightarrow> bool) \<Rightarrow> ConfigSnapshot \<Rightarrow> 64 word \<Rightarrow> edgeControllerExtension
     \<Rightarrow> edgeControllerExtension" where
  "sendConfigSnapshot net snap correlationID e =
     (if correlationID = 0 then e
      else snd (sendAgentMessage net
        \<lparr>am_CorrelationId = correlationID, am_Body = AgentMessage_ConfigSnapshot snap\<rparr> e))"

section \<open>Correlated requests\<close>

definition nextCorrID :: "edgeControllerExtension \<Rightarrow> 64 word \<times> edgeControllerExtension" where
  "nextCorrID e = (corrSeq e + 1, e\<lparr>corrSeq := corrSeq e + 1\<rparr>)"

definition resolvePending :: "64 word \<Rightarrow> Ack \<Rightarrow> edgeControllerExtension \<Rightarrow> edgeControllerExtension" where
  "resolvePending correlationID ack e =
     (if correlationID = 0 then e
      else case fmlookup (pending e) correlationID of
        None \<Rightarrow> e
      | Some ch \<Rightarrow>
          e\<lparr>pending := fmdrop correlationID (pending e), chans := (chans e)(ch := chans e ch @ [ack])\<rparr>)"

text \<open>\<open>sendAndWaitAck\<close> up to the point where it waits, by its critical sections: the
  identifier is drawn (\<open>nextCorrID\<close>), the channel is entered in the table, the message is sent;
  when the send fails the deferred clean-up removes the entry.\<close>

definition ack_register :: "64 word \<Rightarrow> edgeControllerExtension \<Rightarrow> nat \<times> edgeControllerExtension" where
  "ack_register i e =
     (let ch = next_chan e in (ch, e\<lparr>next_chan := ch + 1, pending := fmupd i ch (pending e)\<rparr>))"

definition ack_send ::
    "(AgentMessage list \<Rightarrow> AgentMessage \<Rightarrow> bool) \<Rightarrow> 64 word \<Rightarrow> AgentMessage_Body \<Rightarrow> edgeControllerExtension
     \<Rightarrow> send_error option \<times> edgeControllerExtension" where
  "ack_send net i body e =
     (case sendAgentMessage net \<lparr>am_CorrelationId = i, am_Body = body\<rparr> e of
        (Some err, e') \<Rightarrow> (Some err, e'\<lparr>pending := fmdrop i (pending e')\<rparr>)
      | (None, e') \<Rightarrow> (None, e'))"

definition ack_begin ::
    "(AgentMessage list \<Rightarrow> AgentMessage \<Rightarrow> bool) \<Rightarrow> AgentMessage_Body \<Rightarrow> edgeControllerExtension
     \<Rightarrow> (send_error + 64 word \<times> nat) \<times> edgeControllerExtension" where
  "ack_begin net body e =
     (let (i, e1) = nextCorrID e;
          (ch, e2) = ack_register i e1
      in case ack_send net i body e2 of
           (Some err, e3) \<Rightarrow> (Inl err, e3)
         | (None, e3) \<Rightarrow> (Inr (i, ch), e3))"

lemmas ack_begin_defs = ack_begin_def nextCorrID_def ack_register_def ack_send_def sendAgentMessage_def

text \<open>The two ways the wait ends: an acknowledgement is in the channel, or the timeout fires.
  Both remove the entry.\<close>

definition ack_receive :: "64 word \<Rightarrow> nat \<Rightarrow> edgeControllerExtension \<Rightarrow> (Ack \<times> edgeControllerExtension) option" where
  "ack_receive i ch e =
     (case chans e ch of
        [] \<Rightarrow> None
      | a # as \<Rightarrow> Some (a, e\<lparr>chans := (chans e)(ch := as), pending := fmdrop i (pending e)\<rparr>))"

definition ack_timeout :: "64 word \<Rightarrow> edgeControllerExtension \<Rightarrow> edgeControllerExtension" where
  "ack_timeout i e = e\<lparr>pending := fmdrop i (pending e)\<rparr>"

text \<open>The whole call.  \<open>others\<close> is what the rest of the agent does between the send and the
  end of the wait; \<open>timer\<close> says that the timeout is taken although an acknowledgement is
  there (a \<open>select\<close> with both ready may take either).\<close>

datatype ack_error = SendError send_error | DeadlineExceeded

definition sendAndWaitAck ::
    "(AgentMessage list \<Rightarrow> AgentMessage \<Rightarrow> bool) \<Rightarrow> (64 word \<Rightarrow> edgeControllerExtension \<Rightarrow> edgeControllerExtension)
     \<Rightarrow> bool \<Rightarrow> AgentMessage_Body \<Rightarrow> edgeControllerExtension
     \<Rightarrow> (ack_error + Ack) \<times> edgeControllerExtension" where
  "sendAndWaitAck net others timer body e =
     (case ack_begin net body e of
        (Inl err, e1) \<Rightarrow> (Inl (SendError err), e1)
      | (Inr (i, ch), e1) \<Rightarrow>
          (let e2 = others i e1 in
           case (if timer then None else ack_receive i ch e2) of
             Some (a, e3) \<Rightarrow> (Inr a, e3)
           | None \<Rightarrow> (Inl DeadlineExceeded, ack_timeout i e2)))"

section \<open>Heartbeat and diagnosis\<close>

definition demandedNameSet ::
    "'re regexp_lib \<Rightarrow> HashKey list \<Rightarrow> edgeControllerExtension \<Rightarrow> DemandTimeseriesSnapshot \<Rightarrow> string key_set" where
  "demandedNameSet lib visit e demand =
     (if 0 < length (MetricSelectors demand)
      then selectorDemandedNames lib (MetricSelectors demand) (MetricNameSet visit (knownTimeseriesCache e))
      else expandDemandNames (Timeseries demand))"

definition buildPing :: "'re regexp_lib \<Rightarrow> HashKey list \<Rightarrow> int \<Rightarrow> edgeControllerExtension \<Rightarrow> Ping" where
  "buildPing lib visit now e =
     (let demand = demand_GetDemands (demandTimeseriesCache e) in
      \<lparr>KnownCacheSize = of_nat (known_GetSize (knownTimeseriesCache e)),
       DiscoveredCacheSize = of_nat (discovered_GetSize (discoveredTimeseriesCache e)),
       PendingBackendUpdates = of_nat (GetPendingBackendUpdates now visit (knownTimeseriesCache e)),
       DemandCacheSize = of_nat (length (Timeseries demand)),
       DemandLastUpdate = snap_LastUpdate demand,
       DemandedKnownCacheSize =
         of_nat (CountDemanded (demandedNameSet lib visit e demand) visit (knownTimeseriesCache e)),
       ping_DemandHash = DemandHash demand\<rparr>)"

record diagnosis =
  diag_demand :: "string list"
  diag_matched :: "string list"
  diag_missing :: "string list"
  diag_knownSeries :: nat
  diag_demandedSeries :: nat
  diag_demandHash :: "64 word"

definition buildDiagnosis :: "'re regexp_lib \<Rightarrow> HashKey list \<Rightarrow> edgeControllerExtension \<Rightarrow> diagnosis" where
  "buildDiagnosis lib visit e =
     (let demand = demand_GetDemands (demandTimeseriesCache e);
          knownNames = MetricNameSet visit (knownTimeseriesCache e);
          (demandList, matched, missing) =
            (if 0 < length (MetricSelectors demand)
             then (MetricSelectors demand, diagnoseDemandSelectors lib (MetricSelectors demand) knownNames)
             else (Timeseries demand, diagnoseDemand (Timeseries demand) knownNames))
      in \<lparr>diag_demand = demandList, diag_matched = matched, diag_missing = missing,
          diag_knownSeries = known_GetSize (knownTimeseriesCache e),
          diag_demandedSeries =
            CountDemanded (demandedNameSet lib visit e demand) visit (knownTimeseriesCache e),
          diag_demandHash = DemandHash demand\<rparr>)"

section \<open>Server messages\<close>

text \<open>A demand set is applied in two critical sections of the demand cache.\<close>

definition apply_demands :: "int \<Rightarrow> DemandSet \<Rightarrow> edgeControllerExtension \<Rightarrow> edgeControllerExtension" where
  "apply_demands now ds e =
     e\<lparr>demandTimeseriesCache := UpdateDemands now (set_Metrics ds) (set_LogSelectors ds) (set_TraceSelectors ds)
         (set_MetricSelectors ds) (set_Hash ds) (demandTimeseriesCache e)\<rparr>"

definition apply_routes :: "DemandSet \<Rightarrow> edgeControllerExtension \<Rightarrow> edgeControllerExtension" where
  "apply_routes ds e =
     e\<lparr>demandTimeseriesCache :=
         UpdateTraceRoutes (traceRoutesFromProto (set_TraceDemands ds)) (demandTimeseriesCache e)\<rparr>"

text \<open>A diagnosis request logs \<open>buildDiagnosis\<close> and dumps the caches into files
  (\<open>diagnostics.go\<close>); it changes nothing of the extension and sends no reply.\<close>

definition handleServerMessage ::
    "(AgentMessage list \<Rightarrow> AgentMessage \<Rightarrow> bool) \<Rightarrow> int \<Rightarrow> ConfigSnapshot \<Rightarrow> ServerMessage
     \<Rightarrow> edgeControllerExtension \<Rightarrow> edgeControllerExtension" where
  "handleServerMessage net now snap msg e =
     (case sm_Body msg of
        ServerMessage_Pong \<Rightarrow> e
      | ServerMessage_Ack ack \<Rightarrow> resolvePending (sm_CorrelationId msg) ack e
      | ServerMessage_DemandSet ds \<Rightarrow>
          replyCommand net (sm_CorrelationId msg) True ''demand_set applied'' (apply_routes ds (apply_demands now ds e))
      | ServerMessage_GetStatus \<Rightarrow> replyCommand net (sm_CorrelationId msg) True ''running'' e
      | ServerMessage_GetDiagnosis \<Rightarrow> e
      | ServerMessage_GetConfig \<Rightarrow> sendConfigSnapshot net snap (sm_CorrelationId msg) e
      | ServerMessage_UpdateConfig req \<Rightarrow> e\<lparr>jobs := jobs e @ [UpdateConfigJob (sm_CorrelationId msg) req]\<rparr>
      | ServerMessage_QueryRequest req \<Rightarrow> e\<lparr>jobs := jobs e @ [QueryJob (sm_CorrelationId msg) req]\<rparr>
      | UnknownBody \<Rightarrow> e)"

section \<open>Received batches: lemmas\<close>

lemma apply_fields [simp]:
  "knownTimeseriesCache (apply_demands now ds e) = knownTimeseriesCache e" "knownTimeseriesCache (apply_routes ds e) = knownTimeseriesCache e"
  "discoveredTimeseriesCache (apply_demands now ds e) = discoveredTimeseriesCache e"
  "discoveredTimeseriesCache (apply_routes ds e) = discoveredTimeseriesCache e"
  "pending (apply_demands now ds e) = pending e" "pending (apply_routes ds e) = pending e"
  "chans (apply_demands now ds e) = chans e" "chans (apply_routes ds e) = chans e"
  "corrSeq (apply_demands now ds e) = corrSeq e" "corrSeq (apply_routes ds e) = corrSeq e"
  "next_chan (apply_demands now ds e) = next_chan e" "next_chan (apply_routes ds e) = next_chan e"
  "stream_up (apply_demands now ds e) = stream_up e" "stream_up (apply_routes ds e) = stream_up e"
  "outbox (apply_demands now ds e) = outbox e" "outbox (apply_routes ds e) = outbox e"
  "version (apply_demands now ds e) = version e" "version (apply_routes ds e) = version e"
  by (simp_all add: apply_demands_def apply_routes_def)

lemma receive_loop_effect:
  assumes "known_wf (knownTimeseriesCache e)" "distinct (map fst ks)" "list_all (\<lambda>(k, t). 0 \<le> t) ks"
  shows "\<exists>e'. receive_loop m ks e = Some e' \<and> known_wf (knownTimeseriesCache e')
    \<and> (\<forall>k. IsTimeseriesKnown (knownTimeseriesCache e') k \<longleftrightarrow>
          IsTimeseriesKnown (knownTimeseriesCache e) k \<or> k \<in> fst ` set ks \<and> fmlookup m k \<noteq> None)
    \<and> (\<forall>k. fmlookup (discovered (discoveredTimeseriesCache e')) k =
          (if (k \<in> fst ` set ks \<and> fmlookup m k \<noteq> None) \<and> \<not> IsTimeseriesKnown (knownTimeseriesCache e) k
           then fmlookup m k else fmlookup (discovered (discoveredTimeseriesCache e)) k))
    \<and> demandTimeseriesCache e' = demandTimeseriesCache e \<and> pending e' = pending e \<and> outbox e' = outbox e"
  using assms
proof (induction ks arbitrary: e)
  case (Cons kt ks)
  obtain key now where kt: "kt = (key, now)" by fastforce
  show ?case
  proof (cases "fmlookup m key")
    case None
    have eq: "(k \<in> fst ` set (kt # ks) \<and> fmlookup m k \<noteq> None) \<longleftrightarrow> (k \<in> fst ` set ks \<and> fmlookup m k \<noteq> None)"
      for k using None by (auto simp: kt)
    have loop: "receive_loop m (kt # ks) e = receive_loop m ks e" using None by (simp add: kt)
    show ?thesis unfolding loop eq using Cons.prems by (intro Cons.IH) auto
  next
    case (Some entry)
    let ?k = "knownTimeseriesCache e"
    let ?e1 = "if IsTimeseriesKnown ?k key then e
      else e\<lparr>discoveredTimeseriesCache := discovered_Add key entry (discoveredTimeseriesCache e)\<rparr>"
    have k1: "knownTimeseriesCache ?e1 = ?k" by simp
    have "0 \<le> now" using Cons.prems by (simp add: kt)
    from UpdateTimeseries_window [OF Cons.prems(1) this, of key entry] obtain k' where k':
      "UpdateTimeseries now key entry ?k = Some k'" "known_wf k'"
      "\<And>k. IsTimeseriesKnown k' k \<longleftrightarrow> k = key \<or> IsTimeseriesKnown ?k k"
      unfolding IsTimeseriesKnown_def by (metis option.distinct(1))
    let ?e2 = "?e1\<lparr>knownTimeseriesCache := k'\<rparr>"
    have d: "fmlookup (discovered (discoveredTimeseriesCache ?e2)) k =
        (if k = key \<and> \<not> IsTimeseriesKnown ?k key then Some entry
         else fmlookup (discovered (discoveredTimeseriesCache e)) k)" for k
      by (simp add: discovered_Add_def)
    have p: "known_wf (knownTimeseriesCache ?e2)" "distinct (map fst ks)" "list_all (\<lambda>(k, t). 0 \<le> t) ks"
      using k'(2) Cons.prems by (auto simp: kt)
    have new: "key \<notin> fst ` set ks" using Cons.prems by (simp add: kt)
    have loop: "receive_loop m (kt # ks) e = receive_loop m ks ?e2"
      using Some k'(1) k1 by (simp add: kt)
    have kn: "IsTimeseriesKnown (knownTimeseriesCache ?e2) k \<longleftrightarrow> k = key \<or> IsTimeseriesKnown ?k k" for k
      using k'(3) by simp
    have mem: "(k \<in> fst ` set (kt # ks) \<and> fmlookup m k \<noteq> None) \<longleftrightarrow>
        k = key \<or> (k \<in> fst ` set ks \<and> fmlookup m k \<noteq> None)" for k
      using Some by (auto simp: kt)
    have rest_fields: "demandTimeseriesCache ?e2 = demandTimeseriesCache e" "pending ?e2 = pending e"
      "outbox ?e2 = outbox e" by simp_all
    from Cons.IH [OF p] obtain e' where e': "receive_loop m ks ?e2 = Some e'"
      "known_wf (knownTimeseriesCache e')"
      "\<And>k. IsTimeseriesKnown (knownTimeseriesCache e') k \<longleftrightarrow>
          IsTimeseriesKnown (knownTimeseriesCache ?e2) k \<or> (k \<in> fst ` set ks \<and> fmlookup m k \<noteq> None)"
      "\<And>k. fmlookup (discovered (discoveredTimeseriesCache e')) k =
          (if (k \<in> fst ` set ks \<and> fmlookup m k \<noteq> None) \<and> \<not> IsTimeseriesKnown (knownTimeseriesCache ?e2) k
           then fmlookup m k else fmlookup (discovered (discoveredTimeseriesCache ?e2)) k)"
      "demandTimeseriesCache e' = demandTimeseriesCache ?e2" "pending e' = pending ?e2" "outbox e' = outbox ?e2"
      by blast
    have disc: "fmlookup (discovered (discoveredTimeseriesCache e')) k =
          (if (k = key \<or> (k \<in> fst ` set ks \<and> fmlookup m k \<noteq> None)) \<and> \<not> IsTimeseriesKnown ?k k
           then fmlookup m k else fmlookup (discovered (discoveredTimeseriesCache e)) k)" for k
      unfolding e'(4) kn d using new Some by (cases "k = key"; cases "fmlookup m k") simp_all
    show ?thesis unfolding loop mem using e'(1,2,5,6,7) e'(3) kn disc rest_fields
      by (intro exI [of _ e'] conjI allI) (simp_all only:, blast?)
  qed
qed simp

lemma traceRoutesFromProto_eq:
  "traceRoutesFromProto ds =
     map (\<lambda>d. \<lparr>Selector = td_Selector d, FilterID = td_FilterId d\<rparr>)
       (filter (\<lambda>d. td_Selector d \<noteq> '''' \<and> td_FilterId d \<noteq> '''') ds)"
proof -
  have "trace_routes_loop ds = map (\<lambda>d. \<lparr>Selector = td_Selector d, FilterID = td_FilterId d\<rparr>)
       (filter (\<lambda>d. td_Selector d \<noteq> '''' \<and> td_FilterId d \<noteq> '''') ds)"
    by (induction ds) auto
  then show ?thesis by (simp add: traceRoutesFromProto_def)
qed

section \<open>Replies: lemmas\<close>

lemma sendAgentMessage_fields [simp]:
  "pending (snd (sendAgentMessage net msg e)) = pending e"
  "chans (snd (sendAgentMessage net msg e)) = chans e"
  "corrSeq (snd (sendAgentMessage net msg e)) = corrSeq e"
  "next_chan (snd (sendAgentMessage net msg e)) = next_chan e"
  "demandTimeseriesCache (snd (sendAgentMessage net msg e)) = demandTimeseriesCache e"
  "jobs (snd (sendAgentMessage net msg e)) = jobs e"
  by (simp_all add: sendAgentMessage_def)

lemma replyCommand_fields [simp]:
  "pending (replyCommand net i b s e) = pending e" "chans (replyCommand net i b s e) = chans e"
  "corrSeq (replyCommand net i b s e) = corrSeq e" "next_chan (replyCommand net i b s e) = next_chan e"
  "demandTimeseriesCache (replyCommand net i b s e) = demandTimeseriesCache e"
  "jobs (replyCommand net i b s e) = jobs e"
  by (simp_all add: replyCommand_def)

lemma sendConfigSnapshot_fields [simp]:
  "pending (sendConfigSnapshot net snap i e) = pending e" "chans (sendConfigSnapshot net snap i e) = chans e"
  "corrSeq (sendConfigSnapshot net snap i e) = corrSeq e"
  "next_chan (sendConfigSnapshot net snap i e) = next_chan e"
  by (simp_all add: sendConfigSnapshot_def)

section \<open>Correlated requests as a step relation\<close>

text \<open>Any number of calls at once, each a sequence of the critical sections above.
  \<open>drawn\<close> are the identifiers of the calls that have no entry yet, \<open>sending\<close> the calls with an
  entry whose message is not sent yet, \<open>calls\<close> the waiting ones.\<close>

datatype ctl_event =
    Drawn "64 word"
  | Begun "64 word"
  | Sent "64 word" AgentMessage_Body
  | SendFailed "64 word"
  | ServerIn ServerMessage
  | Returned "64 word" Ack
  | TimedOut "64 word"
  | Elsewhere

record ctl =
  edge :: edgeControllerExtension
  drawn :: "64 word set"
  sending :: "(64 word \<times> nat) set"
  calls :: "(64 word \<times> nat) set"

definition ctl_init :: "edgeControllerExtension \<Rightarrow> ctl" where
  "ctl_init e = \<lparr>edge = e, drawn = {}, sending = {}, calls = {}\<rparr>"

lemma ctl_init_simps [simp]:
  "edge (ctl_init e) = e" "drawn (ctl_init e) = {}" "sending (ctl_init e) = {}" "calls (ctl_init e) = {}"
  by (simp_all add: ctl_init_def)

text \<open>The calls that have been entered in the table and have not ended.\<close>

definition live :: "ctl \<Rightarrow> (64 word \<times> nat) set" where
  "live s = sending s \<union> calls s"

text \<open>What the rest of the agent does does not touch the correlation state.\<close>

definition corr_same :: "edgeControllerExtension \<Rightarrow> edgeControllerExtension \<Rightarrow> bool" where
  "corr_same e e' \<longleftrightarrow> pending e' = pending e \<and> chans e' = chans e \<and> corrSeq e' = corrSeq e \<and> next_chan e' = next_chan e"

text \<open>\<open>sendAgentMessage\<close> reads the stream and sends on it in two critical sections.  When the
  session ended in between, the message goes to a stream that is no longer the agent's: it is
  swallowed or refused there, and nothing reaches the present stream (the \<open>stale\<close> rules).\<close>

inductive ctl_step :: "ctl \<Rightarrow> ctl_event \<Rightarrow> ctl \<Rightarrow> bool" where
  call_drawn: "nextCorrID (edge s) = (i, e') \<Longrightarrow>
    ctl_step s (Drawn i) (s\<lparr>edge := e', drawn := insert i (drawn s)\<rparr>)"
| call_begun: "i \<in> drawn s \<Longrightarrow> ack_register i (edge s) = (ch, e') \<Longrightarrow>
    ctl_step s (Begun i) (s\<lparr>edge := e', drawn := drawn s - {i}, sending := insert (i, ch) (sending s)\<rparr>)"
| call_sent: "(i, ch) \<in> sending s \<Longrightarrow> ack_send net i body (edge s) = (None, e') \<Longrightarrow>
    ctl_step s (Sent i body) (s\<lparr>edge := e', sending := sending s - {(i, ch)}, calls := insert (i, ch) (calls s)\<rparr>)"
| call_failed: "(i, ch) \<in> sending s \<Longrightarrow> ack_send net i body (edge s) = (Some err, e') \<Longrightarrow>
    ctl_step s (SendFailed i) (s\<lparr>edge := e', sending := sending s - {(i, ch)}\<rparr>)"
| call_sent_stale: "(i, ch) \<in> sending s \<Longrightarrow>
    ctl_step s (Sent i body) (s\<lparr>sending := sending s - {(i, ch)}, calls := insert (i, ch) (calls s)\<rparr>)"
| call_failed_stale: "(i, ch) \<in> sending s \<Longrightarrow>
    ctl_step s (SendFailed i) (s\<lparr>edge := ack_timeout i (edge s), sending := sending s - {(i, ch)}\<rparr>)"
| server_in: "ctl_step s (ServerIn msg) (s\<lparr>edge := handleServerMessage net now snap msg (edge s)\<rparr>)"
| call_returned: "(i, ch) \<in> calls s \<Longrightarrow> ack_receive i ch (edge s) = Some (a, e') \<Longrightarrow>
    ctl_step s (Returned i a) (s\<lparr>edge := e', calls := calls s - {(i, ch)}\<rparr>)"
| call_timed_out: "(i, ch) \<in> calls s \<Longrightarrow>
    ctl_step s (TimedOut i) (s\<lparr>edge := ack_timeout i (edge s), calls := calls s - {(i, ch)}\<rparr>)"
| elsewhere: "corr_same (edge s) e' \<Longrightarrow> ctl_step s Elsewhere (s\<lparr>edge := e'\<rparr>)"

inductive ctl_run :: "ctl_event list \<Rightarrow> ctl \<Rightarrow> bool" where
  ctl_start: "ctl_run [] (ctl_init newEdgeControllerExtension)"
| ctl_more: "ctl_run es s \<Longrightarrow> ctl_step s ev s' \<Longrightarrow> ctl_run (es @ [ev]) s'"

inductive_cases ctl_stepE: "ctl_step s ev s'"
inductive_cases ctl_returnedE: "ctl_step s (Returned i a) s'"

fun begins :: "ctl_event list \<Rightarrow> nat" where
  "begins [] = 0"
| "begins (Drawn i # es) = Suc (begins es)"
| "begins (ev # es) = begins es"

fun ended :: "ctl_event list \<Rightarrow> 64 word list" where
  "ended [] = []"
| "ended (Returned i a # es) = i # ended es"
| "ended (TimedOut i # es) = i # ended es"
| "ended (SendFailed i # es) = i # ended es"
| "ended (ev # es) = ended es"

lemma begins_append [simp]: "begins (es @ fs) = begins es + begins fs"
  by (induction es rule: begins.induct) simp_all

lemma ended_append [simp]: "ended (es @ fs) = ended es @ ended fs"
  by (induction es rule: ended.induct) simp_all

text \<open>The acknowledgement with this identifier arrived after the call was entered in the table.\<close>

definition answered :: "ctl_event list \<Rightarrow> 64 word \<Rightarrow> Ack \<Rightarrow> bool" where
  "answered es i a \<longleftrightarrow>
     (\<exists>es1 es2. es = es1 @ Begun i # es2
        \<and> ServerIn \<lparr>sm_CorrelationId = i, sm_Body = ServerMessage_Ack a\<rparr> \<in> set es2)"

lemma answered_append: "answered es i a \<Longrightarrow> answered (es @ fs) i a"
  unfolding answered_def by (metis Un_iff append.assoc append_Cons set_append)

lemma answered_now:
  assumes "Begun i \<in> set es"
  shows "answered (es @ [ServerIn \<lparr>sm_CorrelationId = i, sm_Body = ServerMessage_Ack a\<rparr>]) i a"
proof -
  obtain es1 es2 where "es = es1 @ Begun i # es2" using assms by (meson split_list)
  then show ?thesis unfolding answered_def by fastforce
qed

text \<open>A live call either still has its entry and an empty channel, or was answered.\<close>

definition call_ok :: "ctl_event list \<Rightarrow> edgeControllerExtension \<Rightarrow> 64 word \<Rightarrow> nat \<Rightarrow> bool" where
  "call_ok es e i ch \<longleftrightarrow>
     i \<noteq> 0 \<and> unat i \<le> begins es \<and> ch < next_chan e \<and> Begun i \<in> set es
     \<and> (fmlookup (pending e) i = Some ch \<and> chans e ch = []
        \<or> fmlookup (pending e) i = None \<and> (\<exists>a. chans e ch = [a] \<and> answered es i a))"

text \<open>An identifier is used by one call, and a call is in one place.\<close>

definition ids_ok :: "ctl_event list \<Rightarrow> ctl \<Rightarrow> bool" where
  "ids_ok es s \<longleftrightarrow>
     unat (corrSeq (edge s)) = begins es
     \<and> inj_on fst (live s) \<and> inj_on snd (live s) \<and> sending s \<inter> calls s = {}
     \<and> (\<forall>i \<in> drawn s. i \<noteq> 0 \<and> unat i \<le> begins es \<and> i \<notin> fst ` live s)
     \<and> distinct (ended es) \<and> (\<forall>i \<in> set (ended es). unat i \<le> begins es \<and> i \<notin> fst ` live s \<and> i \<notin> drawn s)"

definition ctl_inv :: "ctl_event list \<Rightarrow> ctl \<Rightarrow> bool" where
  "ctl_inv es s \<longleftrightarrow> ids_ok es s
     \<and> (\<forall>i ch. (i, ch) \<in> live s \<longrightarrow> call_ok es (edge s) i ch)
     \<and> (\<forall>i ch. fmlookup (pending (edge s)) i = Some ch \<longrightarrow> (i, ch) \<in> live s)
     \<and> (\<forall>ch \<ge> next_chan (edge s). chans (edge s) ch = [])"

lemma ctl_inv_call: "ctl_inv es s \<Longrightarrow> (i, ch) \<in> live s \<Longrightarrow> call_ok es (edge s) i ch"
  by (simp add: ctl_inv_def)

lemma ctl_inv_unique:
  assumes "ctl_inv es s" "(i, ch) \<in> live s" "(j, c) \<in> live s"
  shows "i = j \<longleftrightarrow> ch = c"
proof -
  have "inj_on fst (live s)" "inj_on snd (live s)" using assms(1) by (simp_all add: ctl_inv_def ids_ok_def)
  from this [THEN inj_on_eq_iff, OF assms(2,3)] show ?thesis by simp
qed

lemma handleServerMessage_other:
  assumes "\<And>a. sm_Body msg \<noteq> ServerMessage_Ack a"
  shows "pending (handleServerMessage net now snap msg e) = pending e"
    "chans (handleServerMessage net now snap msg e) = chans e"
    "corrSeq (handleServerMessage net now snap msg e) = corrSeq e"
    "next_chan (handleServerMessage net now snap msg e) = next_chan e"
  using assms by (auto simp: handleServerMessage_def Let_def split: ServerMessage_Body.splits)

lemma corr_next:
  assumes "unat (c :: 64 word) = n" "Suc n < 2 ^ 64"
  shows "unat (c + 1) = Suc n"
  using assms by (simp add: unat_word_ariths)

text \<open>An event that leaves the call's entry and its channel alone.\<close>

lemma call_ok_same:
  assumes "call_ok es e i ch" "fmlookup (pending e') i = fmlookup (pending e) i" "chans e' ch = chans e ch"
    "next_chan e \<le> next_chan e'"
  shows "call_ok (es @ fs) e' i ch"
  using assms answered_append unfolding call_ok_def by (fastforce simp: trans_le_add1)

text \<open>A step that changes nothing the invariant reads but the place of a live call.\<close>

lemma inv_same:
  assumes inv: "ctl_inv es s" and e: "corr_same (edge s) (edge s')"
    and l: "live s' = live s" "drawn s' = drawn s" "sending s' \<inter> calls s' = {}" and ev: "begins [ev] = 0" "ended [ev] = []"
  shows "ctl_inv (es @ [ev]) s'"
proof -
  have "ids_ok (es @ [ev]) s'" using inv e l ev by (simp add: ctl_inv_def ids_ok_def corr_same_def)
  moreover have "call_ok (es @ [ev]) (edge s') i ch" if "(i, ch) \<in> live s" for i ch
    using ctl_inv_call [OF inv that] e by (intro call_ok_same) (auto simp: corr_same_def)
  ultimately show ?thesis using inv e l by (simp add: ctl_inv_def corr_same_def)
qed

lemma inv_drawn:
  assumes inv: "ctl_inv es s" and n: "nextCorrID (edge s) = (i, e')" and few: "Suc (begins es) < 2 ^ 64"
  shows "ctl_inv (es @ [Drawn i]) (s\<lparr>edge := e', drawn := insert i (drawn s)\<rparr>)"
proof -
  let ?s = "s\<lparr>edge := e', drawn := insert i (drawn s)\<rparr>"
  have seq: "unat (corrSeq (edge s)) = begins es" using inv by (simp add: ctl_inv_def ids_ok_def)
  have i: "i = corrSeq (edge s) + 1" "e' = (edge s)\<lparr>corrSeq := i\<rparr>" using n by (auto simp: nextCorrID_def)
  have u: "unat i = Suc (begins es)" using corr_next [OF seq few] i by simp
  then have "i \<noteq> 0" by (metis nat.distinct(1) unat_0)
  moreover have "i \<notin> fst ` live s" using ctl_inv_call [OF inv] u by (fastforce simp: call_ok_def)
  moreover have "i \<notin> set (ended es)" using inv u by (auto simp: ctl_inv_def ids_ok_def)
  ultimately have "ids_ok (es @ [Drawn i]) ?s" using inv u i
    by (auto simp: ctl_inv_def ids_ok_def live_def)
  moreover have "call_ok (es @ [Drawn i]) e' j ch" if "(j, ch) \<in> live s" for j ch
    using ctl_inv_call [OF inv that] by (intro call_ok_same) (auto simp: i)
  ultimately show ?thesis using inv by (simp add: ctl_inv_def live_def i)
qed

lemma inv_begun:
  assumes inv: "ctl_inv es s" and d: "i \<in> drawn s" and r: "ack_register i (edge s) = (ch, e')"
  shows "ctl_inv (es @ [Begun i]) (s\<lparr>edge := e', drawn := drawn s - {i}, sending := insert (i, ch) (sending s)\<rparr>)"
proof -
  let ?s = "s\<lparr>edge := e', drawn := drawn s - {i}, sending := insert (i, ch) (sending s)\<rparr>"
  have e: "ch = next_chan (edge s)" "e' = (edge s)\<lparr>next_chan := ch + 1, pending := fmupd i ch (pending (edge s))\<rparr>"
    using r by (auto simp: ack_register_def Let_def)
  have lv: "live ?s = insert (i, ch) (live s)" by (auto simp: live_def)
  have i: "i \<noteq> 0" "unat i \<le> begins es" "i \<notin> fst ` live s" using inv d by (auto simp: ctl_inv_def ids_ok_def)
  have ch: "ch \<notin> snd ` live s" using ctl_inv_call [OF inv] e(1) by (fastforce simp: call_ok_def)
  have "(i, ch) \<notin> sending s \<union> calls s" using i(3) by (force simp: live_def)
  then have ids: "ids_ok (es @ [Begun i]) ?s" using inv i ch d
    unfolding ids_ok_def lv ctl_inv_def by (auto simp: e(2) live_def)
  have new: "call_ok (es @ [Begun i]) e' i ch" using i inv by (simp add: call_ok_def e ctl_inv_def)
  have "call_ok (es @ [Begun i]) e' j c" if "(j, c) \<in> live s" for j c
  proof -
    have "j \<noteq> i" using that i(3) by force
    then show ?thesis using ctl_inv_call [OF inv that] by (intro call_ok_same) (auto simp: e)
  qed
  then show ?thesis using ids new inv unfolding ctl_inv_def lv by (auto simp: e split: if_splits)
qed

lemma resolvePending_unknown:
  assumes "i = 0 \<or> fmlookup (pending e) i = None"
  shows "resolvePending i a e = e"
  using assms by (auto simp: resolvePending_def)

lemma inv_ack_known:
  assumes inv: "ctl_inv es s" and body: "msg = \<lparr>sm_CorrelationId = i, sm_Body = ServerMessage_Ack a\<rparr>"
    and i: "i \<noteq> 0" and p: "fmlookup (pending (edge s)) i = Some ch"
  shows "ctl_inv (es @ [ServerIn msg]) (s\<lparr>edge := resolvePending i a (edge s)\<rparr>)"
proof -
  let ?e = "resolvePending i a (edge s)"
  have mem: "(i, ch) \<in> live s" using inv p by (simp add: ctl_inv_def)
  note ok = ctl_inv_call [OF inv mem]
  have e: "pending ?e = fmdrop i (pending (edge s))" "chans ?e = (chans (edge s))(ch := [a])"
    "corrSeq ?e = corrSeq (edge s)" "next_chan ?e = next_chan (edge s)"
    using i p ok by (auto simp: resolvePending_def call_ok_def)
  have this_call: "call_ok (es @ [ServerIn msg]) ?e i ch"
    using ok answered_now [of i es a] by (simp add: call_ok_def e body)
  have other: "call_ok (es @ [ServerIn msg]) ?e j c" if "(j, c) \<in> live s" for j c
  proof (cases "j = i")
    case True then show ?thesis using this_call ctl_inv_unique [OF inv mem that] by simp
  next
    case False
    then have "c \<noteq> ch" using ctl_inv_unique [OF inv mem that] by auto
    then show ?thesis using ctl_inv_call [OF inv that] False by (intro call_ok_same) (auto simp: e)
  qed
  have "ids_ok (es @ [ServerIn msg]) (s\<lparr>edge := ?e\<rparr>)" using inv e by (simp add: ctl_inv_def ids_ok_def live_def)
  then show ?thesis using inv ok other e unfolding ctl_inv_def by (auto simp: call_ok_def live_def split: if_splits)
qed

lemma inv_server_in:
  assumes inv: "ctl_inv es s"
  shows "ctl_inv (es @ [ServerIn msg]) (s\<lparr>edge := handleServerMessage net now snap msg (edge s)\<rparr>)"
proof -
  let ?i = "sm_CorrelationId msg" and ?e = "handleServerMessage net now snap msg (edge s)"
  show ?thesis
  proof (cases "\<exists>a. sm_Body msg = ServerMessage_Ack a \<and> ?i \<noteq> 0 \<and> fmlookup (pending (edge s)) ?i \<noteq> None")
    case True
    then obtain a ch where a: "sm_Body msg = ServerMessage_Ack a" "?i \<noteq> 0" "fmlookup (pending (edge s)) ?i = Some ch"
      by auto
    have "msg = \<lparr>sm_CorrelationId = ?i, sm_Body = ServerMessage_Ack a\<rparr>" using a by simp
    from inv_ack_known [OF inv this a(2,3)] show ?thesis by (simp add: handleServerMessage_def a(1))
  next
    case False
    have "corr_same (edge s) ?e"
    proof (cases "\<exists>a. sm_Body msg = ServerMessage_Ack a")
      case True
      then obtain a where "sm_Body msg = ServerMessage_Ack a" by blast
      with False show ?thesis using resolvePending_unknown [of ?i "edge s" a]
        by (auto simp: handleServerMessage_def corr_same_def)
    qed (auto simp: corr_same_def handleServerMessage_other)
    then show ?thesis using inv by (intro inv_same [OF inv]) (auto simp: live_def ctl_inv_def ids_ok_def)
  qed
qed

text \<open>The ways a call ends take it out of the live ones and drop its entry.\<close>

lemma inv_call_ends:
  assumes inv: "ctl_inv es s" and mem: "(i, ch) \<in> live s" and ev: "ended [ev] = [i]" "begins [ev] = 0"
    and l: "live s' = live s - {(i, ch)}" "sending s' \<inter> calls s' = {}" "drawn s' = drawn s"
    and e: "pending (edge s') = fmdrop i (pending (edge s))" "corrSeq (edge s') = corrSeq (edge s)"
      "next_chan (edge s') = next_chan (edge s)" "\<And>c. c \<noteq> ch \<Longrightarrow> chans (edge s') c = chans (edge s) c"
  shows "ctl_inv (es @ [ev]) s'"
proof -
  have ne: "j \<noteq> i \<and> c \<noteq> ch" if "(j, c) \<in> live s - {(i, ch)}" for j c
    using that ctl_inv_unique [OF inv mem, of j c] by auto
  then have gone: "i \<notin> fst ` (live s - {(i, ch)})" by force
  have "call_ok (es @ [ev]) (edge s') j c" if "(j, c) \<in> live s - {(i, ch)}" for j c
    using ctl_inv_call [OF inv, of j c] that ne [OF that] by (intro call_ok_same) (auto simp: e)
  moreover have "chans (edge s') c = []" if "next_chan (edge s') \<le> c" for c
  proof -
    have "ch < next_chan (edge s)" using ctl_inv_call [OF inv mem] by (simp add: call_ok_def)
    then have "c \<noteq> ch" using that e(3) by simp
    then show ?thesis using inv that e(3) e(4) [of c] by (simp add: ctl_inv_def)
  qed
  moreover have "ids_ok (es @ [ev]) s'"
  proof -
    have "i \<in> fst ` live s" using mem by force
    then have "i \<notin> set (ended es)" "i \<notin> drawn s" using inv by (auto simp: ctl_inv_def ids_ok_def)
    moreover have "unat i \<le> begins es" using ctl_inv_call [OF inv mem] by (simp add: call_ok_def)
    moreover have "inj_on fst (live s - {(i, ch)})" "inj_on snd (live s - {(i, ch)})"
      using inv by (auto simp: ctl_inv_def ids_ok_def intro: inj_on_subset)
    ultimately show ?thesis using inv gone l e(2) ev unfolding ctl_inv_def ids_ok_def by auto
  qed
  ultimately show ?thesis using inv unfolding ctl_inv_def l e by (auto split: if_splits)
qed

lemma ack_send_same: "ack_send net i body e = (None, e') \<Longrightarrow> corr_same e e'"
  by (auto simp: ack_send_def sendAgentMessage_def corr_same_def split: if_splits option.splits prod.splits)

lemma ack_send_failed:
  assumes "ack_send net i body e = (Some err, e')"
  shows "pending e' = fmdrop i (pending e)" "corrSeq e' = corrSeq e" "next_chan e' = next_chan e" "chans e' = chans e"
  using assms by (auto simp: ack_send_def sendAgentMessage_def split: if_splits option.splits prod.splits)

lemma ctl_inv_start: "ctl_inv [] (ctl_init newEdgeControllerExtension)"
  by (simp add: ctl_inv_def ids_ok_def live_def newEdgeControllerExtension_def)

lemma ctl_inv_step:
  assumes inv: "ctl_inv es s" and step: "ctl_step s ev s'" and few: "begins (es @ [ev]) < 2 ^ 64"
  shows "ctl_inv (es @ [ev]) s'"
proof -
  have apart: "sending s \<inter> calls s = {}" using inv by (simp add: ctl_inv_def ids_ok_def)
  from step show ?thesis
  proof cases
    case call_drawn then show ?thesis using inv_drawn [OF inv] few by simp
  next
    case call_begun then show ?thesis using inv_begun [OF inv] by simp
  next
    case (call_sent i ch net body e')
    then show ?thesis using apart by (intro inv_same [OF inv]) (auto simp: ack_send_same live_def)
  next
    case (call_failed i ch net body err e')
    then show ?thesis using apart
      by (intro inv_call_ends [OF inv, of i ch]) (auto simp: live_def ack_send_failed)
  next
    case (call_sent_stale i ch body)
    then show ?thesis using apart by (intro inv_same [OF inv]) (auto simp: live_def corr_same_def)
  next
    case (call_failed_stale i ch)
    then show ?thesis using apart
      by (intro inv_call_ends [OF inv, of i ch]) (auto simp: live_def ack_timeout_def)
  next
    case server_in then show ?thesis using inv_server_in [OF inv] by simp
  next
    case (call_returned i ch a e')
    then show ?thesis using apart
      by (intro inv_call_ends [OF inv, of i ch]) (auto simp: live_def ack_receive_def split: list.splits)
  next
    case (call_timed_out i ch)
    then show ?thesis using apart
      by (intro inv_call_ends [OF inv, of i ch]) (auto simp: live_def ack_timeout_def)
  next
    case (elsewhere e')
    then show ?thesis using apart by (intro inv_same [OF inv]) (auto simp: live_def)
  qed
qed

lemma ctl_run_inv: "ctl_run es s \<Longrightarrow> begins es < 2 ^ 64 \<Longrightarrow> ctl_inv es s"
proof (induction rule: ctl_run.induct)
  case ctl_start show ?case by (rule ctl_inv_start)
next
  case (ctl_more es s ev s')
  then show ?case using ctl_inv_step by (metis begins_append le_add1 le_less_trans)
qed

lemma ctl_run_prefix: "ctl_run (es @ fs) s \<Longrightarrow> \<exists>s'. ctl_run es s'"
proof (induction fs arbitrary: s rule: rev_induct)
  case (snoc ev fs)
  from snoc.prems show ?case using snoc.IH by (cases rule: ctl_run.cases) auto
qed auto

lemma returned_answered:
  assumes "ctl_run (es @ [Returned i a]) s'" "begins es < 2 ^ 64"
  shows "answered es i a"
proof -
  from assms(1) obtain s where s: "ctl_run es s" "ctl_step s (Returned i a) s'"
    by (cases rule: ctl_run.cases) auto
  from s(2) obtain ch e' where c: "(i, ch) \<in> calls s" "ack_receive i ch (edge s) = Some (a, e')"
    by (rule ctl_returnedE) blast
  then have "call_ok es (edge s) i ch"
    using ctl_inv_call [OF ctl_run_inv [OF s(1) assms(2)], of i ch] by (simp add: live_def)
  then show ?thesis using c(2) by (auto simp: call_ok_def ack_receive_def)
qed

section \<open>Properties\<close>

text \<open>
  Acknowledgements and requests are matched.  In every run of the control stream, whatever
  the interleaving of the critical sections of concurrent \<open>sendAndWaitAck\<close> calls, server
  messages, failed sends, timeouts and the agent's other work, and as long as fewer than
  \<open>2^64\<close> calls were made: a call that returns an acknowledgement returns one that arrived with the
  call's own correlation identifier after the call was begun; no call ends twice; and the table of
  pending calls holds only calls that have not ended, so it never leaks.
\<close>

theorem ack_correlation:
  assumes "ctl_run es s" "begins es < 2 ^ 64"
  shows "(\<forall>es1 i a es2. es = es1 @ Returned i a # es2 \<longrightarrow> answered es1 i a)
    \<and> distinct (ended es) \<and> fset (fmdom (pending (edge s))) \<subseteq> fst ` live s"
proof (intro conjI allI impI)
  fix es1 i a es2 assume es: "es = es1 @ Returned i a # es2"
  then obtain s' where "ctl_run (es1 @ [Returned i a]) s'"
    using ctl_run_prefix [of "es1 @ [Returned i a]" es2 s] assms(1) by auto
  then show "answered es1 i a" using returned_answered assms(2) es by simp
next
  have inv: "ctl_inv es s" by (rule ctl_run_inv [OF assms])
  then show "distinct (ended es)" by (simp add: ctl_inv_def ids_ok_def)
  show "fset (fmdom (pending (edge s))) \<subseteq> fst ` live s"
    using inv unfolding ctl_inv_def by (metis fmlookup_dom_iff fst_conv imageI subsetI)
qed

text \<open>
  C17: an acknowledgement wakes the call it answers.  Whenever a call is waiting and still has its
  entry, handling the acknowledgement with its identifier makes the call return exactly that
  acknowledgement, and leaves no entry behind.
\<close>

theorem ack_wakes_call:
  assumes "ctl_run es s" "begins es < 2 ^ 64" "(i, ch) \<in> calls s"
    "fmlookup (pending (edge s)) i = Some ch"
  shows "\<exists>e'. ack_receive i ch (handleServerMessage net now snap
              \<lparr>sm_CorrelationId = i, sm_Body = ServerMessage_Ack a\<rparr> (edge s)) = Some (a, e')
           \<and> fmlookup (pending e') i = None"
proof -
  have "call_ok es (edge s) i ch"
    using ctl_inv_call [OF ctl_run_inv [OF assms(1,2)], of i ch] assms(3) by (simp add: live_def)
  then show ?thesis using assms(4)
    by (auto simp: call_ok_def handleServerMessage_def resolvePending_def ack_receive_def)
qed

text \<open>A run with one call, used by the witnesses.\<close>

definition demo_ack :: Ack where
  "demo_ack = \<lparr>ack_Success = True, ack_Message = ''ok''\<rparr>"

definition demo_ack_message :: ServerMessage where
  "demo_ack_message = \<lparr>sm_CorrelationId = 1, sm_Body = ServerMessage_Ack demo_ack\<rparr>"

definition demo_waiting :: ctl where
  "demo_waiting = (ctl_init (newEdgeControllerExtension\<lparr>corrSeq := 1, next_chan := 1,
     pending := fmupd 1 0 fmempty\<rparr>))\<lparr>calls := {(1, 0)}\<rparr>"

lemma demo_begun: "ctl_run [Drawn 1, Begun 1, Sent 1 (AgentMessage_IndexDelete [])] demo_waiting"
proof -
  let ?s0 = "ctl_init newEdgeControllerExtension"
  let ?s1 = "?s0\<lparr>edge := (edge ?s0)\<lparr>corrSeq := 1\<rparr>, drawn := insert 1 (drawn ?s0)\<rparr>"
  let ?s2 = "?s1\<lparr>edge := edge demo_waiting, drawn := drawn ?s1 - {1}, sending := insert (1, 0) (sending ?s1)\<rparr>"
  have 1: "ctl_run [Drawn 1] ?s1"
    using ctl_more [OF ctl_start call_drawn] by (simp add: nextCorrID_def newEdgeControllerExtension_def)
  have "ack_register 1 (edge ?s1) = (0, edge demo_waiting)" "1 \<in> drawn ?s1"
    by (simp_all add: ack_register_def newEdgeControllerExtension_def demo_waiting_def)
  then have 2: "ctl_run [Drawn 1, Begun 1] ?s2" using ctl_more [OF 1 call_begun] by simp
  have "ack_send (\<lambda>_ _. True) 1 (AgentMessage_IndexDelete []) (edge ?s2) = (None, edge demo_waiting)"
    by (simp add: ack_send_def sendAgentMessage_def demo_waiting_def newEdgeControllerExtension_def)
  then have "ctl_run ([Drawn 1, Begun 1] @ [Sent 1 (AgentMessage_IndexDelete [])])
      (?s2\<lparr>edge := edge demo_waiting, sending := sending ?s2 - {(1, 0)}, calls := insert (1, 0) (calls ?s2)\<rparr>)"
    by (intro ctl_more [OF 2 call_sent]) auto
  then show ?thesis by (simp add: demo_waiting_def ctl_init_def)
qed

definition demo_ctl_events :: "ctl_event list" where
  "demo_ctl_events = [Drawn 1, Begun 1, Sent 1 (AgentMessage_IndexDelete []), ServerIn demo_ack_message]"

lemma demo_run: "\<exists>s. ctl_run (demo_ctl_events @ [Returned 1 demo_ack]) s"
proof -
  let ?s1 = "demo_waiting\<lparr>edge := handleServerMessage (\<lambda>_ _. True) 0
    \<lparr>cs_Files = [], cs_PrimaryPath = '''', cs_WriteEnabled = False, cs_Error = ''''\<rparr> demo_ack_message (edge demo_waiting)\<rparr>"
  have r1: "ctl_run demo_ctl_events ?s1"
    using ctl_more [OF demo_begun server_in] by (simp add: demo_ctl_events_def)
  have m: "(1, 0) \<in> calls ?s1" by (simp add: demo_waiting_def)
  obtain e' where "ack_receive 1 0 (edge ?s1) = Some (demo_ack, e')"
    by (simp add: ack_receive_def demo_waiting_def handleServerMessage_def resolvePending_def
        demo_ack_message_def newEdgeControllerExtension_def)
  from ctl_more [OF r1 call_returned [OF m this]] show ?thesis by blast
qed

text \<open>Witness for \<open>ack_correlation\<close>.\<close>

theorem ack_correlation_witness:
  "answered demo_ctl_events 1 demo_ack \<and> distinct (ended (demo_ctl_events @ [Returned 1 demo_ack]))
   \<and> (\<exists>s. ctl_run (demo_ctl_events @ [Returned 1 demo_ack]) s \<and> fset (fmdom (pending (edge s))) \<subseteq> fst ` live s)"
proof -
  obtain s where run: "ctl_run (demo_ctl_events @ [Returned 1 demo_ack]) s" using demo_run by blast
  have few: "begins (demo_ctl_events @ [Returned 1 demo_ack]) < 2 ^ 64" by (simp add: demo_ctl_events_def)
  show ?thesis using ack_correlation [OF run few] run by blast
qed

text \<open>Witness of C17 (\<open>ack_wakes_call\<close>).\<close>

theorem ack_wakes_call_witness:
  "\<exists>e'. ack_receive 1 0 (handleServerMessage (\<lambda>_ _. True) 0
      \<lparr>cs_Files = [], cs_PrimaryPath = '''', cs_WriteEnabled = False, cs_Error = ''''\<rparr>
      \<lparr>sm_CorrelationId = 1, sm_Body = ServerMessage_Ack demo_ack\<rparr> (edge demo_waiting)) = Some (demo_ack, e')
    \<and> fmlookup (pending e') 1 = None"
  by (rule ack_wakes_call [OF demo_begun]) (simp_all add: demo_waiting_def)

text \<open>
  A pushed demand set is what the filters read from then on.  After a \<open>demand_set\<close>
  message the five demand lists the processors poll are exactly the pushed ones (the trace
  routes without those lacking a selector or a filter identifier), the series caches and the
  pending calls are untouched, and one reply with the message's identifier is sent exactly when
  the identifier is not zero and the stream is up and accepts it.
\<close>

theorem demand_set_applied:
  "let e' = handleServerMessage net now snap \<lparr>sm_CorrelationId = i, sm_Body = ServerMessage_DemandSet ds\<rparr> e;
       reply = \<lparr>am_CorrelationId = i, am_Body = AgentMessage_CommandResult
         \<lparr>cr_Success = True, cr_Message = ''demand_set applied''\<rparr>\<rparr>
   in GetDemands e' = set_Metrics ds \<and> GetMetricSelectors e' = set_MetricSelectors ds
    \<and> GetLogDemands e' = set_LogSelectors ds \<and> GetTraceDemands e' = set_TraceSelectors ds
    \<and> GetTraceRoutes e' = map (\<lambda>d. \<lparr>Selector = td_Selector d, FilterID = td_FilterId d\<rparr>)
         (filter (\<lambda>d. td_Selector d \<noteq> '''' \<and> td_FilterId d \<noteq> '''') (set_TraceDemands ds))
    \<and> knownTimeseriesCache e' = knownTimeseriesCache e
    \<and> discoveredTimeseriesCache e' = discoveredTimeseriesCache e \<and> pending e' = pending e
    \<and> outbox e' = (if i \<noteq> 0 \<and> stream_up e \<and> net (outbox e) reply then outbox e @ [reply] else outbox e)"
  by (simp add: handleServerMessage_def Let_def GetDemands_def GetMetricSelectors_def GetLogDemands_def
      GetTraceDemands_def GetTraceRoutes_def demand_GetDemands_def UpdateDemands_def UpdateTraceRoutes_def
      traceRoutesFromProto_eq replyCommand_def sendAgentMessage_def apply_demands_def apply_routes_def)

text \<open>
  What a received batch does.  Every series of the batch is known afterwards, no other
  series becomes known and none is forgotten; exactly the series that were not known before are
  added to the discovered ones, with the batch's labels; nothing else of the extension changes;
  and the loop never hits the window's index panic.
\<close>

theorem ReceiveTimeseriesBatch_effect:
  assumes "known_wf (knownTimeseriesCache e)" "enumerates (map fst visit) (Data batch)"
    "list_all (\<lambda>(k, t). 0 \<le> t) visit"
  shows "\<exists>e'. ReceiveTimeseriesBatch visit batch e = Some e' \<and> known_wf (knownTimeseriesCache e')
    \<and> (\<forall>k. IsTimeseriesKnown (knownTimeseriesCache e') k \<longleftrightarrow>
          IsTimeseriesKnown (knownTimeseriesCache e) k \<or> k |\<in>| fmdom (Data batch))
    \<and> (\<forall>k. fmlookup (discovered (discoveredTimeseriesCache e')) k =
          (if k |\<in>| fmdom (Data batch) \<and> \<not> IsTimeseriesKnown (knownTimeseriesCache e) k
           then fmlookup (Data batch) k else fmlookup (discovered (discoveredTimeseriesCache e)) k))
    \<and> demandTimeseriesCache e' = demandTimeseriesCache e \<and> pending e' = pending e \<and> outbox e' = outbox e"
proof -
  have mem: "(k \<in> fst ` set visit \<and> fmlookup (Data batch) k \<noteq> None) \<longleftrightarrow> k |\<in>| fmdom (Data batch)" for k
    using enumerates_set [OF assms(2), of k] by (auto simp: fmlookup_dom_iff)
  show ?thesis using receive_loop_effect [OF assms(1) enumerates_distinct [OF assms(2)] assms(3), of "Data batch"]
    unfolding ReceiveTimeseriesBatch_def mem .
qed

text \<open>Witness of \<open>ReceiveTimeseriesBatch_effect\<close>: a first batch with one series.\<close>

definition demo_entry :: TimeseriesEntry where
  "demo_entry = \<lparr>MetricName = ''up'', Labels = [], Samples = 3\<rparr>"

definition demo_batch :: TimeseriesBatch where
  "demo_batch = \<lparr>Data = fmupd (replicate 16 CHR ''k'') demo_entry fmempty\<rparr>"

theorem ReceiveTimeseriesBatch_effect_witness:
  "\<exists>e'. ReceiveTimeseriesBatch [(replicate 16 CHR ''k'', 3600)] demo_batch newEdgeControllerExtension = Some e'
    \<and> known_wf (knownTimeseriesCache e')
    \<and> IsTimeseriesKnown (knownTimeseriesCache e') (replicate 16 CHR ''k'')
    \<and> fmlookup (discovered (discoveredTimeseriesCache e')) (replicate 16 CHR ''k'') =
        Some demo_entry"
proof -
  have 1: "known_wf (knownTimeseriesCache newEdgeControllerExtension)"
    by (simp add: newEdgeControllerExtension_def NewKnownTimeseriesCache_def known_wf_def)
  have 2: "enumerates (map fst [(replicate 16 CHR ''k'', 3600 :: int)]) (Data demo_batch)"
    by (simp add: demo_batch_def enumerates_def)
  have 3: "list_all (\<lambda>(k, t). 0 \<le> t) [(replicate 16 CHR ''k'', 3600 :: int)]" by simp
  have 4: "\<not> IsTimeseriesKnown (knownTimeseriesCache newEdgeControllerExtension) (replicate 16 CHR ''k'')"
    by (simp add: newEdgeControllerExtension_def NewKnownTimeseriesCache_def IsTimeseriesKnown_def)
  have 5: "fmlookup (Data demo_batch) (replicate 16 CHR ''k'') =
        Some demo_entry" by (simp add: demo_batch_def)
  then have 6: "replicate 16 CHR ''k'' |\<in>| fmdom (Data demo_batch)" by (simp add: fmlookup_dom_iff)
  show ?thesis using ReceiveTimeseriesBatch_effect [OF 1 2 3] 4 5 6 by metis
qed

end
