(* ===== verification/Log_Demand_Filter.thy ===== *)
theory Log_Demand_Filter
  imports Providers
begin

text \<open>
  The log demand filter (\<open>src/components/logdemandfilter\<close>): \<open>streamlabels.go\<close>
  computes the Loki stream labels of a resource, \<open>processor.go\<close> keeps the resources
  whose stream labels match some demanded selector and caches the parsed selectors of the
  last demand list.

  The lemmas give the labels a selector can see, show that the cache is transparent, and
  that a run of batches is filtered exactly by the demand of each moment.
\<close>

section \<open>Stream labels (streamlabels.go)\<close>

definition defaultServiceName :: string where
  "defaultServiceName = ''unknown_service''"

definition promotedResourceAttributes :: "string list" where
  "promotedResourceAttributes =
     [''cloud.availability_zone'', ''cloud.region'', ''container.name'', ''deployment.environment'',
      ''deployment.environment.name'', ''k8s.cluster.name'', ''k8s.container.name'',
      ''k8s.cronjob.name'', ''k8s.daemonset.name'', ''k8s.deployment.name'', ''k8s.job.name'',
      ''k8s.namespace.name'', ''k8s.pod.name'', ''k8s.replicaset.name'', ''k8s.statefulset.name'',
      ''service.instance.id'', ''service.name'', ''service.namespace'']"

definition promotedLabelNames :: "string list" where
  "promotedLabelNames = map (\<lambda>attr. ReplaceAll1 attr (CHR ''.'') (CHR ''_'')) promotedResourceAttributes"

fun promote ::
    "('m, 'v) pcommon \<Rightarrow> 'm \<Rightarrow> label_map \<Rightarrow> (string \<times> string) list \<Rightarrow> label_map" where
  "promote pc attrs labels [] = labels"
| "promote pc attrs labels ((attr, name) # ps) =
     (case pm_get pc attrs attr of
        Some v \<Rightarrow> promote pc attrs (fmupd name (pv_asString pc v) labels) ps
      | None \<Rightarrow> promote pc attrs labels ps)"

definition streamLabels :: "('m, 'v) pcommon \<Rightarrow> 'm \<Rightarrow> label_map" where
  "streamLabels pc attrs =
     (let labels = promote pc attrs fmempty (zip promotedResourceAttributes promotedLabelNames) in
      case fmlookup labels ''service_name'' of
        None \<Rightarrow> fmupd ''service_name'' defaultServiceName labels
      | Some _ \<Rightarrow> labels)"

section \<open>The processor (processor.go)\<close>

record ('st, 're) logDemandFilterProcessor =
  log_provider :: "('st \<Rightarrow> string list) option"
  log_cachedKey :: string
  log_cachedParsed :: "'re selector list"

definition newLogDemandFilterProcessor :: "('st, 're) logDemandFilterProcessor" where
  "newLogDemandFilterProcessor = \<lparr>log_provider = None, log_cachedKey = '''', log_cachedParsed = []\<rparr>"

fun log_Start ::
    "('st, 're) logDemandFilterProcessor \<Rightarrow> 'st extension list \<Rightarrow> ('st, 're) logDemandFilterProcessor" where
  "log_Start p [] = p"
| "log_Start p (ext # exts) =
     (case ext_GetLogDemands ext of
        Some dp \<Rightarrow> p\<lparr>log_provider := Some dp\<rparr>
      | None \<Rightarrow> log_Start p exts)"

definition log_parsedSelectors ::
    "'re regexp_lib \<Rightarrow> ('st, 're) logDemandFilterProcessor \<Rightarrow> string list
     \<Rightarrow> 're selector list \<times> ('st, 're) logDemandFilterProcessor" where
  "log_parsedSelectors lib p raw =
     (let key = Join raw [nulbyte] in
      if key = log_cachedKey p then (log_cachedParsed p, p)
      else let parsed = parse_all (Parse lib) raw in
        (parsed, p\<lparr>log_cachedKey := key, log_cachedParsed := parsed\<rparr>))"

definition ConsumeLogs ::
    "'re regexp_lib \<Rightarrow> ('m, 'v) pcommon \<Rightarrow> ('st, 're) logDemandFilterProcessor \<Rightarrow> 'st
     \<Rightarrow> ('m, 'x) resource_group list
     \<Rightarrow> ('m, 'x) resource_group list outcome \<times> ('st, 're) logDemandFilterProcessor" where
  "ConsumeLogs lib pc p st ld =
     (case log_provider p of
        None \<Rightarrow> (Blocked, p)
      | Some getLogDemands \<Rightarrow>
          let raw = getLogDemands st in
          if length raw = 0 then (Blocked, p)
          else let (selectors, p') = log_parsedSelectors lib p raw in
            if length selectors = 0 then (Blocked, p')
            else (Forward (removeIf (\<lambda>rl.
                    let labels = streamLabels pc (rg_attrs rl) in
                    (rl, \<not> any_selector lib selectors labels)) ld), p'))"

section \<open>What a selector can see\<close>

definition label_source :: "string \<Rightarrow> string option" where
  "label_source n = map_of (zip promotedLabelNames promotedResourceAttributes) n"

lemma distinct_promoted: "distinct promotedLabelNames"
  by code_simp

lemma service_name_source: "label_source ''service_name'' = Some ''service.name''"
  by code_simp

lemma promote_lookup:
  assumes "distinct (map snd pairs)"
  shows "fmlookup (promote pc attrs labels pairs) n =
    (case map_of (map (\<lambda>(a, b). (b, a)) pairs) n of
       Some attr \<Rightarrow> (case pm_get pc attrs attr of Some v \<Rightarrow> Some (pv_asString pc v) | None \<Rightarrow> fmlookup labels n)
     | None \<Rightarrow> fmlookup labels n)"
  using assms
proof (induction pc attrs labels pairs rule: promote.induct)
  case (2 pc attrs labels attr name ps)
  have "map_of (map (\<lambda>(a, b). (b, a)) ps) name = None"
    using 2(3) by (auto simp: map_of_eq_None_iff image_iff)
  with 2 show ?case by (auto split: option.splits)
qed simp

lemma zip_swap: "map (\<lambda>(a, b). (b, a)) (zip xs ys) = zip ys xs"
  by (metis zip_commute)

lemma streamLabels_lookup_source:
  "fmlookup (streamLabels pc attrs) n =
     (case label_source n of
        None \<Rightarrow> None
      | Some attr \<Rightarrow>
          (case pm_get pc attrs attr of
             Some v \<Rightarrow> Some (pv_asString pc v)
           | None \<Rightarrow> if n = ''service_name'' then Some defaultServiceName else None))"
proof -
  have "distinct (map snd (zip promotedResourceAttributes promotedLabelNames))"
    using distinct_promoted by (simp add: promotedLabelNames_def)
  note l = promote_lookup [OF this, of pc attrs fmempty, unfolded zip_swap, folded label_source_def]
  show ?thesis
    by (auto simp: streamLabels_def Let_def l service_name_source split: option.splits)
qed

section \<open>The cache and a run of batches\<close>

definition log_cached :: "('st, 're) logDemandFilterProcessor \<Rightarrow> string \<Rightarrow> 're selector list option" where
  "log_cached p key = (if key = log_cachedKey p then Some (log_cachedParsed p) else None)"

interpretation log_cache: keyed_store "log_parsedSelectors lib" "parse_all (Parse lib)" nul_free
    "\<lambda>raws. Join raws [nulbyte]" log_cached for lib
proof (unfold_locales, goal_cases)
  case (4 r r')
  then show ?case using nul_free_Join by metis
qed (auto simp: log_parsedSelectors_def log_cached_def Let_def split: if_splits)

lemma log_parsedSelectors_provider [simp]:
  "log_provider (snd (log_parsedSelectors lib p raws)) = log_provider p"
  by (simp add: log_parsedSelectors_def Let_def)

definition log_demands_now :: "('st, 're) logDemandFilterProcessor \<Rightarrow> 'st \<Rightarrow> string list" where
  "log_demands_now p st = (case log_provider p of None \<Rightarrow> [] | Some g \<Rightarrow> g st)"

definition log_demanded ::
    "'re regexp_lib \<Rightarrow> ('m, 'v) pcommon \<Rightarrow> string list \<Rightarrow> ('m, 'x) resource_group \<Rightarrow> bool" where
  "log_demanded lib pc raws rl = list_demands lib (Parse lib) raws (streamLabels pc (rg_attrs rl))"

definition consume_logs ::
    "'re regexp_lib \<Rightarrow> ('m, 'v) pcommon \<Rightarrow> ('st, 're) logDemandFilterProcessor
     \<Rightarrow> 'st \<times> ('m, 'x) resource_group list
     \<Rightarrow> ('m, 'x) resource_group list \<times> ('st, 're) logDemandFilterProcessor" where
  "consume_logs lib pc p r =
     (let (out, p') = ConsumeLogs lib pc p (fst r) (snd r) in (forwarded out, p'))"

lemma log_demanded_none [simp]: "log_demanded lib pc [] rl = False"
  by (simp add: log_demanded_def list_demands_def)

lemma consume_logs_correct:
  assumes "log_cache.coherent lib p"
    and "log_demands_now p (fst r) = [] \<or> nul_free (log_demands_now p (fst r))"
  shows "fst (consume_logs lib pc p r) = filter (log_demanded lib pc (log_demands_now p (fst r))) (snd r)"
    and "log_cache.coherent lib (snd (consume_logs lib pc p r))
      \<and> log_provider (snd (consume_logs lib pc p r)) = log_provider p"
proof -

  show "fst (consume_logs lib pc p r) = filter (log_demanded lib pc (log_demands_now p (fst r))) (snd r)"
    using assms log_cache.coherent_get [OF assms(1), of "log_demands_now p (fst r)"]
    by (auto simp: consume_logs_def ConsumeLogs_def log_demands_now_def Let_def case_prod_unfold
        any_parsed_selector log_demanded_def [abs_def] parse_all_empty_demands split: option.splits)
  show "log_cache.coherent lib (snd (consume_logs lib pc p r))
      \<and> log_provider (snd (consume_logs lib pc p r)) = log_provider p"
    using assms log_cache.coherent_get [OF assms(1), of "log_demands_now p (fst r)"]
    by (auto simp: consume_logs_def ConsumeLogs_def log_demands_now_def Let_def case_prod_unfold
        split: option.splits)
qed

interpretation log_filter: transparent_cache "consume_logs lib pc"
    "\<lambda>r. filter (log_demanded lib pc (log_demands_now p0 (fst r))) (snd r)"
    "\<lambda>r. log_demands_now p0 (fst r) = [] \<or> nul_free (log_demands_now p0 (fst r))"
    "\<lambda>p. log_cache.coherent lib p \<and> log_provider p = log_provider p0"
  for lib pc p0
proof (unfold_locales, goal_cases)
  case (1 s r)
  then show ?case using consume_logs_correct(1) [of lib s r] by (simp add: log_demands_now_def)
next
  case (2 s r)
  then show ?case using consume_logs_correct(2) [of lib s r] by (simp add: log_demands_now_def)
qed

lemma log_Start_cache [simp]:
  "log_cachedKey (log_Start p exts) = log_cachedKey p"
  "log_cachedParsed (log_Start p exts) = log_cachedParsed p"
  by (induction p exts rule: log_Start.induct) (auto split: option.splits)

text \<open>The empty key of a new processor is a hit for the list with one empty selector, which parses
  to nothing, as the empty slot says.\<close>

lemma log_coherent_started: "log_cache.coherent lib (log_Start newLogDemandFilterProcessor exts)"
  unfolding log_cache.coherent_def log_cached_def
  by (auto simp: newLogDemandFilterProcessor_def Parse_def dest!: nul_free_empty_key split: if_splits)

text \<open>The precondition on NUL bytes is needed: after the list of broken selectors the good one is
  answered from the cache, with no selector, although it parses.\<close>

theorem log_key_collision:
  "let p = snd (log_parsedSelectors literal_regexp newLogDemandFilterProcessor nul_split_selectors) in
   fst (log_parsedSelectors literal_regexp p nul_value_selectors) = []
   \<and> length (parse_all (Parse literal_regexp) nul_value_selectors) = 1"
  by code_simp

section \<open>Properties\<close>

text \<open>C13: over every run of batches, a started log filter forwards exactly the resources whose
  stream labels match a selector demanded at that moment, unchanged and in order; without a
  provider, without demand, or when no selector parses it forwards nothing.\<close>

theorem ConsumeLogs_exact:
  assumes "p0 = log_Start newLogDemandFilterProcessor exts"
    and "list_all (\<lambda>r. log_demands_now p0 (fst r) = [] \<or> nul_free (log_demands_now p0 (fst r))) batches"
  shows "fst (serve (consume_logs lib pc) p0 batches) =
    map (\<lambda>(st, ld). filter (log_demanded lib pc (log_demands_now p0 st)) ld) batches"
  using log_filter.serve_fresh [of lib p0 p0 batches pc] assms log_coherent_started [of lib exts]
  by (simp add: case_prod_unfold)

text \<open>The labels a log selector is evaluated against are exactly the promoted resource
  attributes under their own underscored names; \<open>service_name\<close> is always there, with
  Loki's default when the attribute is missing, and no other attribute is visible.\<close>

theorem streamLabels_lookup:
  "fmlookup (streamLabels pc attrs) n =
     (case map_of (zip promotedLabelNames promotedResourceAttributes) n of
        None \<Rightarrow> None
      | Some attr \<Rightarrow>
          (case pm_get pc attrs attr of
             Some v \<Rightarrow> Some (pv_asString pc v)
           | None \<Rightarrow> if n = ''service_name'' then Some defaultServiceName else None))"
  using streamLabels_lookup_source [of pc attrs n] by (simp add: label_source_def)

section \<open>Witness\<close>

definition log_extension :: "string list extension" where
  "log_extension = \<lparr>ext_GetDemands = None, ext_GetMetricSelectors = None,
     ext_GetLogDemands = Some (\<lambda>st. st), ext_GetTraceDemands = None, ext_GetTraceRoutes = None\<rparr>"

definition log_batch :: "(attr_list, nat) resource_group list" where
  "log_batch = [\<lparr>rg_attrs = attrs_list [(''service.name'', ''api'')], rg_rest = 1\<rparr>,
                \<lparr>rg_attrs = attrs_list [(''host'', ''api'')], rg_rest = 2\<rparr>]"

definition log_selector :: "string \<Rightarrow> string" where
  "log_selector v = ''{service_name='' @ [dquote] @ v @ [dquote] @ ''}''"

lemma log_batch_kept:
  "filter (log_demanded literal_regexp list_pcommon [log_selector ''api'']) log_batch = take 1 log_batch"
  "filter (log_demanded literal_regexp list_pcommon [log_selector ''unknown_service'']) log_batch
   = drop 1 log_batch"
  by code_simp+

theorem ConsumeLogs_exact_witness:
  "fst (serve (consume_logs literal_regexp list_pcommon)
     (log_Start newLogDemandFilterProcessor [log_extension])
     [([log_selector ''api''], log_batch), ([log_selector ''unknown_service''], log_batch)])
   = [take 1 log_batch, drop 1 log_batch]"
  using ConsumeLogs_exact [of "log_Start newLogDemandFilterProcessor [log_extension]" "[log_extension]"
      "[([log_selector ''api''], log_batch), ([log_selector ''unknown_service''], log_batch)]"
      literal_regexp list_pcommon] log_batch_kept
  by (simp add: log_extension_def log_demands_now_def nul_free_def log_selector_def)

end
