(* ===== verification/Trace_Demand_Filter.thy ===== *)
theory Trace_Demand_Filter
  imports Providers
begin

text \<open>
  The trace demand filter (\<open>src/components/tracedemandfilter\<close>).  With per-rule routes
  it emits one stamped copy of a resource for every rule that demands it; without routes it
  keeps or drops whole resources like the log filter.  \<open>spanCount\<close> is the number of
  spans below a resource (\<open>ptrace\<close>'s \<open>SpanCount\<close> sums it over a batch); a routed
  batch without spans is not forwarded.

  The lemmas show that both caches are transparent and give the forwarded batches in closed
  form.
\<close>

section \<open>Resource labels (resourceattrs.go)\<close>

definition resourceLabels :: "('m, 'v) pcommon \<Rightarrow> 'm \<Rightarrow> label_map" where
  "resourceLabels pc attrs =
     put_all fmempty (map (\<lambda>(k, v). (''resource.'' @ k, pv_asString pc v)) (pm_range pc attrs))"

section \<open>The processor (processor.go)\<close>

definition FilterIDAttr :: string where
  "FilterIDAttr = ''leansignal.trace.filter_id''"

record 're parsedRoute =
  pr_selector :: "'re selector"
  pr_filterID :: string

record ('st, 're) traceDemandFilterProcessor =
  tr_provider :: "('st \<Rightarrow> string list) option"
  tr_routes :: "('st \<Rightarrow> Route list) option"
  tr_cachedKey :: string
  tr_cachedParsed :: "'re selector list"
  tr_cachedRouteKey :: string
  tr_cachedRoutes :: "'re parsedRoute list"

definition newTraceDemandFilterProcessor :: "('st, 're) traceDemandFilterProcessor" where
  "newTraceDemandFilterProcessor =
     \<lparr>tr_provider = None, tr_routes = None, tr_cachedKey = '''', tr_cachedParsed = [],
      tr_cachedRouteKey = '''', tr_cachedRoutes = []\<rparr>"

fun trace_Start ::
    "('st, 're) traceDemandFilterProcessor \<Rightarrow> 'st extension list
     \<Rightarrow> ('st, 're) traceDemandFilterProcessor" where
  "trace_Start p [] = p"
| "trace_Start p (ext # exts) =
     (case ext_GetTraceDemands ext of
        Some dp \<Rightarrow>
          (case ext_GetTraceRoutes ext of
             Some rp \<Rightarrow> p\<lparr>tr_provider := Some dp, tr_routes := Some rp\<rparr>
           | None \<Rightarrow> p\<lparr>tr_provider := Some dp\<rparr>)
      | None \<Rightarrow> trace_Start p exts)"

definition trace_parsedSelectors ::
    "'re regexp_lib \<Rightarrow> ('st, 're) traceDemandFilterProcessor \<Rightarrow> string list
     \<Rightarrow> 're selector list \<times> ('st, 're) traceDemandFilterProcessor" where
  "trace_parsedSelectors lib p raw =
     (let key = Join raw [nulbyte] in
      if key = tr_cachedKey p then (tr_cachedParsed p, p)
      else let parsed = parse_all (ParseDotted lib) raw in
        (parsed, p\<lparr>tr_cachedKey := key, tr_cachedParsed := parsed\<rparr>))"

definition route_key :: "Route list \<Rightarrow> string" where
  "route_key routes = Join (map (\<lambda>r. FilterID r @ ''='' @ Selector r) routes) [nulbyte]"

fun compile_routes :: "'re regexp_lib \<Rightarrow> Route list \<Rightarrow> 're parsedRoute list" where
  "compile_routes lib [] = []"
| "compile_routes lib (r # rs) =
     (case ParseDotted lib (Selector r) of
        Inl _ \<Rightarrow> compile_routes lib rs
      | Inr sel \<Rightarrow> \<lparr>pr_selector = sel, pr_filterID = FilterID r\<rparr> # compile_routes lib rs)"

definition parsedRoutes ::
    "'re regexp_lib \<Rightarrow> ('st, 're) traceDemandFilterProcessor \<Rightarrow> Route list
     \<Rightarrow> 're parsedRoute list \<times> ('st, 're) traceDemandFilterProcessor" where
  "parsedRoutes lib p routes =
     (let joined = route_key routes in
      if joined = tr_cachedRouteKey p then (tr_cachedRoutes p, p)
      else let out = compile_routes lib routes in
        (out, p\<lparr>tr_cachedRouteKey := joined, tr_cachedRoutes := out\<rparr>))"

definition stamp :: "('m, 'v) pcommon \<Rightarrow> string \<Rightarrow> ('m, 'x) resource_group \<Rightarrow> ('m, 'x) resource_group" where
  "stamp pc fid rs = rs\<lparr>rg_attrs := pm_putStr pc (rg_attrs rs) FilterIDAttr fid\<rparr>"

fun stamp_copies ::
    "'re regexp_lib \<Rightarrow> ('m, 'v) pcommon \<Rightarrow> ('m, 'x) resource_group \<Rightarrow> label_map \<Rightarrow> 're parsedRoute list
     \<Rightarrow> ('m, 'x) resource_group list" where
  "stamp_copies lib pc rs labels [] = []"
| "stamp_copies lib pc rs labels (pr # prs) =
     (if \<not> Selector_Matches lib (pr_selector pr) labels then stamp_copies lib pc rs labels prs
      else stamp pc (pr_filterID pr) rs # stamp_copies lib pc rs labels prs)"

fun route_spans ::
    "'re regexp_lib \<Rightarrow> ('m, 'v) pcommon \<Rightarrow> 're parsedRoute list \<Rightarrow> ('m, 'x) resource_group list
     \<Rightarrow> ('m, 'x) resource_group list" where
  "route_spans lib pc parsed [] = []"
| "route_spans lib pc parsed (rs # rss) =
     stamp_copies lib pc rs (resourceLabels pc (rg_attrs rs)) parsed @ route_spans lib pc parsed rss"

definition SpanCount :: "('x \<Rightarrow> nat) \<Rightarrow> ('m, 'x) resource_group list \<Rightarrow> nat" where
  "SpanCount spanCount td = sum_list (map (\<lambda>rs. spanCount (rg_rest rs)) td)"

definition consumeRouted ::
    "'re regexp_lib \<Rightarrow> ('m, 'v) pcommon \<Rightarrow> ('x \<Rightarrow> nat) \<Rightarrow> ('st, 're) traceDemandFilterProcessor
     \<Rightarrow> ('m, 'x) resource_group list \<Rightarrow> Route list
     \<Rightarrow> ('m, 'x) resource_group list outcome \<times> ('st, 're) traceDemandFilterProcessor" where
  "consumeRouted lib pc spanCount p td routes =
     (let (parsed, p') = parsedRoutes lib p routes in
      if length parsed = 0 then (Blocked, p')
      else let out = route_spans lib pc parsed td; emitted = SpanCount spanCount out in
        if emitted = 0 then (Blocked, p') else (Forward out, p'))"

definition ConsumeTraces ::
    "'re regexp_lib \<Rightarrow> ('m, 'v) pcommon \<Rightarrow> ('x \<Rightarrow> nat) \<Rightarrow> ('st, 're) traceDemandFilterProcessor
     \<Rightarrow> 'st \<Rightarrow> ('m, 'x) resource_group list
     \<Rightarrow> ('m, 'x) resource_group list outcome \<times> ('st, 're) traceDemandFilterProcessor" where
  "ConsumeTraces lib pc spanCount p st td =
     (case tr_provider p of
        None \<Rightarrow> (Blocked, p)
      | Some getTraceDemands \<Rightarrow>
          let routes = (case tr_routes p of None \<Rightarrow> [] | Some getTraceRoutes \<Rightarrow> getTraceRoutes st) in
          if 0 < length routes then consumeRouted lib pc spanCount p td routes
          else let raw = getTraceDemands st in
            if length raw = 0 then (Blocked, p)
            else let (selectors, p') = trace_parsedSelectors lib p raw in
              if length selectors = 0 then (Blocked, p')
              else (Forward (removeIf (\<lambda>rs.
                      let labels = resourceLabels pc (rg_attrs rs) in
                      (rs, \<not> any_selector lib selectors labels)) td), p'))"

section \<open>Routing in closed form\<close>

text \<open>The rules that demand a resource, in the order of the routing table.\<close>

definition rules_for :: "'re regexp_lib \<Rightarrow> ('m, 'v) pcommon \<Rightarrow> Route list \<Rightarrow> 'm \<Rightarrow> string list" where
  "rules_for lib pc routes attrs =
     map FilterID (filter (\<lambda>r. case ParseDotted lib (Selector r) of
         Inl _ \<Rightarrow> False
       | Inr sel \<Rightarrow> Selector_Matches lib sel (resourceLabels pc attrs)) routes)"

definition routed ::
    "'re regexp_lib \<Rightarrow> ('m, 'v) pcommon \<Rightarrow> Route list \<Rightarrow> ('m, 'x) resource_group list
     \<Rightarrow> ('m, 'x) resource_group list" where
  "routed lib pc routes td =
     concat (map (\<lambda>rs. map (\<lambda>fid. stamp pc fid rs) (rules_for lib pc routes (rg_attrs rs))) td)"

lemma stamp_copies_compiled:
  "stamp_copies lib pc rs (resourceLabels pc (rg_attrs rs)) (compile_routes lib routes)
   = map (\<lambda>fid. stamp pc fid rs) (rules_for lib pc routes (rg_attrs rs))"
  by (induction routes) (auto simp: rules_for_def split: sum.splits)

lemma route_spans_compiled: "route_spans lib pc (compile_routes lib routes) td = routed lib pc routes td"
  by (induction td) (simp_all add: routed_def stamp_copies_compiled)

lemma routed_unparseable: "compile_routes lib routes = [] \<Longrightarrow> routed lib pc routes td = []"
  by (simp flip: route_spans_compiled, induction td) simp_all

text \<open>Only resources with spans matter: the others carry nothing.\<close>

definition with_spans :: "('x \<Rightarrow> nat) \<Rightarrow> ('m, 'x) resource_group list \<Rightarrow> ('m, 'x) resource_group list" where
  "with_spans spanCount td = filter (\<lambda>rs. 0 < spanCount (rg_rest rs)) td"

lemma with_spans_Nil [simp]: "with_spans spanCount [] = []"
  by (simp add: with_spans_def)

lemma SpanCount_zero: "SpanCount spanCount td = 0 \<longleftrightarrow> with_spans spanCount td = []"
  by (auto simp: SpanCount_def with_spans_def filter_empty_conv)

section \<open>The caches\<close>

definition trace_cached ::
    "('st, 're) traceDemandFilterProcessor \<Rightarrow> string \<Rightarrow> 're selector list option" where
  "trace_cached p key = (if key = tr_cachedKey p then Some (tr_cachedParsed p) else None)"

definition route_cached ::
    "('st, 're) traceDemandFilterProcessor \<Rightarrow> string \<Rightarrow> 're parsedRoute list option" where
  "route_cached p key = (if key = tr_cachedRouteKey p then Some (tr_cachedRoutes p) else None)"

text \<open>Routing tables whose key determines them: no NUL byte, and no \<open>=\<close> in a rule id.\<close>

definition key_safe :: "Route list \<Rightarrow> bool" where
  "key_safe routes \<longleftrightarrow>
     routes \<noteq> [] \<and>
     list_all (\<lambda>r. nulbyte \<notin> set (FilterID r) \<and> nulbyte \<notin> set (Selector r) \<and> CHR ''='' \<notin> set (FilterID r))
       routes"

lemma route_key_inject:
  assumes "key_safe routes" "key_safe routes'" "route_key routes = route_key routes'"
  shows "routes = routes'"
proof -
  have "map (\<lambda>r. FilterID r @ ''='' @ Selector r) routes = map (\<lambda>r. FilterID r @ ''='' @ Selector r) routes'"
    by (rule Join_inject [OF _ _ _ _ assms(3) [unfolded route_key_def]])
      (use assms(1,2) in \<open>auto simp: key_safe_def list_all_iff\<close>)
  with assms(1,2) show ?thesis
  proof (induction routes routes' rule: list_induct2')
    case (4 r rs r' rs')
    then have "r = r'" by (cases r; cases r') (auto simp: key_safe_def append_sep_inject)
    with 4 show ?case by (cases "rs = []"; cases "rs' = []") (auto simp: key_safe_def)
  qed (auto simp: key_safe_def)
qed

interpretation trace_cache: keyed_store "trace_parsedSelectors lib" "parse_all (ParseDotted lib)" nul_free
    "\<lambda>raws. Join raws [nulbyte]" trace_cached for lib
proof (unfold_locales, goal_cases)
  case (4 r r')
  then show ?case using nul_free_Join by metis
qed (auto simp: trace_parsedSelectors_def trace_cached_def Let_def split: if_splits)

interpretation route_cache: keyed_store "parsedRoutes lib" "compile_routes lib" key_safe route_key
    route_cached for lib
proof (unfold_locales, goal_cases)
  case (4 r r')
  then show ?case using route_key_inject by metis
qed (auto simp: parsedRoutes_def route_cached_def Let_def split: if_splits)

text \<open>The precondition on the rule identifiers is needed: a rule whose identifier ends in
  \<open>=\<close> shares its key with another rule, and is answered with that rule's compiled form.\<close>

theorem route_key_collision:
  "let p = snd (parsedRoutes literal_regexp newTraceDemandFilterProcessor
       [\<lparr>Selector = ''={a='' @ [dquote, dquote] @ ''}'', FilterID = ''f''\<rparr>]) in
   fst (parsedRoutes literal_regexp p [\<lparr>Selector = ''{a='' @ [dquote, dquote] @ ''}'', FilterID = ''f=''\<rparr>]) = []
   \<and> length (compile_routes literal_regexp [\<lparr>Selector = ''{a='' @ [dquote, dquote] @ ''}'', FilterID = ''f=''\<rparr>]) = 1"
  by code_simp

lemma parsed_fields [simp]:
  "tr_provider (snd (trace_parsedSelectors lib p raws)) = tr_provider p"
  "tr_routes (snd (trace_parsedSelectors lib p raws)) = tr_routes p"
  "tr_provider (snd (parsedRoutes lib p routes)) = tr_provider p"
  "tr_routes (snd (parsedRoutes lib p routes)) = tr_routes p"
  by (simp_all add: trace_parsedSelectors_def parsedRoutes_def Let_def)

lemma caches_independent [simp]:
  "route_cached (snd (trace_parsedSelectors lib p raws)) = route_cached p"
  "trace_cached (snd (parsedRoutes lib p routes)) = trace_cached p"
  by (rule ext, simp add: trace_parsedSelectors_def parsedRoutes_def Let_def route_cached_def trace_cached_def)+

section \<open>A run of batches\<close>

definition routes_now :: "('st, 're) traceDemandFilterProcessor \<Rightarrow> 'st \<Rightarrow> Route list" where
  "routes_now p st = (case tr_routes p of None \<Rightarrow> [] | Some g \<Rightarrow> g st)"

definition trace_demands_now :: "('st, 're) traceDemandFilterProcessor \<Rightarrow> 'st \<Rightarrow> string list" where
  "trace_demands_now p st = (case tr_provider p of None \<Rightarrow> [] | Some g \<Rightarrow> g st)"

text \<open>What the filter should forward, from the demand alone.\<close>

definition trace_selected ::
    "'re regexp_lib \<Rightarrow> ('m, 'v) pcommon \<Rightarrow> Route list \<Rightarrow> string list \<Rightarrow> ('m, 'x) resource_group list
     \<Rightarrow> ('m, 'x) resource_group list" where
  "trace_selected lib pc routes raws td =
     (if routes \<noteq> [] then routed lib pc routes td
      else filter (\<lambda>rs. list_demands lib (ParseDotted lib) raws (resourceLabels pc (rg_attrs rs))) td)"

definition consume_traces ::
    "'re regexp_lib \<Rightarrow> ('m, 'v) pcommon \<Rightarrow> ('x \<Rightarrow> nat) \<Rightarrow> ('st, 're) traceDemandFilterProcessor
     \<Rightarrow> 'st \<times> ('m, 'x) resource_group list
     \<Rightarrow> ('m, 'x) resource_group list \<times> ('st, 're) traceDemandFilterProcessor" where
  "consume_traces lib pc spanCount p r =
     (let (out, p') = ConsumeTraces lib pc spanCount p (fst r) (snd r)
      in (with_spans spanCount (forwarded out), p'))"

definition trace_ready ::
    "('st, 're) traceDemandFilterProcessor \<Rightarrow> 'st \<Rightarrow> bool" where
  "trace_ready p st \<longleftrightarrow>
     (routes_now p st = [] \<or> key_safe (routes_now p st)) \<and>
     (trace_demands_now p st = [] \<or> nul_free (trace_demands_now p st))"

definition trace_coherent :: "'re regexp_lib \<Rightarrow> ('st, 're) traceDemandFilterProcessor \<Rightarrow> bool" where
  "trace_coherent lib p \<longleftrightarrow> trace_cache.coherent lib p \<and> route_cache.coherent lib p"

lemma trace_coherent_get:
  assumes "trace_coherent lib p"
  shows "nul_free raws \<Longrightarrow> fst (trace_parsedSelectors lib p raws) = parse_all (ParseDotted lib) raws
      \<and> trace_coherent lib (snd (trace_parsedSelectors lib p raws))"
    and "key_safe routes \<Longrightarrow> fst (parsedRoutes lib p routes) = compile_routes lib routes
      \<and> trace_coherent lib (snd (parsedRoutes lib p routes))"
  using assms trace_cache.coherent_get [of lib p raws] route_cache.coherent_get [of lib p routes]
  by (simp_all add: trace_coherent_def trace_cache.coherent_def route_cache.coherent_def)

lemma consumeRouted_spans:
  assumes "trace_coherent lib p" "key_safe routes"
  shows "with_spans spanCount (forwarded (fst (consumeRouted lib pc spanCount p td routes)))
      = with_spans spanCount (routed lib pc routes td)"
    and "snd (consumeRouted lib pc spanCount p td routes) = snd (parsedRoutes lib p routes)"
  using trace_coherent_get(2) [OF assms]
  by (auto simp: consumeRouted_def case_prod_unfold Let_def SpanCount_zero route_spans_compiled
      routed_unparseable)

lemma consume_traces_correct:
  assumes "trace_coherent lib p" "trace_ready p (fst r)" "tr_provider p \<noteq> None"
  shows "fst (consume_traces lib pc spanCount p r) =
      with_spans spanCount
        (trace_selected lib pc (routes_now p (fst r)) (trace_demands_now p (fst r)) (snd r))"
    and "trace_coherent lib (snd (consume_traces lib pc spanCount p r))
      \<and> tr_provider (snd (consume_traces lib pc spanCount p r)) = tr_provider p
      \<and> tr_routes (snd (consume_traces lib pc spanCount p r)) = tr_routes p"
proof -
  obtain g where g: "tr_provider p = Some g" using assms(3) by blast
  let ?routes = "routes_now p (fst r)" and ?raws = "g (fst r)"
  have raws: "trace_demands_now p (fst r) = ?raws" by (simp add: trace_demands_now_def g)
  have ready: "?routes \<noteq> [] \<Longrightarrow> key_safe ?routes" "?raws \<noteq> [] \<Longrightarrow> nul_free ?raws"
    using assms(2) by (auto simp: trace_ready_def raws)
  have c: "ConsumeTraces lib pc spanCount p (fst r) (snd r) =
     (if ?routes \<noteq> [] then consumeRouted lib pc spanCount p (snd r) ?routes
      else if ?raws = [] then (Blocked, p)
      else let (selectors, p') = trace_parsedSelectors lib p ?raws in
        if selectors = [] then (Blocked, p')
        else (Forward (filter (\<lambda>rs. any_selector lib selectors (resourceLabels pc (rg_attrs rs))) (snd r)), p'))"
    by (simp add: ConsumeTraces_def g routes_now_def case_prod_unfold Let_def)
  note get = trace_coherent_get(1) [OF assms(1) ready(2)]
    consumeRouted_spans [OF assms(1) ready(1)] trace_coherent_get(2) [OF assms(1) ready(1)]
  show "fst (consume_traces lib pc spanCount p r) =
      with_spans spanCount (trace_selected lib pc ?routes (trace_demands_now p (fst r)) (snd r))"
    using get(1) get(2) [of spanCount pc "snd r"] unfolding raws
    by (auto simp: consume_traces_def c trace_selected_def case_prod_unfold Let_def
        any_parsed_selector parse_all_empty_demands with_spans_def)
  show "trace_coherent lib (snd (consume_traces lib pc spanCount p r))
      \<and> tr_provider (snd (consume_traces lib pc spanCount p r)) = tr_provider p
      \<and> tr_routes (snd (consume_traces lib pc spanCount p r)) = tr_routes p"
    using get(1) get(3) [of pc spanCount "snd r"] get(4) assms(1)
    by (auto simp: consume_traces_def c case_prod_unfold Let_def)
qed

interpretation trace_filter: transparent_cache "consume_traces lib pc spanCount"
    "\<lambda>r. with_spans spanCount
       (trace_selected lib pc (routes_now p0 (fst r)) (trace_demands_now p0 (fst r)) (snd r))"
    "\<lambda>r. trace_ready p0 (fst r)"
    "\<lambda>p. trace_coherent lib p \<and> tr_provider p0 \<noteq> None \<and> tr_provider p = tr_provider p0
      \<and> tr_routes p = tr_routes p0"
  for lib pc spanCount p0
proof (unfold_locales, goal_cases)
  case (1 s r)
  then show ?case using consume_traces_correct(1) [of lib s r]
    by (simp add: routes_now_def trace_demands_now_def trace_ready_def)
next
  case (2 s r)
  then show ?case using consume_traces_correct(2) [of lib s r]
    by (simp add: routes_now_def trace_demands_now_def trace_ready_def)
qed

lemma trace_Start_cache [simp]:
  "trace_cached (trace_Start p exts) = trace_cached p"
  "route_cached (trace_Start p exts) = route_cached p"
  by (induction p exts rule: trace_Start.induct)
    (auto simp: trace_cached_def [abs_def] route_cached_def [abs_def] split: option.splits)

lemma route_key_nonempty: "key_safe routes \<Longrightarrow> route_key routes \<noteq> ''''"
  by (cases routes; cases "tl routes") (auto simp: key_safe_def route_key_def)

lemma trace_coherent_started: "trace_coherent lib (trace_Start newTraceDemandFilterProcessor exts)"
  unfolding trace_coherent_def trace_cache.coherent_def route_cache.coherent_def trace_Start_cache
  by (auto simp: trace_cached_def route_cached_def newTraceDemandFilterProcessor_def ParseDotted_def
      route_key_nonempty dest!: nul_free_empty_key split: if_splits)

section \<open>Properties\<close>

text \<open>C12: over every run of batches, a started trace filter forwards exactly what the demand of
  each moment selects: with routes, for every resource one copy per rule that demands it, in
  the order of the routing table and stamped with the rule's id; without routes, the
  resources some trace selector matches.  Resources without spans are left out of the
  comparison, since a routed batch without spans is dropped as a whole.\<close>

theorem ConsumeTraces_exact:
  assumes "p0 = trace_Start newTraceDemandFilterProcessor exts" and "tr_provider p0 \<noteq> None"
    and "list_all (\<lambda>r. trace_ready p0 (fst r)) batches"
  shows "fst (serve (consume_traces lib pc spanCount) p0 batches) =
    map (\<lambda>(st, td). with_spans spanCount
      (trace_selected lib pc (routes_now p0 st) (trace_demands_now p0 st) td)) batches"
  using trace_filter.serve_fresh [of lib p0 p0 batches pc spanCount] assms
    trace_coherent_started [of lib exts]
  by (simp add: case_prod_unfold)

section \<open>Witness\<close>

definition trace_extension :: "(string list \<times> Route list) extension" where
  "trace_extension = \<lparr>ext_GetDemands = None, ext_GetMetricSelectors = None, ext_GetLogDemands = None,
     ext_GetTraceDemands = Some fst, ext_GetTraceRoutes = Some snd\<rparr>"

definition trace_batch :: "(attr_list, nat) resource_group list" where
  "trace_batch = [\<lparr>rg_attrs = attrs_list [(''service.name'', ''api'')], rg_rest = 3\<rparr>,
                  \<lparr>rg_attrs = attrs_list [(''service.name'', ''web'')], rg_rest = 2\<rparr>]"

definition api_selector :: string where
  "api_selector = ''{resource.service.name='' @ [dquote] @ ''api'' @ [dquote] @ ''}''"

definition api_routes :: "Route list" where
  "api_routes = [\<lparr>Selector = api_selector, FilterID = ''rule-1''\<rparr>, \<lparr>Selector = api_selector, FilterID = ''rule-2''\<rparr>]"

lemma trace_batch_selected:
  "with_spans (\<lambda>n. n) (trace_selected literal_regexp list_pcommon api_routes [] trace_batch)
   = map (\<lambda>fid. stamp list_pcommon fid (hd trace_batch)) [''rule-1'', ''rule-2'']"
  "with_spans (\<lambda>n. n) (trace_selected literal_regexp list_pcommon [] [api_selector] trace_batch)
   = take 1 trace_batch"
  by code_simp+

lemma trace_batch_ready:
  "key_safe api_routes" "nul_free [api_selector]"
  by code_simp+

theorem ConsumeTraces_exact_witness:
  "fst (serve (consume_traces literal_regexp list_pcommon (\<lambda>n. n))
     (trace_Start newTraceDemandFilterProcessor [trace_extension])
     [(([], api_routes), trace_batch), (([api_selector], []), trace_batch)])
   = [map (\<lambda>fid. stamp list_pcommon fid (hd trace_batch)) [''rule-1'', ''rule-2''], take 1 trace_batch]"
  using ConsumeTraces_exact [of "trace_Start newTraceDemandFilterProcessor [trace_extension]"
      "[trace_extension]" "[(([], api_routes), trace_batch), (([api_selector], []), trace_batch)]"
      literal_regexp list_pcommon "\<lambda>n. n"] trace_batch_selected trace_batch_ready
  by (simp add: trace_extension_def trace_ready_def routes_now_def trace_demands_now_def)

end
