(* ===== verification/Metrics_Tracker.thy ===== *)
theory Metrics_Tracker
  imports Metrics_Index Prom_Naming
begin

text \<open>
  The metrics tracker (\<open>src/components/metricstracker\<close>): every batch is exploded into its
  Prometheus series, each series is keyed by the 128-bit hash of its fingerprint, and the
  batch of series with their sample counts is broadcast to the registered receivers.  The
  hash \<open>xxh3.Hash128\<close> is a dependency (argument \<open>xxh3\<close>, high and low word), and the
  shortest decimal form of a float (\<open>strconv.FormatFloat(v, 'g', -1, 64)\<close>) is the argument
  \<open>fmtg\<close>.  Optional debug logging is not modelled.

  The lemmas give the batch in closed form: one entry per distinct series, counting its
  occurrences, provided the hash separates the fingerprints of the batch; the fingerprint
  itself separates series, because the selector parser reads it back.
\<close>

section \<open>Fingerprints (collector\_timeseries.go)\<close>

definition label_text :: "unicode_tables \<Rightarrow> string \<Rightarrow> string \<Rightarrow> string" where
  "label_text u k v = k @ ''='' @ Quote u v"

definition buildFingerprintString :: "unicode_tables \<Rightarrow> string \<Rightarrow> label_map \<Rightarrow> string" where
  "buildFingerprintString u metric attributes =
     (if map_len attributes = 0 then metric
      else metric @ ''{''
        @ Join (map (\<lambda>k. label_text u k (go_get attributes k)) (sorted_keys attributes)) '','' @ ''}'')"

definition extractSortedLabelPairs :: "label_map \<Rightarrow> LabelPair list" where
  "extractSortedLabelPairs attributes =
     (if map_len attributes = 0 then []
      else map (\<lambda>k. \<lparr>LabelName = k, LabelValue = go_get attributes k\<rparr>) (sorted_keys attributes))"

definition buildFingerprintFromEntry :: "unicode_tables \<Rightarrow> TimeseriesEntry \<Rightarrow> string" where
  "buildFingerprintFromEntry u entry =
     (if length (Labels entry) = 0 then MetricName entry
      else MetricName entry @ ''{''
        @ Join (map (\<lambda>lp. label_text u (LabelName lp) (LabelValue lp)) (Labels entry)) '','' @ ''}'')"

text \<open>The loop of \<open>uint64ToBytes\<close> fills the array from its last byte.\<close>

fun uint64_loop :: "nat \<Rightarrow> 64 word \<Rightarrow> string \<Rightarrow> string" where
  "uint64_loop n v b =
     (if n = 0 then b
      else uint64_loop (n - 1) (drop_bit 8 v) (byte (unat (and v 0xff)) # b))"

declare uint64_loop.simps [simp del]

definition uint64ToBytes :: "64 word \<Rightarrow> string" where
  "uint64ToBytes v = uint64_loop 8 v []"

fun bytesToHex :: "string \<Rightarrow> string" where
  "bytesToHex [] = []"
| "bytesToHex (c # b) = lowerhex (ord c div 16) # lowerhex (ord c mod 16) # bytesToHex b"

section \<open>The collector (collector\_timeseries.go)\<close>

record CollectorTimeseries =
  data :: "(HashKey, TimeseriesEntry) fmap"

definition NewCollectorTimeseries :: CollectorTimeseries where
  "NewCollectorTimeseries = \<lparr>data = fmempty\<rparr>"

definition collector_Init :: "CollectorTimeseries \<Rightarrow> CollectorTimeseries" where
  "collector_Init c = c\<lparr>data := fmempty\<rparr>"

definition collector_Clear :: "CollectorTimeseries \<Rightarrow> CollectorTimeseries" where
  "collector_Clear c = c\<lparr>data := fmempty\<rparr>"

definition collector_Len :: "CollectorTimeseries \<Rightarrow> nat" where
  "collector_Len c = map_len (data c)"

type_synonym hash128 = "string \<Rightarrow> 64 word \<times> 64 word"

definition hashKey :: "hash128 \<Rightarrow> string \<Rightarrow> HashKey" where
  "hashKey xxh3 fingerprint =
     (let (hi, lo) = xxh3 fingerprint in uint64ToBytes hi @ uint64ToBytes lo)"

definition AddTimeseries ::
    "unicode_tables \<Rightarrow> hash128 \<Rightarrow> CollectorTimeseries \<Rightarrow> string \<Rightarrow> label_map \<Rightarrow> CollectorTimeseries" where
  "AddTimeseries u xxh3 c metric attributes =
     (let key = hashKey xxh3 (buildFingerprintString u metric attributes) in
      case fmlookup (data c) key of
        Some entry \<Rightarrow> c\<lparr>data := fmupd key (entry\<lparr>Samples := Samples entry + 1\<rparr>) (data c)\<rparr>
      | None \<Rightarrow>
          c\<lparr>data := fmupd key \<lparr>MetricName = metric, Labels = extractSortedLabelPairs attributes, Samples = 1\<rparr>
             (data c)\<rparr>)"

text \<open>\<open>Broadcast\<close> hands a deep copy to the receivers: equal content, no sharing.\<close>

definition copy_entry :: "TimeseriesEntry \<Rightarrow> TimeseriesEntry" where
  "copy_entry v = \<lparr>MetricName = MetricName v, Labels = map (\<lambda>lp. lp) (Labels v), Samples = Samples v\<rparr>"

definition Broadcast ::
    "('r \<Rightarrow> TimeseriesBatch \<Rightarrow> 's \<Rightarrow> 's) \<Rightarrow> 'r list \<Rightarrow> CollectorTimeseries \<Rightarrow> 's \<Rightarrow> 's" where
  "Broadcast receive receivers c st =
     BroadcastTimeseriesBatch receive receivers \<lparr>Data = fmmap copy_entry (data c)\<rparr> st"

section \<open>The processor (processor.go)\<close>

definition buildPromLabelMap ::
    "unicode_tables \<Rightarrow> ('m, 'v) pcommon \<Rightarrow> 'm \<Rightarrow> 'm \<Rightarrow> (string \<times> string) list \<Rightarrow> label_map" where
  "buildPromLabelMap u pc resAttrs pointAttrs extraLabels =
     BuildSeriesLabels u pc resAttrs pointAttrs extraLabels"

definition processPromSeries ::
    "unicode_tables \<Rightarrow> ('m, 'v) pcommon \<Rightarrow> hash128 \<Rightarrow> string \<Rightarrow> 'm \<Rightarrow> 'm \<Rightarrow> (string \<times> string) list
     \<Rightarrow> CollectorTimeseries \<Rightarrow> CollectorTimeseries" where
  "processPromSeries u pc xxh3 metricName resAttrs pointAttrs extraLabels batch =
     AddTimeseries u xxh3 batch metricName (buildPromLabelMap u pc resAttrs pointAttrs extraLabels)"

text \<open>The accessor \<open>HasSum\<close> of the datapoint exists, so the first type test succeeds.\<close>

definition hasHistogramSum :: "('m, 'x) histogram_dp \<Rightarrow> bool" where
  "hasHistogramSum dp = hasSum dp"

definition float64ToPromString :: "(float64 \<Rightarrow> string) \<Rightarrow> float64 \<Rightarrow> string" where
  "float64ToPromString fmtg v = fmtg v"

definition processTimeSeriesProm ::
    "unicode_tables \<Rightarrow> ('m, 'v) pcommon \<Rightarrow> namer \<Rightarrow> (float64 \<Rightarrow> string) \<Rightarrow> hash128 \<Rightarrow> 'm
     \<Rightarrow> ('m, 'x) metric \<Rightarrow> CollectorTimeseries \<Rightarrow> CollectorTimeseries" where
  "processTimeSeriesProm u pc namer fmtg xxh3 resAttrs m batch =
     (let base = BaseName namer m;
          add = (\<lambda>name attrs extra b. processPromSeries u pc xxh3 name resAttrs attrs extra b)
      in case metric_data m of
        MetricTypeGauge dps \<Rightarrow> fold (\<lambda>dp. add base (dp_attrs dp) []) dps batch
      | MetricTypeSum _ _ dps \<Rightarrow> fold (\<lambda>dp. add base (dp_attrs dp) []) dps batch
      | MetricTypeHistogram dps \<Rightarrow>
          fold (\<lambda>dp b.
              let b = fold (\<lambda>bound. add (base @ ''_bucket'') (dp_attrs dp) [(''le'', float64ToPromString fmtg bound)])
                        (explicitBounds dp) b;
                  b = add (base @ ''_bucket'') (dp_attrs dp) [(''le'', ''+Inf'')] b;
                  b = (if hasHistogramSum dp then add (base @ ''_sum'') (dp_attrs dp) [] b else b)
              in add (base @ ''_count'') (dp_attrs dp) [] b) dps batch
      | MetricTypeExponentialHistogram dps \<Rightarrow> fold (\<lambda>dp. add base (dp_attrs dp) []) dps batch
      | MetricTypeSummary dps \<Rightarrow>
          fold (\<lambda>dp b.
              let b = fold (\<lambda>q. add base (dp_attrs dp) [(''quantile'', float64ToPromString fmtg q)]) (quantiles dp) b;
                  b = add (base @ ''_sum'') (dp_attrs dp) [] b
              in add (base @ ''_count'') (dp_attrs dp) [] b) dps batch
      | MetricTypeEmpty \<Rightarrow> batch)"

definition trackMetrics ::
    "unicode_tables \<Rightarrow> ('m, 'v) pcommon \<Rightarrow> namer \<Rightarrow> (float64 \<Rightarrow> string) \<Rightarrow> hash128 \<Rightarrow> ('m, 'x) metrics
     \<Rightarrow> CollectorTimeseries \<Rightarrow> CollectorTimeseries" where
  "trackMetrics u pc namer fmtg xxh3 md batch =
     fold (\<lambda>rm. fold (\<lambda>sm. fold (\<lambda>m. processTimeSeriesProm u pc namer fmtg xxh3 (rm_attrs rm) m)
              (sm_metrics sm)) (rm_scopes rm)) md batch"

definition tracker_ConsumeMetrics ::
    "unicode_tables \<Rightarrow> ('m, 'v) pcommon \<Rightarrow> namer \<Rightarrow> (float64 \<Rightarrow> string) \<Rightarrow> hash128
     \<Rightarrow> ('r \<Rightarrow> TimeseriesBatch \<Rightarrow> 's \<Rightarrow> 's) \<Rightarrow> 'r list \<Rightarrow> ('m, 'x) metrics \<Rightarrow> 's
     \<Rightarrow> ('m, 'x) metrics outcome \<times> 's" where
  "tracker_ConsumeMetrics u pc namer fmtg xxh3 receive receivers md st =
     (let batch = trackMetrics u pc namer fmtg xxh3 md NewCollectorTimeseries
      in (Forward md, Broadcast receive receivers batch st))"

text \<open>The names \<open>logMetricProm\<close> writes, in order.\<close>

definition logMetricProm :: "namer \<Rightarrow> ('m, 'x) metric \<Rightarrow> string list" where
  "logMetricProm namer m =
     (let base = BaseName namer m in
      case metric_data m of
        MetricTypeGauge _ \<Rightarrow> [base]
      | MetricTypeSum _ _ _ \<Rightarrow> [base]
      | MetricTypeHistogram _ \<Rightarrow> [base @ ''_bucket'', base @ ''_sum'', base @ ''_count'']
      | MetricTypeExponentialHistogram _ \<Rightarrow> [base]
      | MetricTypeSummary _ \<Rightarrow> [base, base @ ''_sum'', base @ ''_count'']
      | MetricTypeEmpty \<Rightarrow> [])"

section \<open>The series of a batch\<close>

text \<open>A series as name, resource, datapoint attributes and extra label.\<close>

type_synonym 'm raw_series = "string \<times> 'm \<times> 'm \<times> (string \<times> string) list"

definition histogram_series ::
    "(float64 \<Rightarrow> string) \<Rightarrow> string \<Rightarrow> 'm \<Rightarrow> ('m, 'x) histogram_dp \<Rightarrow> 'm raw_series list" where
  "histogram_series fmtg base res dp =
     map (\<lambda>b. (base @ ''_bucket'', res, dp_attrs dp, [(''le'', fmtg b)])) (explicitBounds dp)
     @ [(base @ ''_bucket'', res, dp_attrs dp, [(''le'', ''+Inf'')])]
     @ (if hasSum dp then [(base @ ''_sum'', res, dp_attrs dp, [])] else [])
     @ [(base @ ''_count'', res, dp_attrs dp, [])]"

definition summary_series ::
    "(float64 \<Rightarrow> string) \<Rightarrow> string \<Rightarrow> 'm \<Rightarrow> ('m, 'x) summary_dp \<Rightarrow> 'm raw_series list" where
  "summary_series fmtg base res dp =
     map (\<lambda>q. (base, res, dp_attrs dp, [(''quantile'', fmtg q)])) (quantiles dp)
     @ [(base @ ''_sum'', res, dp_attrs dp, []), (base @ ''_count'', res, dp_attrs dp, [])]"

definition metric_series ::
    "namer \<Rightarrow> (float64 \<Rightarrow> string) \<Rightarrow> 'm \<Rightarrow> ('m, 'x) metric \<Rightarrow> 'm raw_series list" where
  "metric_series namer fmtg res m =
     (let base = BaseName namer m in
      case metric_data m of
        MetricTypeGauge dps \<Rightarrow> map (\<lambda>dp. (base, res, dp_attrs dp, [])) dps
      | MetricTypeSum _ _ dps \<Rightarrow> map (\<lambda>dp. (base, res, dp_attrs dp, [])) dps
      | MetricTypeHistogram dps \<Rightarrow> concat (map (histogram_series fmtg base res) dps)
      | MetricTypeExponentialHistogram dps \<Rightarrow> map (\<lambda>dp. (base, res, dp_attrs dp, [])) dps
      | MetricTypeSummary dps \<Rightarrow> concat (map (summary_series fmtg base res) dps)
      | MetricTypeEmpty \<Rightarrow> [])"

definition batch_series ::
    "unicode_tables \<Rightarrow> ('m, 'v) pcommon \<Rightarrow> namer \<Rightarrow> (float64 \<Rightarrow> string) \<Rightarrow> ('m, 'x) metrics
     \<Rightarrow> (string \<times> label_map) list" where
  "batch_series u pc namer fmtg md =
     map (\<lambda>(name, res, pt, extra). (name, BuildSeriesLabels u pc res pt extra))
       (concat (map (\<lambda>rm. concat (map (\<lambda>sm. concat (map (metric_series namer fmtg (rm_attrs rm))
          (sm_metrics sm))) (rm_scopes rm))) md))"

definition add_series ::
    "unicode_tables \<Rightarrow> hash128 \<Rightarrow> string \<times> label_map \<Rightarrow> CollectorTimeseries \<Rightarrow> CollectorTimeseries" where
  "add_series u xxh3 s c = AddTimeseries u xxh3 c (fst s) (snd s)"

abbreviation add_raw ::
    "unicode_tables \<Rightarrow> ('m, 'v) pcommon \<Rightarrow> hash128 \<Rightarrow> 'm raw_series \<Rightarrow> CollectorTimeseries
     \<Rightarrow> CollectorTimeseries" where
  "add_raw u pc xxh3 \<equiv> \<lambda>(name, res, pt, extra). processPromSeries u pc xxh3 name res pt extra"

lemma fold_concat_map: "fold f (concat (map g xs)) = fold (\<lambda>x. fold f (g x)) xs"
  by (induction xs) (simp_all add: fun_eq_iff)

lemma fold_histogram_series:
  "fold (add_raw u pc xxh3) (histogram_series fmtg base res dp) = (\<lambda>b.
      let b = fold (\<lambda>bound. processPromSeries u pc xxh3 (base @ ''_bucket'') res (dp_attrs dp)
                [(''le'', fmtg bound)]) (explicitBounds dp) b;
          b = processPromSeries u pc xxh3 (base @ ''_bucket'') res (dp_attrs dp) [(''le'', ''+Inf'')] b;
          b = (if hasSum dp then processPromSeries u pc xxh3 (base @ ''_sum'') res (dp_attrs dp) [] b else b)
      in processPromSeries u pc xxh3 (base @ ''_count'') res (dp_attrs dp) [] b)"
  by (rule ext) (simp add: histogram_series_def fold_map comp_def Let_def)

lemma fold_summary_series:
  "fold (add_raw u pc xxh3) (summary_series fmtg base res dp) = (\<lambda>b.
      let b = fold (\<lambda>q. processPromSeries u pc xxh3 base res (dp_attrs dp) [(''quantile'', fmtg q)])
                (quantiles dp) b;
          b = processPromSeries u pc xxh3 (base @ ''_sum'') res (dp_attrs dp) [] b
      in processPromSeries u pc xxh3 (base @ ''_count'') res (dp_attrs dp) [] b)"
  by (rule ext) (simp add: summary_series_def fold_map comp_def Let_def)

lemma processTimeSeriesProm_series:
  "processTimeSeriesProm u pc namer fmtg xxh3 res m b
   = fold (add_raw u pc xxh3) (metric_series namer fmtg res m) b"
  by (cases "metric_data m")
    (simp_all add: processTimeSeriesProm_def metric_series_def hasHistogramSum_def float64ToPromString_def Let_def fold_map comp_def fold_concat_map
      fold_histogram_series [unfolded Let_def] fold_summary_series [unfolded Let_def])

lemma trackMetrics_series:
  "trackMetrics u pc namer fmtg xxh3 md b = fold (add_series u xxh3) (batch_series u pc namer fmtg md) b"
proof -
  have "add_raw u pc xxh3 s b' = add_series u xxh3
      ((\<lambda>(name, res, pt, extra). (name, BuildSeriesLabels u pc res pt extra)) s) b'" for s b'
    by (cases s) (simp add: add_series_def processPromSeries_def buildPromLabelMap_def)
  then have "add_raw u pc xxh3 =
      add_series u xxh3 \<circ> (\<lambda>(name, res, pt, extra). (name, BuildSeriesLabels u pc res pt extra))"
    by (intro ext) simp
  then show ?thesis
    unfolding trackMetrics_def batch_series_def processTimeSeriesProm_series
    by (simp add: fold_map fold_concat_map)
qed

section \<open>The entries of a batch\<close>

definition series_key :: "unicode_tables \<Rightarrow> hash128 \<Rightarrow> string \<times> label_map \<Rightarrow> HashKey" where
  "series_key u xxh3 s = hashKey xxh3 (buildFingerprintString u (fst s) (snd s))"

lemma add_series_lookup:
  "fmlookup (data (fold (add_series u xxh3) ss NewCollectorTimeseries)) h =
     (case filter (\<lambda>s. series_key u xxh3 s = h) ss of
        [] \<Rightarrow> None
      | s # same \<Rightarrow> Some \<lparr>MetricName = fst s, Labels = extractSortedLabelPairs (snd s),
                       Samples = int (length (s # same))\<rparr>)"
proof (induction ss arbitrary: h rule: rev_induct)
  case Nil
  then show ?case by (simp add: NewCollectorTimeseries_def)
next
  case (snoc s ss)
  let ?k = "series_key u xxh3 s"
  let ?c = "fold (add_series u xxh3) ss NewCollectorTimeseries"
  have k: "hashKey xxh3 (buildFingerprintString u (fst s) (snd s)) = ?k" by (simp add: series_key_def)
  show ?case
  proof (cases "filter (\<lambda>s. series_key u xxh3 s = ?k) ss")
    case Nil
    then show ?thesis using snoc [of h] snoc [of ?k]
      by (auto simp: add_series_def AddTimeseries_def k Let_def split: list.splits)
  next
    case (Cons a as)
    then show ?thesis using snoc [of h] snoc [of ?k]
      by (auto simp: add_series_def AddTimeseries_def k Let_def split: list.splits)
  qed
qed

section \<open>Fingerprints separate series\<close>

text \<open>A metric name without an opening brace and label names of the grammar, which is what
  Prometheus names are.\<close>

definition series_ok :: "string \<times> label_map \<Rightarrow> bool" where
  "series_ok s \<longleftrightarrow> CHR ''{'' \<notin> set (fst s) \<and> list_all (valid_name False) (sorted_keys (snd s))"

definition label_selector :: "label_map \<Rightarrow> string selector" where
  "label_selector l =
     \<lparr>Matchers = map (\<lambda>k. \<lparr>Name = k, Op = OpEq, Value = go_get l k, re = None\<rparr>) (sorted_keys l)\<rparr>"

lemma label_selector_wf:
  "l \<noteq> fmempty \<Longrightarrow> list_all (valid_name False) (sorted_keys l) \<Longrightarrow>
   wf_selector literal_regexp False (label_selector l)"
  by (auto simp: wf_selector_def label_selector_def wf_matcher_def is_regex_op_def list_all_iff
      sorted_keys_empty_iff)

lemma fingerprint_render:
  "l \<noteq> fmempty \<Longrightarrow> buildFingerprintString u m l = m @ render_selector u (label_selector l)"
  by (simp add: buildFingerprintString_def render_selector_def label_selector_def render_matcher_def
      label_text_def comp_def)

lemma label_selector_inject:
  assumes "label_selector l = label_selector l'"
  shows "l = l'"
proof (rule fmap_ext)
  fix k
  have keys: "sorted_keys l = sorted_keys l'"
    using arg_cong [OF assms, of "\<lambda>s. map Name (Matchers s)"] by (simp add: label_selector_def comp_def)
  have "map (go_get l) (sorted_keys l) = map (go_get l') (sorted_keys l)"
    using arg_cong [OF assms, of "\<lambda>s. map Value (Matchers s)"]
    by (simp add: label_selector_def comp_def keys)
  then show "fmlookup l k = fmlookup l' k"
    unfolding lookup_go_get [of l] lookup_go_get [of l'] by (simp add: keys)
qed

lemma fingerprint_inject:
  assumes "series_ok (m, l)" "series_ok (m', l')"
    and "buildFingerprintString u m l = buildFingerprintString u m' l'"
  shows "m = m' \<and> l = l'"
proof -
  have brace: "CHR ''{'' \<in> set (buildFingerprintString u n k)" if "k \<noteq> fmempty" for n k
    using that by (simp add: fingerprint_render render_selector_def)
  show ?thesis
  proof (cases "l = fmempty \<or> l' = fmempty")
    case True
    then show ?thesis using assms brace [of l m] brace [of l' m']
      by (auto simp: series_ok_def buildFingerprintString_def split: if_splits)
  next
    case False
    then have "m @ render_selector u (label_selector l) = m' @ render_selector u (label_selector l')"
      using assms(3) by (simp add: fingerprint_render)
    moreover have "CHR ''{'' \<notin> set m" "CHR ''{'' \<notin> set m'" using assms(1,2) by (simp_all add: series_ok_def)
    ultimately have "m = m' \<and> render_selector u (label_selector l) = render_selector u (label_selector l')"
      unfolding render_selector_def by (simp add: append_sep_inject)
    moreover have "parse literal_regexp (render_selector u (label_selector l)) False = Inr (label_selector l)"
      "parse literal_regexp (render_selector u (label_selector l')) False = Inr (label_selector l')"
      using assms False by (auto simp: series_ok_def intro!: parse_render_selector label_selector_wf)
    ultimately show ?thesis using label_selector_inject by (metis sum.inject(2))
  qed
qed

section \<open>Keys\<close>

lemma length_uint64_loop: "length (uint64_loop n v b) = n + length b"
proof (induction n arbitrary: v b)
  case 0
  then show ?case by (simp add: uint64_loop.simps)
next
  case (Suc n)
  then show ?case by (subst uint64_loop.simps) simp
qed

lemma length_uint64ToBytes [simp]: "length (uint64ToBytes v) = 8"
  by (simp add: uint64ToBytes_def length_uint64_loop)

lemma hash_key_ok_hashKey: "hash_key_ok (hashKey xxh3 fp)"
  by (simp add: hash_key_ok_def hashKey_def case_prod_unfold Let_def)

text \<open>The value of a big-endian byte string.\<close>

definition be_value :: "string \<Rightarrow> nat" where
  "be_value b = foldl (\<lambda>n c. 256 * n + ord c) 0 b"

lemma be_value_Cons: "be_value (c # b) = ord c * 256 ^ length b + be_value b"
proof -
  have "foldl (\<lambda>n c. 256 * n + ord c) k b = k * 256 ^ length b + foldl (\<lambda>n c. 256 * n + ord c) 0 b" for k
  proof (induction b arbitrary: k)
    case (Cons c b)
    show ?case using Cons [of "256 * k + ord c"] Cons [of "ord c"] by (simp add: algebra_simps)
  qed simp
  from this [of "ord c"] show ?thesis by (simp add: be_value_def)
qed

lemma unat_low_byte: "unat (and v 0xff :: 64 word) = unat v mod 256"
proof -
  have "and v 0xff = v mod 256"
    by (simp add: take_bit_eq_mask mask_eq_exp_minus_1 flip: take_bit_eq_mod [of 8, simplified])
  then show ?thesis by (simp add: unat_mod)
qed

lemma uint64_loop_value:
  "be_value (uint64_loop n v b) =
   (unat v mod 256 ^ n) * 256 ^ length b + be_value b"
proof (induction n arbitrary: v b)
  case 0
  then show ?case by (simp add: uint64_loop.simps)
next
  case (Suc n)
  have "unat (drop_bit 8 v) = unat v div 256" by (simp add: drop_bit_eq_div unat_div)
  moreover have "unat v mod (256 * 256 ^ n) = unat v mod 256 + 256 * (unat v div 256 mod 256 ^ n)"
    by (simp add: mod_mult2_eq)
  ultimately show ?case
    by (subst uint64_loop.simps) (simp add: Suc be_value_Cons unat_low_byte algebra_simps)
qed

lemma uint64ToBytes_value: "be_value (uint64ToBytes v) = unat v"
proof -
  have "unat v < 256 ^ 8" using unsigned_less [of v] by simp
  then show ?thesis using uint64_loop_value [of 8 v "[]"]
    by (simp add: uint64ToBytes_def) (simp add: be_value_def)
qed

lemma uint64ToBytes_inject [simp]: "uint64ToBytes v = uint64ToBytes w \<longleftrightarrow> v = w"
  by (metis uint64ToBytes_value word_unat_eq_iff)

lemma hashKey_inject: "hashKey xxh3 f = hashKey xxh3 g \<longleftrightarrow> xxh3 f = xxh3 g"
  by (auto simp: hashKey_def case_prod_unfold Let_def prod_eq_iff)

lemma bytesToHex_EncodeToString: "bytesToHex b = EncodeToString b"
  by (induction b) simp_all

lemma buildFingerprintFromEntry_eq:
  "buildFingerprintFromEntry u
     \<lparr>MetricName = m, Labels = extractSortedLabelPairs l, Samples = n\<rparr> = buildFingerprintString u m l"
  by (auto simp: buildFingerprintFromEntry_def extractSortedLabelPairs_def buildFingerprintString_def
      sorted_keys_empty_iff comp_def)

section \<open>Properties\<close>

text \<open>The hash separates the fingerprints of the given series.\<close>

definition collision_free :: "unicode_tables \<Rightarrow> hash128 \<Rightarrow> (string \<times> label_map) list \<Rightarrow> bool" where
  "collision_free u xxh3 ss \<longleftrightarrow>
     inj_on xxh3 ((\<lambda>s. buildFingerprintString u (fst s) (snd s)) ` set ss)"

lemma series_key_eq:
  assumes "collision_free u xxh3 ss" "list_all series_ok ss" "s \<in> set ss" "t \<in> set ss"
  shows "series_key u xxh3 s = series_key u xxh3 t \<longleftrightarrow> s = t"
proof -
  have "series_ok s" "series_ok t" using assms by (auto simp: list_all_iff)
  then have "buildFingerprintString u (fst s) (snd s) = buildFingerprintString u (fst t) (snd t) \<longleftrightarrow> s = t"
    using fingerprint_inject [of "fst s" "snd s" "fst t" "snd t" u] by (auto simp: prod_eq_iff)
  moreover have "xxh3 (buildFingerprintString u (fst s) (snd s)) = xxh3 (buildFingerprintString u (fst t) (snd t))
    \<longleftrightarrow> buildFingerprintString u (fst s) (snd s) = buildFingerprintString u (fst t) (snd t)"
    using assms unfolding collision_free_def by (intro inj_on_eq_iff) auto
  ultimately show ?thesis by (simp add: series_key_def hashKey_inject)
qed

lemma track_entries:
  assumes "ss = batch_series u pc namer fmtg md"
    and "collision_free u xxh3 ss" and "list_all series_ok ss"
  shows "(\<forall>s \<in> set ss. fmlookup (data (trackMetrics u pc namer fmtg xxh3 md NewCollectorTimeseries))
            (series_key u xxh3 s) =
          Some \<lparr>MetricName = fst s, Labels = extractSortedLabelPairs (snd s), Samples = int (count_list ss s)\<rparr>)
    \<and> fset (fmdom (data (trackMetrics u pc namer fmtg xxh3 md NewCollectorTimeseries))) = series_key u xxh3 ` set ss"
proof (intro conjI ballI)
  fix s assume s: "s \<in> set ss"
  have "filter (\<lambda>t. series_key u xxh3 t = series_key u xxh3 s) ss = filter ((=) s) ss"
    using series_key_eq [OF assms(2,3) _ s] by (intro filter_cong) auto
  also have "\<dots> = replicate (count_list ss s) s"
    by (induction ss) auto
  finally have f: "filter (\<lambda>t. series_key u xxh3 t = series_key u xxh3 s) ss = replicate (count_list ss s) s" .
  moreover have "count_list ss s \<noteq> 0" using s by (simp add: count_list_0_iff)
  then obtain n where "count_list ss s = Suc n" by (cases "count_list ss s") auto
  ultimately show "fmlookup (data (trackMetrics u pc namer fmtg xxh3 md NewCollectorTimeseries))
      (series_key u xxh3 s) =
      Some \<lparr>MetricName = fst s, Labels = extractSortedLabelPairs (snd s), Samples = int (count_list ss s)\<rparr>"
    unfolding trackMetrics_series assms(1) [symmetric] add_series_lookup by simp
next
  have "h |\<in>| fmdom (data (fold (add_series u xxh3) ss NewCollectorTimeseries))
    \<longleftrightarrow> filter (\<lambda>s. series_key u xxh3 s = h) ss \<noteq> []" for h
    unfolding fmlookup_dom_iff add_series_lookup by (auto split: list.splits)
  then show "fset (fmdom (data (trackMetrics u pc namer fmtg xxh3 md NewCollectorTimeseries)))
      = series_key u xxh3 ` set ss"
    unfolding trackMetrics_series assms(1) [symmetric] by (auto simp: filter_empty_conv)
qed

text \<open>Tracking a batch builds one entry per distinct series of the batch, under the key of
  its fingerprint, with the series' name and sorted labels and the number of times the series
  occurs, and nothing else; provided the hash has no collision in the batch and the names
  follow the grammar.\<close>

theorem trackMetrics_entries:
  assumes "ss = batch_series u pc namer fmtg md"
    and "collision_free u xxh3 ss" and "list_all series_ok ss"
  shows "(\<forall>s \<in> set ss. fmlookup (data (trackMetrics u pc namer fmtg xxh3 md NewCollectorTimeseries))
            (series_key u xxh3 s) =
          Some \<lparr>MetricName = fst s, Labels = extractSortedLabelPairs (snd s), Samples = int (count_list ss s)\<rparr>)
    \<and> fset (fmdom (data (trackMetrics u pc namer fmtg xxh3 md NewCollectorTimeseries))) = series_key u xxh3 ` set ss"
  using assms by (rule track_entries)

text \<open>The key of a fingerprint is the big-endian image of the hash: it has 16 bytes, its two
  halves carry the high and the low word, and its hexadecimal text determines the hash.\<close>

theorem hashKey_faithful:
  "hash_key_ok (hashKey xxh3 fp)
   \<and> be_value (take 8 (hashKey xxh3 fp)) = unat (fst (xxh3 fp))
   \<and> be_value (drop 8 (hashKey xxh3 fp)) = unat (snd (xxh3 fp))
   \<and> DecodeString (bytesToHex (hashKey xxh3 fp)) = Some (hashKey xxh3 fp)"
  by (simp add: hash_key_ok_hashKey bytesToHex_EncodeToString)
    (simp add: hashKey_def case_prod_unfold Let_def uint64ToBytes_value)

section \<open>Witness\<close>

definition toy_hash :: hash128 where
  "toy_hash s = (of_nat (length s), of_nat (sum_list (map ord s)))"

definition counter_batch :: "(attr_list, nat) metrics" where
  "counter_batch =
     [\<lparr>rm_attrs = attrs_list [(''service.name'', ''api'')],
       rm_scopes = [\<lparr>sm_metrics = [\<lparr>metric_name = ''up'', metric_unit = '''',
           metric_data = MetricTypeGauge
             [\<lparr>dp_attrs = attrs_empty, dp_rest = 1\<rparr>, \<lparr>dp_attrs = attrs_empty, dp_rest = 2\<rparr>]\<rparr>], sm_rest = 0\<rparr>],
       rm_rest = 0\<rparr>]"

definition up_series :: "string \<times> label_map" where
  "up_series = (''up'', fmupd ''job'' ''api'' (fmupd ''service_name'' ''api'' fmempty))"

lemma counter_batch_series:
  "batch_series latin_tables list_pcommon plain_namer (\<lambda>f. '''') counter_batch = [up_series, up_series]"
  by code_simp

lemma up_series_ok: "series_ok up_series"
  by code_simp

theorem trackMetrics_entries_witness:
  "fmlookup (data (trackMetrics latin_tables list_pcommon plain_namer (\<lambda>f. '''') toy_hash counter_batch
       NewCollectorTimeseries)) (series_key latin_tables toy_hash up_series)
   = Some \<lparr>MetricName = ''up'', Labels = extractSortedLabelPairs (snd up_series), Samples = 2\<rparr>"
proof -
  have "collision_free latin_tables toy_hash [up_series, up_series]" "list_all series_ok [up_series, up_series]"
    using up_series_ok by (simp_all add: collision_free_def)
  from trackMetrics_entries [OF counter_batch_series [symmetric] this] show ?thesis
    by (simp add: up_series_def)
qed

end
