(* ===== verification/Demand_Pipeline.thy ===== *)
theory Demand_Pipeline
  imports Edge_Controller Demand_Filter Log_Demand_Filter Trace_Demand_Filter Metrics_Tracker
begin

text \<open>
  Facts that join components: the tracker and the metrics filter see the same series of a
  datapoint, and the edge controller is the provider the three filters find.  The series of a
  batch are written as a function of its flat list of datapoints, so that the filter's effect
  on the flat list is its effect on the tracked series.
\<close>

section \<open>The series of a datapoint\<close>

definition dp_series ::
    "namer \<Rightarrow> (float64 \<Rightarrow> string) \<Rightarrow> ('m, 'x) flat_dp \<Rightarrow> 'm raw_series list" where
  "dp_series namer fmtg f =
     (let base = BaseName namer (f_metric f) in
      case f_dp f of
        NumberDP d \<Rightarrow> [(base, f_resource f, dp_attrs d, [])]
      | HistogramDP d \<Rightarrow> histogram_series fmtg base (f_resource f) d
      | SummaryDP d \<Rightarrow> summary_series fmtg base (f_resource f) d)"

definition labelled ::
    "unicode_tables \<Rightarrow> ('m, 'v) pcommon \<Rightarrow> 'm raw_series \<Rightarrow> string \<times> label_map" where
  "labelled u pc s = (case s of (name, res, pt, extra) \<Rightarrow> (name, BuildSeriesLabels u pc res pt extra))"

lemma metric_series_flat:
  "metric_series namer fmtg (rm_attrs rm) m = concat (map (dp_series namer fmtg) (flat_metric rm sm m))"
  by (cases "metric_data m")
    (simp_all add: metric_series_def flat_metric_def dp_series_def Let_def comp_def concat_map_singleton)

lemma concat_map_concat: "concat (map f (concat xss)) = concat (map (\<lambda>xs. concat (map f xs)) xss)"
  by (induction xss) simp_all

lemma batch_series_flat:
  "batch_series u pc namer fmtg md = map (labelled u pc) (concat (map (dp_series namer fmtg) (flat md)))"
proof -
  have "concat (map (\<lambda>rm. concat (map (\<lambda>sm. concat (map (metric_series namer fmtg (rm_attrs rm))
          (sm_metrics sm))) (rm_scopes rm))) md) = concat (map (dp_series namer fmtg) (flat md))"
    by (simp add: flat_def flat_resource_def flat_scope_def concat_map_concat comp_def
        metric_series_flat [symmetric])
  then show ?thesis unfolding batch_series_def labelled_def by simp
qed

text \<open>The kind of a flat datapoint is that of its metric.\<close>

lemma flat_kind:
  assumes "f \<in> set (flat md)"
  shows "case f_dp f of
      NumberDP _ \<Rightarrow> familyNames (f_metric f) base = [base]
    | HistogramDP _ \<Rightarrow> familyNames (f_metric f) base = [base @ ''_bucket'', base @ ''_sum'', base @ ''_count'']
    | SummaryDP _ \<Rightarrow> familyNames (f_metric f) base = [base, base @ ''_sum'', base @ ''_count'']"
proof -
  obtain rm sm m d where f: "f \<in> set (flat_metric rm sm m)"
    using assms by (auto simp: flat_def flat_resource_def flat_scope_def)
  then show ?thesis
    by (cases "metric_data m") (auto simp: flat_metric_def familyNames_def header_def)
qed

lemma dp_series_cases:
  assumes "f \<in> set (flat md)" "(name, res, pt, extra) \<in> set (dp_series namer fmtg f)"
  shows "name \<in> set (familyNames (f_metric f) (BaseName namer (f_metric f)))"
    and "res = f_resource f" and "pt = any_attrs (f_dp f)"
    and "extra = [] \<or> (\<exists>v. extra = [(''le'', v)] \<or> extra = [(''quantile'', v)])"
  using assms(2) flat_kind [OF assms(1), of "BaseName namer (f_metric f)"]
  by (auto simp: dp_series_def Let_def histogram_series_def summary_series_def
      split: any_dp.splits if_splits)

lemma bucket_label_names: "NormalizeLabelName u ''le'' = ''le''" "NormalizeLabelName u ''quantile'' = ''quantile''"
proof -
  have b: "byte 108 = CHR ''l''" "byte 101 = CHR ''e''" "byte 113 = CHR ''q''" "byte 117 = CHR ''u''"
    "byte 97 = CHR ''a''" "byte 110 = CHR ''n''" "byte 116 = CHR ''t''" "byte 105 = CHR ''i''"
    by code_simp+
  show "NormalizeLabelName u ''le'' = ''le''" "NormalizeLabelName u ''quantile'' = ''quantile''"
    by (simp_all add: NormalizeLabelName_def MapRunes_ascii label_rune_def IsLetter_def IsDigit_def HasPrefix_def
        Let_def b)
qed

text \<open>The extra label of a bucket or quantile series is the only difference to the datapoint's
  own labels.\<close>

lemma series_labels_get:
  assumes "extra = [] \<or> (\<exists>v. extra = [(''le'', v)] \<or> extra = [(''quantile'', v)])" "n \<noteq> ''le''" "n \<noteq> ''quantile''"
  shows "go_get (BuildSeriesLabels u pc res pt extra) n = go_get (BuildSeriesLabels u pc res pt []) n"
  using assms by (auto simp: BuildSeriesLabels_def Let_def go_get_def bucket_label_names)

lemma selector_demands_extra:
  assumes "extra = [] \<or> (\<exists>v. extra = [(''le'', v)] \<or> extra = [(''quantile'', v)])"
  shows "selector_demands lib sel name (BuildSeriesLabels u pc res pt extra)
    \<longleftrightarrow> selector_demands lib sel name (BuildSeriesLabels u pc res pt [])"
proof -
  have "(Name m = ''le'' \<or> Name m = ''quantile'' \<or> MatchValue lib m
          (if Name m = ''__name__'' then name else go_get (BuildSeriesLabels u pc res pt extra) (Name m)))
      \<longleftrightarrow> (Name m = ''le'' \<or> Name m = ''quantile'' \<or> MatchValue lib m
          (if Name m = ''__name__'' then name else go_get (BuildSeriesLabels u pc res pt []) (Name m)))" for m
    using series_labels_get [OF assms, of "Name m" u pc res pt]
    by (cases "Name m = ''le'' \<or> Name m = ''quantile''") auto
  then show ?thesis unfolding selector_demands_def by simp
qed

lemma demanded_series_dp:
  assumes "f \<in> set (flat md)" "s \<in> set (dp_series namer fmtg f)" "raw \<in> set raws" "Parse lib raw = Inr sel"
    "selector_demands lib sel (fst (labelled u pc s)) (snd (labelled u pc s))"
  shows "dp_demanded lib u pc namer raws f"
proof -
  obtain name res pt extra where s: "s = (name, res, pt, extra)" by (cases s)
  note c = dp_series_cases [OF assms(1) assms(2) [unfolded s]]
  have "selector_demands lib sel name (BuildSeriesLabels u pc (f_resource f) (any_attrs (f_dp f)) [])"
    using assms(5) selector_demands_extra [OF c(4), of lib sel name u pc res pt]
    unfolding c(2,3) by (simp add: s labelled_def c(2,3))
  then show ?thesis using c(1) assms(3,4)
    by (auto simp: dp_demanded_def series_demanded_def list_ex_iff)
qed

lemma demanded_name_dp:
  assumes "f \<in> set (flat md)" "s \<in> set (dp_series namer fmtg f)" "fst (labelled u pc s) \<in> set demands"
  shows "dp_name_demanded namer demands f"
proof -
  obtain name res pt extra where s: "s = (name, res, pt, extra)" by (cases s)
  show ?thesis using dp_series_cases(1) [OF assms(1) assms(2) [unfolded s]] assms(3)
    by (auto simp: dp_name_demanded_def list_ex_iff s labelled_def)
qed

section \<open>The edge controller as provider\<close>

text \<open>A filter asks its provider twice for a batch: first for the finer demand (metric selectors,
  trace routes), and for the names or the trace selectors when there is none.  The edge controller
  may be in another state the second time, so the state of a batch is the pair of the two.\<close>

definition read_twice :: "'st extension \<Rightarrow> ('st \<times> 'st) extension" where
  "read_twice ext =
     \<lparr>ext_GetDemands = map_option (\<lambda>g. g \<circ> snd) (ext_GetDemands ext),
      ext_GetMetricSelectors = map_option (\<lambda>g. g \<circ> fst) (ext_GetMetricSelectors ext),
      ext_GetLogDemands = map_option (\<lambda>g. g \<circ> fst) (ext_GetLogDemands ext),
      ext_GetTraceDemands = map_option (\<lambda>g. g \<circ> snd) (ext_GetTraceDemands ext),
      ext_GetTraceRoutes = map_option (\<lambda>g. g \<circ> fst) (ext_GetTraceRoutes ext)\<rparr>"

abbreviation edge_reader :: "(edgeControllerExtension \<times> edgeControllerExtension) extension" where
  "edge_reader \<equiv> read_twice edge_extension"

lemma edge_provider:
  "provider (Start newDemandFilterProcessor (edge_reader # exts)) = Some (GetDemands \<circ> snd)"
  "selectorProvider (Start newDemandFilterProcessor (edge_reader # exts)) = Some (GetMetricSelectors \<circ> fst)"
  "log_provider (log_Start newLogDemandFilterProcessor (edge_reader # exts)) = Some (GetLogDemands \<circ> fst)"
  "tr_provider (trace_Start newTraceDemandFilterProcessor (edge_reader # exts)) = Some (GetTraceDemands \<circ> snd)"
  "tr_routes (trace_Start newTraceDemandFilterProcessor (edge_reader # exts)) = Some (GetTraceRoutes \<circ> fst)"
  by (simp_all add: edge_extension_def read_twice_def)

lemma edge_reads:
  "selectors_now (Start newDemandFilterProcessor [edge_reader]) = GetMetricSelectors \<circ> fst"
  "demands_now (Start newDemandFilterProcessor [edge_reader]) = GetDemands \<circ> snd"
  "log_demands_now (log_Start newLogDemandFilterProcessor [edge_reader]) = GetLogDemands \<circ> fst"
  "trace_demands_now (trace_Start newTraceDemandFilterProcessor [edge_reader]) = GetTraceDemands \<circ> snd"
  "routes_now (trace_Start newTraceDemandFilterProcessor [edge_reader]) = GetTraceRoutes \<circ> fst"
  by (simp_all add: fun_eq_iff selectors_now_def demands_now_def log_demands_now_def trace_demands_now_def
      routes_now_def edge_provider del: Start.simps log_Start.simps trace_Start.simps)

section \<open>The edge controller as receiver of the tracker's batches\<close>

definition edge_receive ::
    "(TimeseriesBatch \<Rightarrow> (HashKey \<times> int) list) \<Rightarrow> unit \<Rightarrow> TimeseriesBatch \<Rightarrow> edgeControllerExtension option
     \<Rightarrow> edgeControllerExtension option" where
  "edge_receive visit r batch st = Option.bind st (ReceiveTimeseriesBatch (visit batch) batch)"

definition visits_batch :: "(TimeseriesBatch \<Rightarrow> (HashKey \<times> int) list) \<Rightarrow> bool" where
  "visits_batch visit \<longleftrightarrow> (\<forall>b. enumerates (map fst (visit b)) (Data b) \<and> list_all (\<lambda>(k, t). 0 \<le> t) (visit b))"

lemma copied_data: "fmmap copy_entry m = m"
proof (rule fmap_ext)
  have "copy_entry v = v" for v by (cases v) (simp add: copy_entry_def)
  then show "fmlookup (fmmap copy_entry m) k = fmlookup m k" for k by (cases "fmlookup m k") simp_all
qed

lemma received_batch:
  assumes "visits_batch visit" "known_wf (knownTimeseriesCache e)"
  shows "\<exists>e'. edge_receive visit () batch (Some e) = Some e' \<and> known_wf (knownTimeseriesCache e')
    \<and> (\<forall>k. IsTimeseriesKnown (knownTimeseriesCache e') k \<longleftrightarrow>
          IsTimeseriesKnown (knownTimeseriesCache e) k \<or> fmlookup (Data batch) k \<noteq> None)
    \<and> (\<forall>k. \<not> IsTimeseriesKnown (knownTimeseriesCache e) k \<longrightarrow> fmlookup (Data batch) k \<noteq> None \<longrightarrow>
          fmlookup (discovered (discoveredTimeseriesCache e')) k = fmlookup (Data batch) k)"
proof -
  have v: "enumerates (map fst (visit batch)) (Data batch)" "list_all (\<lambda>(k, t). 0 \<le> t) (visit batch)"
    using assms(1) by (simp_all add: visits_batch_def)
  have mem: "k \<in> fst ` set (visit batch) \<and> fmlookup (Data batch) k \<noteq> None \<longleftrightarrow> fmlookup (Data batch) k \<noteq> None" for k
    using enumerates_set [OF v(1), of k] by auto
  show ?thesis using receive_loop_effect [OF assms(2) enumerates_distinct [OF v(1)] v(2), of "Data batch"]
    unfolding edge_receive_def ReceiveTimeseriesBatch_def mem Option.bind.simps by metis
qed

end
