(* ===== verification/Timeseries_Processor.thy ===== *)
theory Timeseries_Processor
  imports Edge_Controller
begin

text \<open>
  The loop that syncs the caches with the backend
  (\<open>src/components/edgecontroller/timeseries_processor.go\<close>).  One turn of the loop runs
  against a \<open>turn\<close>: the clock readings, the order in which the maps are visited, the
  stream, and what the rest of the agent does while the turn waits (for an acknowledgement, or
  between the delete and the update batch).  The turn's other steps are taken without
  interruption; what happens in the sleep after a turn belongs to the next one.

  The lemmas: what is sent for a series, that a series leaves a cache only with an
  acknowledgement, and that a fault-free backend gets every discovered series exactly once.
\<close>

section \<open>One turn's surroundings\<close>

record wait_env =
  others :: "64 word \<Rightarrow> edgeControllerExtension \<Rightarrow> edgeControllerExtension"
  timer :: bool

record turn =
  net :: "AgentMessage list \<Rightarrow> AgentMessage \<Rightarrow> bool"
  discovered_visit :: "DiscoveredTimeseriesCache \<Rightarrow> HashKey list"
  create_wait :: wait_env
  sync_now :: int
  active_now :: int
  active_visit :: "KnownTimeseriesCache \<Rightarrow> HashKey list"
  inactive_now :: int
  inactive_visit :: "KnownTimeseriesCache \<Rightarrow> HashKey list"
  delete_wait :: wait_env
  between :: "edgeControllerExtension \<Rightarrow> edgeControllerExtension"
  cancelled :: bool
  update_wait :: wait_env
  mark_now :: int

abbreviation (input) DiscoveredBatchSize :: nat where "DiscoveredBatchSize \<equiv> 5000"
abbreviation (input) KnownBatchSize :: int where "KnownBatchSize \<equiv> 30000"
abbreviation (input) LastBackendSyncThresholdSeconds :: int where "LastBackendSyncThresholdSeconds \<equiv> 60"

section \<open>Sending\<close>

text \<open>The result of a send: the error, if there is one.  An acknowledgement that reports a
  failure is logged (\<open>logNonSuccess\<close>) and otherwise treated as a success.\<close>

definition logged_ack ::
    "(ack_error + Ack) \<times> edgeControllerExtension \<Rightarrow> ack_error option \<times> edgeControllerExtension" where
  "logged_ack r = (case r of (Inl err, e) \<Rightarrow> (Some err, e) | (Inr ack, e) \<Rightarrow> (None, e))"

fun pair_labels :: "string list \<Rightarrow> Label list" where
  "pair_labels (n # v # ls) = \<lparr>label_Name = n, label_Value = v\<rparr> # pair_labels ls"
| "pair_labels ls = []"

fun created_series :: "DiscoveredTimeseriesItem list \<Rightarrow> DiscoveredSeries list" where
  "created_series [] = []"
| "created_series (it # items) =
     (case DecodeString (item_HashKeyHex it) of
        None \<Rightarrow> created_series items
      | Some fp \<Rightarrow> \<lparr>ds_Fingerprint = fp, ds_MetricName = item_Name it,
                    ds_Labels = pair_labels (item_Labels it)\<rparr> # created_series items)"

definition sendDiscoveredTimeseriesBatch ::
    "turn \<Rightarrow> DiscoveredTimeseriesItem list \<Rightarrow> edgeControllerExtension
     \<Rightarrow> ack_error option \<times> edgeControllerExtension" where
  "sendDiscoveredTimeseriesBatch t items e =
     logged_ack (sendAndWaitAck (net t) (others (create_wait t)) (timer (create_wait t))
       (AgentMessage_IndexCreate (created_series items)) e)"

definition updated_series :: "KnownActiveTimeseriesItem list \<Rightarrow> ActiveSeries list" where
  "updated_series items = map (\<lambda>it. \<lparr>as_Fingerprint = item_HashKey it, as_Samples = TotalSamples it,
     as_LastUpdateMs = item_LastUpdate it\<rparr>) items"

definition sendActiveTimeseriesBatch ::
    "turn \<Rightarrow> KnownActiveTimeseriesItem list \<Rightarrow> edgeControllerExtension
     \<Rightarrow> ack_error option \<times> edgeControllerExtension" where
  "sendActiveTimeseriesBatch t items e =
     logged_ack (sendAndWaitAck (net t) (others (update_wait t)) (timer (update_wait t))
       (AgentMessage_IndexUpdate (updated_series items)) e)"

definition sendInactiveTimeseriesBatch ::
    "turn \<Rightarrow> HashKey list \<Rightarrow> edgeControllerExtension \<Rightarrow> ack_error option \<times> edgeControllerExtension" where
  "sendInactiveTimeseriesBatch t keys e =
     logged_ack (sendAndWaitAck (net t) (others (delete_wait t)) (timer (delete_wait t))
       (AgentMessage_IndexDelete keys) e)"

section \<open>The turns\<close>

definition processOneDiscoveredBatch :: "turn \<Rightarrow> edgeControllerExtension \<Rightarrow> bool \<times> edgeControllerExtension" where
  "processOneDiscoveredBatch t e =
     (let c = discoveredTimeseriesCache e;
          (items, keys) = GetBatch (discovered_visit t c) DiscoveredBatchSize c
      in if length items = 0 then (False, e)
         else case sendDiscoveredTimeseriesBatch t items e of
           (Some err, e1) \<Rightarrow> (True, e1)
         | (None, e1) \<Rightarrow>
             (True, e1\<lparr>discoveredTimeseriesCache := PurgeBatch keys (discoveredTimeseriesCache e1)\<rparr>))"

text \<open>The two halves of \<open>processOneKnownBatch\<close>.  The first may return early
  (\<open>Inl\<close>): the send failed, or the agent is shut down in the sleep between the halves.\<close>

definition delete_phase ::
    "turn \<Rightarrow> HashKey list \<Rightarrow> bool \<Rightarrow> edgeControllerExtension
     \<Rightarrow> edgeControllerExtension + edgeControllerExtension" where
  "delete_phase t inactiveKeys hasActive e =
     (case sendInactiveTimeseriesBatch t inactiveKeys e of
        (Some err, e1) \<Rightarrow> Inl e1
      | (None, e1) \<Rightarrow>
          (let e2 = e1\<lparr>knownTimeseriesCache := DeleteBatch inactiveKeys (knownTimeseriesCache e1)\<rparr> in
           if hasActive then (if cancelled t then Inl e2 else Inr (between t e2)) else Inr e2))"

definition update_phase ::
    "turn \<Rightarrow> KnownActiveTimeseriesItem list \<Rightarrow> edgeControllerExtension \<Rightarrow> edgeControllerExtension" where
  "update_phase t activeItems e =
     (case sendActiveTimeseriesBatch t activeItems e of
        (Some err, e1) \<Rightarrow> e1
      | (None, e1) \<Rightarrow>
          e1\<lparr>knownTimeseriesCache :=
              MarkSyncedBatch (mark_now t) (map item_HashKey activeItems) (knownTimeseriesCache e1)\<rparr>)"

definition processOneKnownBatch :: "turn \<Rightarrow> edgeControllerExtension \<Rightarrow> bool \<times> edgeControllerExtension" where
  "processOneKnownBatch t e =
     (let c = knownTimeseriesCache e;
          (activeItems, c1) = GetActiveTimeseriesBatch (active_now t) (active_visit t c)
             (sync_now t - LastBackendSyncThresholdSeconds) KnownBatchSize c;
          (inactiveKeys, c2) = GetInactiveTimeseriesBatch (inactive_now t) (inactive_visit t c1) KnownBatchSize c1;
          e1 = e\<lparr>knownTimeseriesCache := c2\<rparr>
      in if length activeItems = 0 \<and> length inactiveKeys = 0 then (False, e1)
         else case (if 0 < length inactiveKeys then delete_phase t inactiveKeys (0 < length activeItems) e1
                    else Inr e1) of
           Inl e2 \<Rightarrow> (True, e2)
         | Inr e2 \<Rightarrow> (True, if 0 < length activeItems then update_phase t activeItems e2 else e2))"

definition processor_turn :: "turn \<Rightarrow> edgeControllerExtension \<Rightarrow> edgeControllerExtension" where
  "processor_turn t e =
     (case processOneDiscoveredBatch t e of
        (True, e1) \<Rightarrow> e1
      | (False, e1) \<Rightarrow> snd (processOneKnownBatch t e1))"

text \<open>The turns taken before the context is cancelled.\<close>

fun timeseriesProcessorLoop :: "turn list \<Rightarrow> edgeControllerExtension \<Rightarrow> edgeControllerExtension" where
  "timeseriesProcessorLoop [] e = e"
| "timeseriesProcessorLoop (t # ts) e = timeseriesProcessorLoop ts (processor_turn t e)"

section \<open>What is sent\<close>

lemma pair_flatten:
  "pair_labels (flatten_labels lps) = map (\<lambda>lp. \<lparr>label_Name = LabelName lp, label_Value = LabelValue lp\<rparr>) lps"
  by (induction lps) simp_all

definition series_of :: "HashKey \<Rightarrow> TimeseriesEntry \<Rightarrow> DiscoveredSeries" where
  "series_of k x = \<lparr>ds_Fingerprint = k, ds_MetricName = MetricName x,
     ds_Labels = map (\<lambda>lp. \<lparr>label_Name = LabelName lp, label_Value = LabelValue lp\<rparr>) (Labels x)\<rparr>"

definition entry_at :: "DiscoveredTimeseriesCache \<Rightarrow> HashKey \<Rightarrow> TimeseriesEntry" where
  "entry_at c k = (case fmlookup (discovered c) k of
     Some x \<Rightarrow> x | None \<Rightarrow> \<lparr>MetricName = '''', Labels = [], Samples = 0\<rparr>)"

lemma created_series_items:
  "created_series (map (item_of c) ks) = map (\<lambda>k. series_of k (entry_at c k)) ks"
proof (induction ks)
  case (Cons k ks)
  have "item_HashKeyHex (item_of c k) = HashKey_String k"
    by (simp add: item_of_def split: option.splits)
  then show ?case using Cons
    by (auto simp: HashKey_String_roundtrip item_of_def entry_at_def series_of_def pair_flatten split: option.splits)
qed simp

section \<open>The caches around a call\<close>

definition caches ::
    "edgeControllerExtension \<Rightarrow> KnownTimeseriesCache \<times> DiscoveredTimeseriesCache \<times> DemandTimeseriesCache" where
  "caches e = (knownTimeseriesCache e, discoveredTimeseriesCache e, demandTimeseriesCache e)"

lemma caches_simps [simp]:
  "caches (e\<lparr>pending := p\<rparr>) = caches e" "caches (e\<lparr>chans := ch\<rparr>) = caches e"
  "caches (e\<lparr>corrSeq := i\<rparr>) = caches e" "caches (e\<lparr>next_chan := n\<rparr>) = caches e"
  "caches (e\<lparr>outbox := ms\<rparr>) = caches e"
  by (simp_all add: caches_def)

lemma ack_begin_caches: "caches (snd (ack_begin nt body e)) = caches e"
  by (auto simp: ack_begin_defs Let_def split: prod.splits option.splits)

lemma ack_receive_caches: "ack_receive i ch e = Some (a, e') \<Longrightarrow> caches e' = caches e"
  by (auto simp: ack_receive_def split: list.splits)

lemma ack_timeout_caches: "caches (ack_timeout i e) = caches e"
  by (simp add: ack_timeout_def)

text \<open>Whatever the outcome, the caches after a call are those the rest of the agent left.\<close>

lemma sendAndWaitAck_caches:
  assumes "sendAndWaitAck nt oth tm body e = (r, e')"
  shows "caches e' = caches e \<or> (\<exists>i e1. caches e1 = caches e \<and> caches e' = caches (oth i e1))"
proof (cases "ack_begin nt body e")
  case (Pair r1 e1)
  have c: "caches e1 = caches e" using ack_begin_caches [of nt body e] Pair by simp
  show ?thesis
  proof (cases r1)
    case (Inl err) then show ?thesis using assms Pair c by (simp add: sendAndWaitAck_def)
  next
    case (Inr p)
    then obtain i ch where p: "p = (i, ch)" by fastforce
    have "caches e' = caches (oth i e1)"
      using assms Pair Inr p ack_receive_caches ack_timeout_caches
      by (auto simp: sendAndWaitAck_def Let_def split: option.splits if_splits)
    then show ?thesis using c by blast
  qed
qed

definition acked :: "ack_error option \<times> edgeControllerExtension \<Rightarrow> bool" where
  "acked r \<longleftrightarrow> fst r = None"

definition quiet :: "wait_env \<Rightarrow> bool" where
  "quiet w \<longleftrightarrow> (\<forall>i e. caches (others w i e) = caches e)"

lemma quiet_call:
  assumes "quiet w"
  shows "caches (snd (logged_ack (sendAndWaitAck nt (others w) tm body e))) = caches e"
proof -
  obtain r e' where c: "sendAndWaitAck nt (others w) tm body e = (r, e')" by fastforce
  have "caches e' = caches e" using sendAndWaitAck_caches [OF c] assms by (auto simp: quiet_def)
  then show ?thesis by (simp add: c logged_ack_def split: sum.split)
qed

lemma discovered_batch_empty:
  assumes "enumerates visit (discovered c)"
  shows "take 5000 visit = [] \<longleftrightarrow> discovered c = fmempty"
proof -
  have "visit = [] \<longleftrightarrow> fmdom (discovered c) = {||}"
    using assms unfolding enumerates_def by (metis fset_of_list_simps(1) fset_of_list.rep_eq set_empty bot_fset.rep_eq)
  then show ?thesis by (metis fmdom_empty fmrestrict_fset_dom fmrestrict_fset_null take_eq_Nil zero_neq_numeral)
qed

text \<open>The turn on the discovered cache, with the message it sends written out.\<close>

lemma processOneDiscoveredBatch_eq:
  assumes "enumerates (discovered_visit t (discoveredTimeseriesCache e)) (discovered (discoveredTimeseriesCache e))"
  defines "keys \<equiv> take 5000 (discovered_visit t (discoveredTimeseriesCache e))"
  shows "processOneDiscoveredBatch t e =
    (if discovered (discoveredTimeseriesCache e) = fmempty then (False, e)
     else case logged_ack (sendAndWaitAck (net t) (others (create_wait t)) (timer (create_wait t))
         (AgentMessage_IndexCreate (map (\<lambda>k. series_of k (entry_at (discoveredTimeseriesCache e) k)) keys)) e) of
       (Some err, e1) \<Rightarrow> (True, e1)
     | (None, e1) \<Rightarrow> (True, e1\<lparr>discoveredTimeseriesCache := PurgeBatch keys (discoveredTimeseriesCache e1)\<rparr>))"
  using discovered_batch_empty [OF assms(1)]
  unfolding keys_def
  by (simp add: processOneDiscoveredBatch_def sendDiscoveredTimeseriesBatch_def Let_def
      GetBatch_eq [OF assms(1)] created_series_items)

section \<open>A backend that answers\<close>

text \<open>Every message is accepted, and answered before the timeout; nothing else happens.\<close>

definition answers :: "Ack \<Rightarrow> wait_env \<Rightarrow> bool" where
  "answers a w \<longleftrightarrow> others w = (\<lambda>i. resolvePending i a) \<and> \<not> timer w"

definition healthy :: "Ack \<Rightarrow> turn \<Rightarrow> bool" where
  "healthy a t \<longleftrightarrow> (\<forall>ms m. net t ms m) \<and> answers a (create_wait t) \<and> answers a (delete_wait t)
     \<and> answers a (update_wait t) \<and> between t = (\<lambda>e. e) \<and> (\<forall>c. enumerates (discovered_visit t c) (discovered c))"

definition connected :: "edgeControllerExtension \<Rightarrow> nat \<Rightarrow> bool" where
  "connected e n \<longleftrightarrow> stream_up e \<and> (\<forall>ch \<ge> next_chan e. chans e ch = []) \<and> unat (corrSeq e) + n < 2 ^ 64"

lemma connected_less: "connected e n \<Longrightarrow> m \<le> n \<Longrightarrow> connected e m"
  by (simp add: connected_def)

lemma connected_caches [simp]:
  "connected (e\<lparr>knownTimeseriesCache := k\<rparr>) n = connected e n"
  "connected (e\<lparr>discoveredTimeseriesCache := d\<rparr>) n = connected e n"
  by (simp_all add: connected_def)

lemma answered_call:
  assumes "connected e (Suc n)" "\<forall>ms m. nt ms m" "answers a w"
  shows "\<exists>e'. logged_ack (sendAndWaitAck nt (others w) (timer w) body e) = (None, e')
    \<and> caches e' = caches e \<and> connected e' n
    \<and> outbox e' = outbox e @ [\<lparr>am_CorrelationId = corrSeq e + 1, am_Body = body\<rparr>]"
proof -
  have u: "unat (corrSeq e + 1) = Suc (unat (corrSeq e))"
    using assms(1) by (intro corr_next) (auto simp: connected_def)
  then have "corrSeq e + 1 \<noteq> 0" by (metis nat.distinct(1) unat_eq_zero)
  then show ?thesis using assms u
    by (simp add: sendAndWaitAck_def ack_begin_defs resolvePending_def
        ack_receive_def answers_def logged_ack_def connected_def caches_def Let_def)
qed

fun created :: "AgentMessage list \<Rightarrow> DiscoveredSeries list" where
  "created [] = []"
| "created (m # ms) = (case am_Body m of AgentMessage_IndexCreate ss \<Rightarrow> ss | _ \<Rightarrow> []) @ created ms"

lemma created_append [simp]: "created (ms @ ns) = created ms @ created ns"
  by (induction ms) simp_all

definition quiet_known :: "edgeControllerExtension \<Rightarrow> edgeControllerExtension \<Rightarrow> bool" where
  "quiet_known e e' \<longleftrightarrow> discoveredTimeseriesCache e' = discoveredTimeseriesCache e \<and> created (outbox e') = created (outbox e)"

lemma delete_phase_healthy:
  assumes "connected e (Suc n)" "healthy a t"
  shows "\<exists>e'. delete_phase t ks b e \<in> {Inl e', Inr e'} \<and> quiet_known e e' \<and> connected e' n"
proof -
  obtain e' where "sendInactiveTimeseriesBatch t ks e = (None, e')" "caches e' = caches e" "connected e' n"
    "outbox e' = outbox e @ [\<lparr>am_CorrelationId = corrSeq e + 1, am_Body = AgentMessage_IndexDelete ks\<rparr>]"
    using answered_call [OF assms(1), of "net t" a "delete_wait t"] assms(2)
    unfolding sendInactiveTimeseriesBatch_def healthy_def by blast
  then show ?thesis using assms(2)
    by (auto simp: delete_phase_def Let_def quiet_known_def caches_def healthy_def)
qed

lemma update_phase_healthy:
  assumes "connected e (Suc n)" "healthy a t"
  shows "quiet_known e (update_phase t items e) \<and> connected (update_phase t items e) n"
proof -
  obtain e' where "sendActiveTimeseriesBatch t items e = (None, e')" "caches e' = caches e" "connected e' n"
    "outbox e' = outbox e @ [\<lparr>am_CorrelationId = corrSeq e + 1, am_Body = AgentMessage_IndexUpdate (updated_series items)\<rparr>]"
    using answered_call [OF assms(1), of "net t" a "update_wait t"] assms(2)
    unfolding sendActiveTimeseriesBatch_def healthy_def by blast
  then show ?thesis by (simp add: update_phase_def quiet_known_def caches_def)
qed

lemma processOneKnownBatch_healthy:
  assumes c: "connected e (Suc (Suc n))" and h: "healthy a t"
  shows "quiet_known e (snd (processOneKnownBatch t e)) \<and> connected (snd (processOneKnownBatch t e)) n"
proof -
  obtain items c1 where i: "GetActiveTimeseriesBatch (active_now t) (active_visit t (knownTimeseriesCache e))
    (sync_now t - 60) 30000 (knownTimeseriesCache e) = (items, c1)" by fastforce
  obtain ks c2 where k: "GetInactiveTimeseriesBatch (inactive_now t) (inactive_visit t c1) 30000 c1 = (ks, c2)"
    by fastforce
  let ?e1 = "e\<lparr>knownTimeseriesCache := c2\<rparr>"
  have e1: "connected ?e1 (Suc (Suc n))" "quiet_known e ?e1" using c by (simp_all add: quiet_known_def)
  obtain e2 where d: "delete_phase t ks (0 < length items) ?e1 \<in> {Inl e2, Inr e2}" "quiet_known ?e1 e2" "connected e2 (Suc n)"
    using delete_phase_healthy [OF e1(1) h] by blast
  have u: "quiet_known x (update_phase t items x) \<and> connected (update_phase t items x) n"
    if "connected x (Suc n)" for x by (rule update_phase_healthy [OF that h])
  have weak: "connected ?e1 (Suc n)" "connected ?e1 n" "connected e2 n"
    using e1(1) d(3) connected_less [of _ _ n] connected_less [of _ _ "Suc n"] by auto
  show ?thesis using d u [OF d(3)] u [OF weak(1)] weak e1
    by (auto simp: processOneKnownBatch_def i k quiet_known_def Let_def)
qed

lemma processOneDiscoveredBatch_healthy:
  assumes c: "connected e (Suc n)" and h: "healthy a t" and ne: "discovered (discoveredTimeseriesCache e) \<noteq> fmempty"
  defines "d \<equiv> discoveredTimeseriesCache e"
  defines "keys \<equiv> take 5000 (discovered_visit t d)"
  shows "\<exists>e'. processOneDiscoveredBatch t e = (True, e') \<and> discoveredTimeseriesCache e' = PurgeBatch keys d
    \<and> created (outbox e') = created (outbox e) @ map (\<lambda>k. series_of k (entry_at d k)) keys \<and> connected e' n"
proof -
  let ?body = "AgentMessage_IndexCreate (map (\<lambda>k. series_of k (entry_at d k)) keys)"
  have en: "enumerates (discovered_visit t d) (discovered d)" using h by (simp add: healthy_def)
  obtain e' where e': "logged_ack (sendAndWaitAck (net t) (others (create_wait t)) (timer (create_wait t)) ?body e) = (None, e')"
    "caches e' = caches e" "connected e' n"
    "outbox e' = outbox e @ [\<lparr>am_CorrelationId = corrSeq e + 1, am_Body = ?body\<rparr>]"
    using answered_call [OF c, of "net t" a "create_wait t" ?body] h unfolding healthy_def by blast
  from e'(1) have "processOneDiscoveredBatch t e =
      (True, e'\<lparr>discoveredTimeseriesCache := PurgeBatch keys (discoveredTimeseriesCache e')\<rparr>)"
    using processOneDiscoveredBatch_eq [of t e] en ne by (simp add: d_def keys_def)
  then show ?thesis using e'(2-4) by (simp add: caches_def d_def)
qed

text \<open>One turn: the series it announces leave the cache, and a full batch or everything goes.\<close>

lemma processor_turn_healthy:
  assumes c: "connected e (Suc (Suc n))" and h: "healthy a t"
  defines "d \<equiv> discoveredTimeseriesCache e"
  shows "\<exists>ks e'. processor_turn t e = e' \<and> connected e' n \<and> distinct ks \<and> set ks \<subseteq> waiting_keys d
    \<and> discoveredTimeseriesCache e' = PurgeBatch ks d \<and> length ks = min 5000 (card (waiting_keys d))
    \<and> created (outbox e') = created (outbox e) @ map (\<lambda>k. series_of k (entry_at d k)) ks"
proof (cases "discovered d = fmempty")
  case True
  have en: "enumerates (discovered_visit t d) (discovered d)" using h by (simp add: healthy_def)
  from True have "processor_turn t e = snd (processOneKnownBatch t e)"
    using processOneDiscoveredBatch_eq [of t e] en by (simp add: d_def processor_turn_def)
  moreover have "PurgeBatch [] d = d" by (simp add: PurgeBatch_def)
  ultimately show ?thesis using processOneKnownBatch_healthy [OF c h] True
    by (intro exI [of _ "[]"] exI [of _ "processor_turn t e"]) (auto simp: quiet_known_def d_def waiting_keys_def)
next
  case False
  have en: "enumerates (discovered_visit t d) (discovered d)" using h by (simp add: healthy_def)
  let ?ks = "take 5000 (discovered_visit t d)"
  have len: "length (discovered_visit t d) = card (waiting_keys d)"
    using enumerates_length [OF en] by (simp add: waiting_keys_def map_len_def fcard.rep_eq)
  have "set ?ks \<subseteq> waiting_keys d" "distinct ?ks"
    using enumerates_fset [OF en] enumerates_distinct [OF en] set_take_subset
    by (auto simp: waiting_keys_def dest: in_set_takeD)
  then show ?thesis using processOneDiscoveredBatch_healthy [OF c h] False len connected_less [of _ "Suc n" n]
    by (fastforce simp: d_def processor_turn_def intro!: exI [of _ ?ks])
qed

lemma entry_at_purged: "k \<notin> set ks \<Longrightarrow> entry_at (PurgeBatch ks d) k = entry_at d k"
  by (simp add: entry_at_def)

lemma waiting_purged: "waiting_keys (PurgeBatch ks d) = waiting_keys d - set ks"
  by (auto simp: waiting_keys_def fmlookup_dom_iff split: if_splits)

lemma loop_healthy:
  assumes "connected e (2 * length ts)" "list_all (healthy a) ts" "d = discoveredTimeseriesCache e"
    "card (waiting_keys d) \<le> 5000 * length ts"
  shows "\<exists>ks e'. timeseriesProcessorLoop ts e = e' \<and> distinct ks \<and> set ks = waiting_keys d
    \<and> waiting_keys (discoveredTimeseriesCache e') = {}
    \<and> created (outbox e') = created (outbox e) @ map (\<lambda>k. series_of k (entry_at d k)) ks"
  using assms
proof (induction ts arbitrary: e d)
  case Nil
  then have "waiting_keys d = {}" by (simp add: waiting_keys_def)
  then show ?case using Nil by simp
next
  case (Cons t ts)
  from processor_turn_healthy [of e "2 * length ts" a t] Cons.prems obtain ks e1 where
    e1: "processor_turn t e = e1" "connected e1 (2 * length ts)" "distinct ks" "set ks \<subseteq> waiting_keys d"
      "discoveredTimeseriesCache e1 = PurgeBatch ks d" "length ks = min 5000 (card (waiting_keys d))"
      "created (outbox e1) = created (outbox e) @ map (\<lambda>k. series_of k (entry_at d k)) ks"
    by (auto simp: Cons.prems(3))
  let ?d1 = "discoveredTimeseriesCache e1"
  have fin: "finite (waiting_keys d)" by (simp add: waiting_keys_def)
  have "card (waiting_keys ?d1) = card (waiting_keys d) - length ks"
    using e1(3-5) by (simp add: waiting_purged card_Diff_subset distinct_card)
  then have "card (waiting_keys ?d1) \<le> 5000 * length ts" using e1(6) Cons.prems(4) by simp
  with Cons.IH [of e1] e1(2) Cons.prems(2) obtain js e' where
    js: "timeseriesProcessorLoop ts e1 = e'" "distinct js" "set js = waiting_keys ?d1"
      "waiting_keys (discoveredTimeseriesCache e') = {}"
      "created (outbox e') = created (outbox e1) @ map (\<lambda>k. series_of k (entry_at ?d1 k)) js"
    by auto
  have same: "map (\<lambda>k. series_of k (entry_at ?d1 k)) js = map (\<lambda>k. series_of k (entry_at d k)) js"
    using js(3) e1(5) by (auto simp: waiting_purged entry_at_purged)
  show ?case using e1 js same
    by (intro exI [of _ "ks @ js"] exI [of _ e']) (auto simp: waiting_purged)
qed

section \<open>The known cache over a turn\<close>

definition quiet_turn :: "turn \<Rightarrow> bool" where
  "quiet_turn t \<longleftrightarrow> quiet (create_wait t) \<and> quiet (delete_wait t) \<and> quiet (update_wait t)
     \<and> (\<forall>e. caches (between t e) = caches e)"

definition unanswered_turn :: "turn \<Rightarrow> bool" where
  "unanswered_turn t \<longleftrightarrow> timer (create_wait t) \<and> timer (delete_wait t) \<and> timer (update_wait t)"

lemma timer_call: "fst (logged_ack (sendAndWaitAck nt oth True body e)) \<noteq> None"
  by (simp add: sendAndWaitAck_def logged_ack_def Let_def split: prod.splits sum.splits)

lemma caches_eqD:
  assumes "caches e' = caches e"
  shows "knownTimeseriesCache e' = knownTimeseriesCache e"
    "discoveredTimeseriesCache e' = discoveredTimeseriesCache e" "demandTimeseriesCache e' = demandTimeseriesCache e"
  using assms by (simp_all add: caches_def)

text \<open>The effect on the known cache: delete, then mark, each only when its call was
  acknowledged.\<close>

definition known_effect ::
    "bool \<Rightarrow> bool \<Rightarrow> int \<Rightarrow> HashKey list \<Rightarrow> KnownActiveTimeseriesItem list \<Rightarrow> KnownTimeseriesCache \<Rightarrow> KnownTimeseriesCache" where
  "known_effect del upd now keys items c =
     (let c1 = (if del then DeleteBatch keys c else c)
      in if upd then MarkSyncedBatch now (map item_HashKey items) c1 else c1)"

lemma delete_phase_quiet:
  assumes "quiet_turn t" "e2 = e\<lparr>knownTimeseriesCache := DeleteBatch keys (knownTimeseriesCache e)\<rparr>"
  shows "\<exists>e'. (delete_phase t keys b e = Inl e' \<or> delete_phase t keys b e = Inr e')
    \<and> (caches e' = caches e \<and> delete_phase t keys b e = Inl e' \<or> caches e' = caches e2 \<and> \<not> timer (delete_wait t))"
proof -
  let ?r = "logged_ack (sendAndWaitAck (net t) (others (delete_wait t)) (timer (delete_wait t)) (AgentMessage_IndexDelete keys) e)"
  obtain err e1 where r: "?r = (err, e1)" by fastforce
  have "caches e1 = caches e" using quiet_call [of "delete_wait t"] assms(1) r unfolding quiet_turn_def by (metis snd_conv)
  moreover have "\<not> timer (delete_wait t)" if "err = None"
    using timer_call [of "net t" "others (delete_wait t)" "AgentMessage_IndexDelete keys" e] r that by auto
  ultimately show ?thesis using assms r
    by (cases err) (auto simp: delete_phase_def sendInactiveTimeseriesBatch_def quiet_turn_def caches_def Let_def)
qed

lemma update_phase_quiet:
  assumes "quiet_turn t"
  shows "caches (update_phase t items e) = caches e
    \<or> caches (update_phase t items e) =
        caches (e\<lparr>knownTimeseriesCache := MarkSyncedBatch (mark_now t) (map item_HashKey items) (knownTimeseriesCache e)\<rparr>)
      \<and> \<not> timer (update_wait t)"
proof -
  let ?r = "logged_ack (sendAndWaitAck (net t) (others (update_wait t)) (timer (update_wait t))
    (AgentMessage_IndexUpdate (updated_series items)) e)"
  obtain err e1 where r: "?r = (err, e1)" by fastforce
  have "caches e1 = caches e" using quiet_call [of "update_wait t"] assms(1) r unfolding quiet_turn_def by (metis snd_conv)
  moreover have "\<not> timer (update_wait t)" if "err = None"
    using timer_call [of "net t" "others (update_wait t)" "AgentMessage_IndexUpdate (updated_series items)" e] r that by auto
  ultimately show ?thesis using r
    by (cases err) (auto simp: update_phase_def sendActiveTimeseriesBatch_def caches_def)
qed

lemma caches_known_cong: "caches e' = caches e \<Longrightarrow> caches (e'\<lparr>knownTimeseriesCache := k\<rparr>) = caches (e\<lparr>knownTimeseriesCache := k\<rparr>)"
  by (simp add: caches_def)

lemma processOneKnownBatch_quiet:
  assumes q: "quiet_turn t"
    and i: "GetActiveTimeseriesBatch (active_now t) (active_visit t (knownTimeseriesCache e))
      (sync_now t - 60) 30000 (knownTimeseriesCache e) = (items, c1)"
    and k: "GetInactiveTimeseriesBatch (inactive_now t) (inactive_visit t c1) 30000 c1 = (keys, c2)"
  shows "\<exists>del upd. caches (snd (processOneKnownBatch t e)) =
      caches (e\<lparr>knownTimeseriesCache := known_effect del upd (mark_now t) keys items c2\<rparr>)
    \<and> (del \<longrightarrow> \<not> timer (delete_wait t)) \<and> (upd \<longrightarrow> \<not> timer (update_wait t))"
proof -
  let ?e1 = "e\<lparr>knownTimeseriesCache := c2\<rparr>"
  let ?eff = "\<lambda>del upd. caches (e\<lparr>knownTimeseriesCache := known_effect del upd (mark_now t) keys items c2\<rparr>)"
  have e1: "caches ?e1 = ?eff False False" by (simp add: known_effect_def)
  have upd: "\<exists>b. caches (update_phase t items x) = ?eff del b \<and> (b \<longrightarrow> \<not> timer (update_wait t))"
    if "caches x = ?eff del False" for x del
  proof -
    have "knownTimeseriesCache x = known_effect del False (mark_now t) keys items c2"
      using caches_eqD(1) [OF that] by simp
    then have "caches (x\<lparr>knownTimeseriesCache := MarkSyncedBatch (mark_now t) (map item_HashKey items) (knownTimeseriesCache x)\<rparr>)
        = ?eff del True" using that by (simp add: known_effect_def caches_def)
    with update_phase_quiet [OF q, of items x] that show ?thesis by metis
  qed
  let ?e2 = "?e1\<lparr>knownTimeseriesCache := DeleteBatch keys (knownTimeseriesCache ?e1)\<rparr>"
  have e2: "caches ?e2 = ?eff True False" by (simp add: known_effect_def)
  from delete_phase_quiet [OF q refl, of keys "0 < length items" ?e1] obtain x where
    x: "delete_phase t keys (0 < length items) ?e1 = Inl x \<and> (caches x = ?eff False False \<or> caches x = ?eff True False \<and> \<not> timer (delete_wait t))
      \<or> delete_phase t keys (0 < length items) ?e1 = Inr x \<and> caches x = ?eff True False \<and> \<not> timer (delete_wait t)"
    unfolding e1 e2 by force
  define P where "P = (\<lambda>y. \<exists>del upd. caches y = ?eff del upd
    \<and> (del \<longrightarrow> \<not> timer (delete_wait t)) \<and> (upd \<longrightarrow> \<not> timer (update_wait t)))"
  have p1: "P ?e1" unfolding P_def using e1 by blast
  have p2: "P (update_phase t items ?e1)" unfolding P_def using upd [OF e1] by blast
  have p3: "P x" unfolding P_def using x by blast
  have p4: "P (update_phase t items x)" if "delete_phase t keys (0 < length items) ?e1 = Inr x"
  proof -
    have "caches x = ?eff True False" "\<not> timer (delete_wait t)" using x that by auto
    then show ?thesis unfolding P_def using upd by blast
  qed
  have "delete_phase t keys (0 < length items) ?e1 = Inl x \<or> delete_phase t keys (0 < length items) ?e1 = Inr x"
    using x by blast
  then have "P (snd (processOneKnownBatch t e))" using p1 p2 p3 p4
    by (auto simp: processOneKnownBatch_def i k Let_def)
  then show ?thesis unfolding P_def .
qed

lemma total_at_later:
  assumes "known_wf c" "known_wf c1" "same_at A c c1" "A \<le> C"
  shows "total_at c1 C k = total_at c C k"
proof -
  have twice: "sumSamples (advanceRingBuffer (advanceRingBuffer x A) C) = sumSamples (advanceRingBuffer x C)"
    if "entry_wf x" for x
  proof -
    have w: "entry_wf (advanceRingBuffer x A)" by (rule advance_window(1) [OF that])
    have l: "lastHour (advanceRingBuffer (advanceRingBuffer x A) C) = max (lastHour x) C"
      "lastHour (advanceRingBuffer x C) = max (lastHour x) C"
      using assms(4) by (simp_all add: advance_window(2) [OF w] advance_window(2) [OF that] max_def)
    show ?thesis
      unfolding sumSamples_window [OF advance_window(1) [OF w]] sumSamples_window [OF advance_window(1) [OF that]] l
      using assms(4) by (intro sum.cong)
        (auto simp: advance_window(3) [OF w] advance_window(3) [OF that] advance_window(2) [OF that])
  qed
  have "map_option (\<lambda>x. advanceRingBuffer x A) (fmlookup (known c1) k) = map_option (\<lambda>x. advanceRingBuffer x A) (fmlookup (known c) k)"
    using assms(3) by (simp add: same_at_def)
  then show ?thesis using assms(1,2) twice unfolding known_wf_def total_at_def
    by (cases "fmlookup (known c1) k"; cases "fmlookup (known c) k") (simp_all, metis)
qed

lemma advance_LastBackendSync: "LastBackendSync (advanceRingBuffer x C) = LastBackendSync x"
proof -
  have "LastBackendSync (advance_loop n x) = LastBackendSync x" for n
    by (induction n arbitrary: x) (simp_all add: advance_loop.simps Let_def)
  then show ?thesis by (simp add: advanceRingBuffer_def Let_def)
qed

lemma same_at_sync:
  assumes "same_at A c c1"
  shows "map_option LastBackendSync (fmlookup (known c1) k) = map_option LastBackendSync (fmlookup (known c) k)"
proof -
  have "map_option LastBackendSync (map_option (\<lambda>x. advanceRingBuffer x A) m) = map_option LastBackendSync m" for m
    by (simp add: option.map_comp comp_def advance_LastBackendSync)
  then show ?thesis using assms unfolding same_at_def by metis
qed

lemma same_at_known: "same_at A c c1 \<Longrightarrow> IsTimeseriesKnown c1 k = IsTimeseriesKnown c k"
  unfolding same_at_def IsTimeseriesKnown_def by (metis option.map_disc_iff)

lemma known_effect_lookup:
  "fmlookup (known (known_effect del upd now keys items c)) k =
     (if del \<and> k \<in> set keys then None
      else map_option (\<lambda>x. if upd \<and> k \<in> item_HashKey ` set items then x\<lparr>LastBackendSync := now\<rparr> else x)
        (fmlookup (known c) k))"
  by (auto simp: known_effect_def Let_def MarkSyncedBatch_lookup option.map_ident)

lemma known_effect_total:
  "IsTimeseriesKnown (known_effect del upd now keys items c) k \<Longrightarrow>
   total_at (known_effect del upd now keys items c) C k = total_at c C k"
  by (auto simp: IsTimeseriesKnown_def total_at_def known_effect_lookup sumSamples_advance_sync
      split: option.splits if_splits)

lemma known_effect_wf: "known_wf c \<Longrightarrow> known_wf (known_effect del upd now keys items c)"
  by (simp add: known_effect_def Let_def known_wf_mark known_wf_delete)

lemma known_gets:
  assumes "\<forall>c. enumerates (active_visit t c) (known c) \<and> enumerates (inactive_visit t c) (known c)"
    and "known_wf c" and "hour_of (active_now t) \<le> hour_of (inactive_now t)"
    and i: "GetActiveTimeseriesBatch (active_now t) (active_visit t c) older n c = (items, c1)"
    and k: "GetInactiveTimeseriesBatch (inactive_now t) (inactive_visit t c1) m c1 = (keys, c2)"
  shows "known_wf c2" "\<And>k. IsTimeseriesKnown c2 k = IsTimeseriesKnown c k"
    "\<And>k. total_at c2 (hour_of (inactive_now t)) k = total_at c (hour_of (inactive_now t)) k"
    "\<And>k. k \<in> set keys \<Longrightarrow> idle (hour_of (inactive_now t)) c k"
    "\<And>k. map_option LastBackendSync (fmlookup (known c2) k) = map_option LastBackendSync (fmlookup (known c) k)"
proof -
  let ?A = "hour_of (active_now t)" and ?I = "hour_of (inactive_now t)"
  have s1: "same_at ?A c c1" using GetActiveTimeseriesBatch_eq enumerates_distinct assms(1) i by (metis snd_conv)
  have s2: "same_at ?I c1 c2" and ks: "keys = take (nat m) (filter (idle ?I c1) (inactive_visit t c1))"
    using GetInactiveTimeseriesBatch_eq enumerates_distinct assms(1) k by (metis snd_conv, metis fst_conv)
  have w1: "known_wf c1" using assms(2) i active_loop_wf
    by (auto simp: GetActiveTimeseriesBatch_def split: if_splits) (metis snd_conv)
  show w2: "known_wf c2" using w1 k inactive_loop_wf
    by (auto simp: GetInactiveTimeseriesBatch_def split: if_splits) (metis snd_conv)
  show kn: "IsTimeseriesKnown c2 k = IsTimeseriesKnown c k" for k
    by (simp add: same_at_known [OF s1] same_at_known [OF s2])
  have t1: "total_at c1 ?I k = total_at c ?I k" for k by (rule total_at_later [OF assms(2) w1 s1 assms(3)])
  then show "total_at c2 ?I k = total_at c ?I k" for k using total_at_later [OF w1 w2 s2] by simp
  show "map_option LastBackendSync (fmlookup (known c2) k) = map_option LastBackendSync (fmlookup (known c) k)" for k
    by (simp add: same_at_sync [OF s1] same_at_sync [OF s2])
  show "idle ?I c k" if "k \<in> set keys" for k
  proof -
    have "idle ?I c1 k" using that ks by (auto dest: in_set_takeD)
    then show ?thesis using t1 same_at_known [OF s1, of k] by (simp add: idle_def IsTimeseriesKnown_def)
  qed
qed

section \<open>Properties\<close>

text \<open>
  C4: the backend learns every series.  From any state with the stream up, a backend that answers
  every message (whatever the answer says) gets, within as many turns as there are batches of
  5000, every discovered series exactly once, with its 16-byte fingerprint, its metric name and
  its labels in order, and the discovered cache is empty afterwards.
\<close>

theorem every_series_announced:
  assumes "connected e (2 * length ts)" "list_all (healthy a) ts"
    "discovered_GetSize (discoveredTimeseriesCache e) \<le> 5000 * length ts"
  shows "\<exists>ks. distinct ks \<and> set ks = fset (fmdom (discovered (discoveredTimeseriesCache e)))
    \<and> created (outbox (timeseriesProcessorLoop ts e)) =
        created (outbox e) @ map (\<lambda>k. series_of k (entry_at (discoveredTimeseriesCache e) k)) ks
    \<and> discovered_GetSize (discoveredTimeseriesCache (timeseriesProcessorLoop ts e)) = 0"
proof -
  have "card (waiting_keys (discoveredTimeseriesCache e)) \<le> 5000 * length ts"
    using assms(3) by (simp add: waiting_keys_def discovered_GetSize_def map_len_def fcard.rep_eq)
  from loop_healthy [OF assms(1,2) refl this] show ?thesis
    by (auto simp: waiting_keys_def discovered_GetSize_def)
qed

text \<open>
  A discovered series is not forgotten before it is acknowledged.  After a turn on the
  discovered cache a series is gone exactly when it was in the batch and the call for the batch
  was acknowledged; the other caches are untouched.
\<close>

theorem purged_only_when_acked:
  assumes "enumerates (discovered_visit t (discoveredTimeseriesCache e)) (discovered (discoveredTimeseriesCache e))"
    "quiet (create_wait t)"
  shows "let e' = snd (processOneDiscoveredBatch t e);
             (items, keys) = GetBatch (discovered_visit t (discoveredTimeseriesCache e)) 5000 (discoveredTimeseriesCache e)
         in (\<forall>k. fmlookup (discovered (discoveredTimeseriesCache e')) k =
               (if k \<in> set keys \<and> acked (sendDiscoveredTimeseriesBatch t items e) then None
                else fmlookup (discovered (discoveredTimeseriesCache e)) k))
            \<and> knownTimeseriesCache e' = knownTimeseriesCache e \<and> demandTimeseriesCache e' = demandTimeseriesCache e"
proof (cases "discovered (discoveredTimeseriesCache e) = fmempty")
  case True
  then show ?thesis using processOneDiscoveredBatch_eq [OF assms(1)] by (simp add: GetBatch_eq [OF assms(1)])
next
  case False
  let ?d = "discoveredTimeseriesCache e"
  let ?ks = "take 5000 (discovered_visit t ?d)"
  obtain err e1 where r: "sendDiscoveredTimeseriesBatch t (map (item_of ?d) ?ks) e = (err, e1)" by fastforce
  have c: "caches e1 = caches e"
    using quiet_call [OF assms(2)] r unfolding sendDiscoveredTimeseriesBatch_def by (metis snd_conv)
  show ?thesis using processOneDiscoveredBatch_eq [OF assms(1)] False r caches_eqD [OF c]
    by (cases err)
      (auto simp: GetBatch_eq [OF assms(1)] acked_def sendDiscoveredTimeseriesBatch_def created_series_items)
qed

text \<open>
  When nothing else touches the caches while it waits, the turn on the known cache forgets only
  idle series.  The ring buffers stay well formed,
  no series appears, a series that disappears had no sample in the last eight hours, and the
  eight-hour total of every series that stays is the same as before.  (What holds when pipelines
  act in the waits is in \<open>Idle_Deletion\<close>.)
\<close>

theorem known_turn_safe:
  assumes "quiet_turn t" "known_wf (knownTimeseriesCache e)"
    "\<forall>c. enumerates (active_visit t c) (known c) \<and> enumerates (inactive_visit t c) (known c)"
    "hour_of (active_now t) \<le> hour_of (inactive_now t)"
  shows "let c = knownTimeseriesCache e; c' = knownTimeseriesCache (snd (processOneKnownBatch t e));
             C = hour_of (inactive_now t)
         in known_wf c'
            \<and> (\<forall>k. IsTimeseriesKnown c' k \<longrightarrow> IsTimeseriesKnown c k \<and> total_at c' C k = total_at c C k)
            \<and> (\<forall>k. IsTimeseriesKnown c k \<and> \<not> IsTimeseriesKnown c' k \<longrightarrow> idle C c k)
            \<and> discoveredTimeseriesCache (snd (processOneKnownBatch t e)) = discoveredTimeseriesCache e"
proof -
  obtain items c1 where i: "GetActiveTimeseriesBatch (active_now t) (active_visit t (knownTimeseriesCache e))
    (sync_now t - 60) 30000 (knownTimeseriesCache e) = (items, c1)" by fastforce
  obtain keys c2 where k: "GetInactiveTimeseriesBatch (inactive_now t) (inactive_visit t c1) 30000 c1 = (keys, c2)"
    by fastforce
  obtain del upd where eff: "caches (snd (processOneKnownBatch t e)) =
      caches (e\<lparr>knownTimeseriesCache := known_effect del upd (mark_now t) keys items c2\<rparr>)"
    using processOneKnownBatch_quiet [OF assms(1) i k] by blast
  note g = known_gets [OF assms(3,2,4) i k]
  have known_eff: "IsTimeseriesKnown (known_effect del upd (mark_now t) keys items c2) x \<longleftrightarrow>
      IsTimeseriesKnown (knownTimeseriesCache e) x \<and> \<not> (del \<and> x \<in> set keys)" for x
    using g(2) [of x] by (auto simp: IsTimeseriesKnown_def known_effect_lookup)
  show ?thesis using caches_eqD(1,2) [OF eff] g known_effect_wf [OF g(1)] known_effect_total known_eff
    by (simp add: Let_def)
qed

text \<open>
  A turn without an answer loses nothing.  When every wait of a turn ends with the timeout,
  the discovered cache is unchanged, every known series is still known with the same total and
  none is marked as synced.
\<close>

theorem unanswered_turn_keeps:
  assumes "quiet_turn t" "unanswered_turn t" "known_wf (knownTimeseriesCache e)"
    "\<forall>c. enumerates (active_visit t c) (known c) \<and> enumerates (inactive_visit t c) (known c)"
    "\<forall>c. enumerates (discovered_visit t c) (discovered c)"
    "hour_of (active_now t) \<le> hour_of (inactive_now t)"
  shows "let c = knownTimeseriesCache e; c' = knownTimeseriesCache (processor_turn t e);
             C = hour_of (inactive_now t)
         in discoveredTimeseriesCache (processor_turn t e) = discoveredTimeseriesCache e
            \<and> (\<forall>k. IsTimeseriesKnown c' k = IsTimeseriesKnown c k \<and> total_at c' C k = total_at c C k
                 \<and> map_option LastBackendSync (fmlookup (known c') k)
                   = map_option LastBackendSync (fmlookup (known c) k))"
proof (cases "discovered (discoveredTimeseriesCache e) = fmempty")
  case False
  let ?d = "discoveredTimeseriesCache e"
  let ?r = "logged_ack (sendAndWaitAck (net t) (others (create_wait t)) (timer (create_wait t))
    (AgentMessage_IndexCreate (map (\<lambda>k. series_of k (entry_at ?d k)) (take 5000 (discovered_visit t ?d)))) e)"
  have q: "quiet (create_wait t)" using assms(1) by (simp add: quiet_turn_def)
  have tm: "timer (create_wait t) = True" using assms(2) by (simp add: unanswered_turn_def)
  obtain err e1 where r: "?r = (Some err, e1)"
    using timer_call [of "net t" "others (create_wait t)"
        "AgentMessage_IndexCreate (map (\<lambda>k. series_of k (entry_at ?d k)) (take 5000 (discovered_visit t ?d)))" e]
    unfolding tm by (metis option.exhaust surjective_pairing)
  have c: "caches e1 = caches e" using quiet_call [OF q] r by (metis snd_conv)
  have "processor_turn t e = e1"
    using processOneDiscoveredBatch_eq [of t e] assms(5) False r by (simp add: processor_turn_def)
  then show ?thesis using caches_eqD [OF c] by (simp add: Let_def)
next
  case True
  obtain items c1 where i: "GetActiveTimeseriesBatch (active_now t) (active_visit t (knownTimeseriesCache e))
    (sync_now t - 60) 30000 (knownTimeseriesCache e) = (items, c1)" by fastforce
  obtain keys c2 where k: "GetInactiveTimeseriesBatch (inactive_now t) (inactive_visit t c1) 30000 c1 = (keys, c2)"
    by fastforce
  have eff: "caches (snd (processOneKnownBatch t e)) = caches (e\<lparr>knownTimeseriesCache := c2\<rparr>)"
    using processOneKnownBatch_quiet [OF assms(1) i k] assms(2) by (auto simp: unanswered_turn_def known_effect_def)
  have "enumerates (discovered_visit t (discoveredTimeseriesCache e)) (discovered (discoveredTimeseriesCache e))"
    using assms(5) by blast
  from processOneDiscoveredBatch_eq [OF this] have "processor_turn t e = snd (processOneKnownBatch t e)"
    using True by (simp add: processor_turn_def)
  then show ?thesis using caches_eqD(1,2) [OF eff] known_gets(2,3,5) [OF assms(4,3,6) i k] by (simp add: Let_def)
qed

section \<open>Witnesses\<close>

text \<open>A state with the stream up, one discovered series and two known ones of which one is idle;
  a turn whose messages are answered, and one that is never answered.\<close>

definition demo_edge :: edgeControllerExtension where
  "demo_edge = newEdgeControllerExtension\<lparr>stream_up := True, knownTimeseriesCache := two_entries,
     discoveredTimeseriesCache := one_discovered\<rparr>"

definition answered_turn :: turn where
  "answered_turn = (let w = \<lparr>others = (\<lambda>i. resolvePending i demo_ack), timer = False\<rparr> in
     \<lparr>net = (\<lambda>_ _. True), discovered_visit = (\<lambda>c. sorted_keys (discovered c)), create_wait = w,
      sync_now = 3600, active_now = 3600, active_visit = (\<lambda>c. sorted_keys (known c)),
      inactive_now = 3600, inactive_visit = (\<lambda>c. sorted_keys (known c)), delete_wait = w,
      between = (\<lambda>e. e), cancelled = False, update_wait = w, mark_now = 3601\<rparr>)"

definition silent_turn :: turn where
  "silent_turn = (let w = \<lparr>others = (\<lambda>i e. e), timer = True\<rparr> in
     answered_turn\<lparr>create_wait := w, delete_wait := w, update_wait := w\<rparr>)"

lemma answered_turn_healthy: "healthy demo_ack answered_turn"
  by (simp add: healthy_def answered_turn_def answers_def enumerates_sorted_keys Let_def)

lemma resolvePending_caches: "caches (resolvePending i a e) = caches e"
  by (simp add: resolvePending_def caches_def split: option.splits)

lemma demo_turns_quiet: "quiet_turn answered_turn" "quiet_turn silent_turn"
  by (simp_all add: quiet_turn_def quiet_def answered_turn_def silent_turn_def resolvePending_caches Let_def)

lemma demo_turns_visit:
  "enumerates (active_visit answered_turn c) (known c)" "enumerates (inactive_visit answered_turn c) (known c)"
  "enumerates (active_visit silent_turn c) (known c)" "enumerates (inactive_visit silent_turn c) (known c)"
  "enumerates (discovered_visit answered_turn d) (discovered d)"
  "enumerates (discovered_visit silent_turn d) (discovered d)"
  "active_now answered_turn = 3600" "inactive_now answered_turn = 3600"
  "active_now silent_turn = 3600" "inactive_now silent_turn = 3600" "unanswered_turn silent_turn"
  by (simp_all add: answered_turn_def silent_turn_def enumerates_sorted_keys unanswered_turn_def Let_def)

lemma demo_edge_simps:
  "knownTimeseriesCache demo_edge = two_entries" "discoveredTimeseriesCache demo_edge = one_discovered"
  "outbox demo_edge = []" "connected demo_edge 2"
  by (simp_all add: demo_edge_def newEdgeControllerExtension_def connected_def)

text \<open>Witness of C4 (\<open>every_series_announced\<close>).\<close>

theorem every_series_announced_witness:
  "set (map ds_Fingerprint (created (outbox (timeseriesProcessorLoop [answered_turn] demo_edge)))) = {''k''}
   \<and> discovered_GetSize (discoveredTimeseriesCache (timeseriesProcessorLoop [answered_turn] demo_edge)) = 0"
proof -
  have 1: "connected demo_edge (2 * length [answered_turn])" by (simp add: demo_edge_simps)
  have 2: "list_all (healthy demo_ack) [answered_turn]" by (simp add: answered_turn_healthy)
  have "discovered_GetSize one_discovered \<le> 5000" by code_simp
  then have 3: "discovered_GetSize (discoveredTimeseriesCache demo_edge) \<le> 5000 * length [answered_turn]"
    by (simp add: demo_edge_simps)
  have keys: "fset (fmdom (discovered (discoveredTimeseriesCache demo_edge))) = {''k''}"
    by (simp add: demo_edge_simps one_discovered_def discovered_Add_def NewDiscoveredTimeseriesCache_def)
  have fp: "ds_Fingerprint (series_of k x) = k" for k x by (simp add: series_of_def)
  from every_series_announced [OF 1 2 3] obtain ks where "set ks = {''k''}"
    "created (outbox (timeseriesProcessorLoop [answered_turn] demo_edge)) =
       map (\<lambda>k. series_of k (entry_at (discoveredTimeseriesCache demo_edge) k)) ks"
    "discovered_GetSize (discoveredTimeseriesCache (timeseriesProcessorLoop [answered_turn] demo_edge)) = 0"
    unfolding keys demo_edge_simps(3) created.simps append_Nil by blast
  then show ?thesis by (simp only: map_map comp_def fp) simp
qed

text \<open>Witness (\<open>purged_only_when_acked\<close>).\<close>

theorem purged_only_when_acked_witness:
  "fmlookup (discovered (discoveredTimeseriesCache (snd (processOneDiscoveredBatch silent_turn demo_edge)))) ''k''
     = fmlookup (discovered one_discovered) ''k''"
proof -
  have q: "quiet (create_wait silent_turn)" using demo_turns_quiet by (simp add: quiet_turn_def)
  have "\<not> acked (sendDiscoveredTimeseriesBatch silent_turn items demo_edge)" for items
    using timer_call by (simp add: acked_def sendDiscoveredTimeseriesBatch_def silent_turn_def Let_def)
  with purged_only_when_acked [OF demo_turns_visit(6) q, of demo_edge] show ?thesis
    by (simp add: Let_def case_prod_unfold demo_edge_simps)
qed

text \<open>Example for the quiet turn (\<open>known_turn_safe\<close>).\<close>

theorem known_turn_safe_witness:
  "known_wf (knownTimeseriesCache (snd (processOneKnownBatch answered_turn demo_edge)))
   \<and> (IsTimeseriesKnown (knownTimeseriesCache (snd (processOneKnownBatch answered_turn demo_edge))) ''a''
      \<or> idle (hour_of 3600) two_entries ''a'')"
proof -
  have wf: "known_wf (knownTimeseriesCache demo_edge)" by (simp add: demo_edge_simps two_entries_wf)
  have "IsTimeseriesKnown two_entries ''a''" by code_simp
  then show ?thesis using known_turn_safe [OF demo_turns_quiet(1) wf] 
    by (simp add: demo_turns_visit demo_edge_simps Let_def) blast
qed

text \<open>Witness (\<open>unanswered_turn_keeps\<close>).\<close>

theorem unanswered_turn_keeps_witness:
  "discoveredTimeseriesCache (processor_turn silent_turn demo_edge) = one_discovered
   \<and> IsTimeseriesKnown (knownTimeseriesCache (processor_turn silent_turn demo_edge)) ''a''"
proof -
  have wf: "known_wf (knownTimeseriesCache demo_edge)" by (simp add: demo_edge_simps two_entries_wf)
  have "IsTimeseriesKnown two_entries ''a''" by code_simp
  then show ?thesis using unanswered_turn_keeps [OF demo_turns_quiet(2) demo_turns_visit(11) wf]
    by (simp add: demo_turns_visit demo_edge_simps Let_def)
qed

end
