(* ===== verification/Processor_Steps.thy ===== *)
theory Processor_Steps
  imports Timeseries_Processor
begin

text \<open>
  The goroutine of the timeseries processor as a program with a counter
  (\<open>src/components/edgecontroller/timeseries_processor.go\<close>).  Where
  \<open>Timeseries_Processor\<close> runs one turn as a function, with the rest of the agent in its waits,
  this theory breaks the loop up at every point where another goroutine can act: between any two
  critical sections, of the caches or of \<open>sendAndWaitAck\<close>.  Each session of the control stream
  starts such a goroutine, and the one of an earlier session may still be finishing.

  The lemmas: a step is a step of the correlated requests or leaves them alone; what it does to
  the caches; and that a turn run without interruption is the turn of \<open>Timeseries_Processor\<close>.
\<close>

section \<open>The counter\<close>

text \<open>What a call is followed by once it is acknowledged.\<close>

datatype follow_up =
    ToPurge "HashKey list"
  | ToDelete "HashKey list" "KnownActiveTimeseriesItem list"
  | ToMark "HashKey list"

datatype proc =
    LoopHead
  | Checked
  | NoneDiscovered
  | GotActive "KnownActiveTimeseriesItem list"
  | Calling AgentMessage_Body follow_up
  | Numbered "64 word" AgentMessage_Body follow_up
  | Entered "64 word" AgentMessage_Body follow_up
  | AwaitingAck "64 word" follow_up
  | Acked follow_up
  | Between "KnownActiveTimeseriesItem list"
  | Ended

datatype proc_event =
    Call ctl_event
  | Scanned
  | Purged "HashKey list"
  | Deleted "HashKey list"
  | Marked "HashKey list"
  | ProcEnded

definition update_call :: "KnownActiveTimeseriesItem list \<Rightarrow> proc" where
  "update_call activeItems =
     Calling (AgentMessage_IndexUpdate (updated_series activeItems)) (ToMark (map item_HashKey activeItems))"

definition set_known :: "ctl \<Rightarrow> KnownTimeseriesCache \<Rightarrow> ctl" where
  "set_known s c = s\<lparr>edge := (edge s)\<lparr>knownTimeseriesCache := c\<rparr>\<rparr>"

definition set_discovered :: "ctl \<Rightarrow> DiscoveredTimeseriesCache \<Rightarrow> ctl" where
  "set_discovered s c = s\<lparr>edge := (edge s)\<lparr>discoveredTimeseriesCache := c\<rparr>\<rparr>"

text \<open>Where the counter goes after the two scans of the known cache.\<close>

definition known_call :: "KnownActiveTimeseriesItem list \<Rightarrow> HashKey list \<Rightarrow> proc" where
  "known_call activeItems inactiveKeys =
     (if 0 < length inactiveKeys
      then Calling (AgentMessage_IndexDelete inactiveKeys) (ToDelete inactiveKeys activeItems)
      else if 0 < length activeItems then update_call activeItems else LoopHead)"

text \<open>The steps.  \<open>done\<close> says that the context of the goroutine is cancelled.  A wait
  of the loop that sees both its timer and the cancelled context may take either; the counter is
  then at \<open>LoopHead\<close>, which also stands for the sleeps at the end of a turn.\<close>

inductive proc_step :: "bool \<Rightarrow> ctl \<Rightarrow> proc \<Rightarrow> proc_event \<Rightarrow> ctl \<Rightarrow> proc \<Rightarrow> bool" where
  p_end: "done \<Longrightarrow> proc_step done s LoopHead ProcEnded s Ended"
| p_check: "\<not> done \<Longrightarrow> proc_step done s LoopHead Scanned s Checked"
| p_create: "enumerates visit (discovered (discoveredTimeseriesCache (edge s))) \<Longrightarrow>
    GetBatch visit DiscoveredBatchSize (discoveredTimeseriesCache (edge s)) = (items, keys) \<Longrightarrow>
    length items \<noteq> 0 \<Longrightarrow>
    proc_step done s Checked Scanned s (Calling (AgentMessage_IndexCreate (created_series items)) (ToPurge keys))"
| p_none: "enumerates visit (discovered (discoveredTimeseriesCache (edge s))) \<Longrightarrow>
    GetBatch visit DiscoveredBatchSize (discoveredTimeseriesCache (edge s)) = (items, keys) \<Longrightarrow>
    length items = 0 \<Longrightarrow> proc_step done s Checked Scanned s NoneDiscovered"
| p_active: "enumerates visit (known (knownTimeseriesCache (edge s))) \<Longrightarrow>
    GetActiveTimeseriesBatch now visit (sync - LastBackendSyncThresholdSeconds) KnownBatchSize
      (knownTimeseriesCache (edge s)) = (activeItems, c) \<Longrightarrow>
    proc_step done s NoneDiscovered Scanned (set_known s c) (GotActive activeItems)"
| p_inactive: "enumerates visit (known (knownTimeseriesCache (edge s))) \<Longrightarrow>
    GetInactiveTimeseriesBatch now visit KnownBatchSize (knownTimeseriesCache (edge s)) = (inactiveKeys, c) \<Longrightarrow>
    proc_step done s (GotActive activeItems) Scanned (set_known s c) (known_call activeItems inactiveKeys)"
| p_drawn: "ctl_step s (Drawn i) s' \<Longrightarrow>
    proc_step done s (Calling body f) (Call (Drawn i)) s' (Numbered i body f)"
| p_begun: "ctl_step s (Begun i) s' \<Longrightarrow>
    proc_step done s (Numbered i body f) (Call (Begun i)) s' (Entered i body f)"
| p_sent: "ctl_step s (Sent i body) s' \<Longrightarrow>
    proc_step done s (Entered i body f) (Call (Sent i body)) s' (AwaitingAck i f)"
| p_failed: "ctl_step s (SendFailed i) s' \<Longrightarrow>
    proc_step done s (Entered i body f) (Call (SendFailed i)) s' LoopHead"
| p_returned: "ctl_step s (Returned i a) s' \<Longrightarrow>
    proc_step done s (AwaitingAck i f) (Call (Returned i a)) s' (Acked f)"
| p_timed_out: "ctl_step s (TimedOut i) s' \<Longrightarrow>
    proc_step done s (AwaitingAck i f) (Call (TimedOut i)) s' LoopHead"
| p_purge: "proc_step done s (Acked (ToPurge keys)) (Purged keys)
    (set_discovered s (PurgeBatch keys (discoveredTimeseriesCache (edge s)))) LoopHead"
| p_delete: "proc_step done s (Acked (ToDelete keys activeItems)) (Deleted keys)
    (set_known s (DeleteBatch keys (knownTimeseriesCache (edge s))))
    (if 0 < length activeItems then Between activeItems else LoopHead)"
| p_cancelled: "done \<Longrightarrow> proc_step done s (Between activeItems) Scanned s LoopHead"
| p_update: "proc_step done s (Between activeItems) Scanned s (update_call activeItems)"
| p_mark: "proc_step done s (Acked (ToMark keys)) (Marked keys)
    (set_known s (MarkSyncedBatch now keys (knownTimeseriesCache (edge s)))) LoopHead"

inductive_cases proc_stepE: "proc_step done s pc ev s' pc'"

section \<open>What a step does\<close>

fun call_view :: "proc_event \<Rightarrow> ctl_event" where
  "call_view (Call ev) = ev"
| "call_view _ = Elsewhere"

lemma set_known_step: "ctl_step s Elsewhere (set_known s c)"
  by (simp add: set_known_def corr_same_def ctl_step.elsewhere)

lemma set_discovered_step: "ctl_step s Elsewhere (set_discovered s c)"
  by (simp add: set_discovered_def corr_same_def ctl_step.elsewhere)

lemma idle_step: "ctl_step s Elsewhere s"
  using ctl_step.elsewhere [of s "edge s"] by (simp add: corr_same_def)

text \<open>Every step of the goroutine is a step of the correlated requests.\<close>

lemma proc_ctl_step: "proc_step done s pc ev s' pc' \<Longrightarrow> ctl_step s (call_view ev) s'"
  by (erule proc_stepE) (simp_all add: set_known_step set_discovered_step idle_step)

lemma proc_calls_only:
  "proc_step done s pc (Call ev) s' pc' \<Longrightarrow> ev \<noteq> Elsewhere \<and> \<not> (\<exists>m. ev = ServerIn m)"
  by (erule proc_stepE) simp_all

lemma ended_no_step: "\<not> proc_step done s Ended ev s' pc'"
  by (auto elim: proc_stepE)

lemma proc_ends: "proc_step done s pc ev s' pc' \<Longrightarrow> pc' = Ended \<longleftrightarrow> ev = ProcEnded"
  by (erule proc_stepE) (auto simp: known_call_def update_call_def)

text \<open>The series of a fetched batch are all in the message.\<close>

lemma created_fingerprints:
  assumes "enumerates visit (discovered c)" "GetBatch visit n c = (items, keys)"
  shows "ds_Fingerprint ` set (created_series items) = set keys"
proof -
  have "items = map (item_of c) keys" using assms GetBatch_eq [OF assms(1), of n] by auto
  then show ?thesis by (simp add: created_series_items image_image series_of_def)
qed

section \<open>A turn as a run of steps\<close>

text \<open>Between the steps of the goroutine messages arrive and the rest of the agent works.\<close>

definition env_step :: "ctl \<Rightarrow> ctl \<Rightarrow> bool" where
  "env_step s s' \<longleftrightarrow> ctl_step s Elsewhere s' \<or> (\<exists>msg. ctl_step s (ServerIn msg) s')"

inductive sync_move :: "ctl \<times> proc \<Rightarrow> ctl \<times> proc \<Rightarrow> bool" where
  own_move: "proc_step done s pc ev s' pc' \<Longrightarrow> sync_move (s, pc) (s', pc')"
| env_move: "env_step s s' \<Longrightarrow> sync_move (s, pc) (s', pc)"

lemma env_moves: "env_step\<^sup>*\<^sup>* s s' \<Longrightarrow> sync_move\<^sup>*\<^sup>* (s, pc) (s', pc)"
  by (induction rule: rtranclp_induct) (auto intro: rtranclp.rtrancl_into_rtrancl env_move)

lemma move_own: "sync_move\<^sup>*\<^sup>* x (s, pc) \<Longrightarrow> proc_step done s pc ev s' pc' \<Longrightarrow> sync_move\<^sup>*\<^sup>* x (s', pc')"
  by (rule rtranclp.rtrancl_into_rtrancl) (auto intro: own_move)

text \<open>What the turn's surroundings do has to be something the rest of the agent can do.\<close>

definition possible :: "(edgeControllerExtension \<Rightarrow> edgeControllerExtension) \<Rightarrow> bool" where
  "possible g \<longleftrightarrow> (\<forall>s. env_step\<^sup>*\<^sup>* s (s\<lparr>edge := g (edge s)\<rparr>))"

definition possible_turn :: "turn \<Rightarrow> bool" where
  "possible_turn t \<longleftrightarrow>
     (\<forall>w \<in> {create_wait t, delete_wait t, update_wait t}. \<forall>i. possible (others w i)) \<and> possible (between t)
     \<and> (\<forall>c. enumerates (discovered_visit t c) (discovered c))
     \<and> (\<forall>c. enumerates (active_visit t c) (known c)) \<and> (\<forall>c. enumerates (inactive_visit t c) (known c))"

text \<open>A call, from the point where it is made to the point where it returned.\<close>

definition call_end :: "ack_error option \<Rightarrow> follow_up \<Rightarrow> proc" where
  "call_end err f = (if err = None then Acked f else LoopHead)"

lemma call_begin_moves:
  assumes "ack_begin nt body (edge s) = (r, e)"
  shows "\<exists>s'. edge s' = e \<and> sync_move\<^sup>*\<^sup>* (s, Calling body f)
    (s', case r of Inl err \<Rightarrow> LoopHead | Inr (i, ch) \<Rightarrow> AwaitingAck i f)
    \<and> (\<forall>i ch. r = Inr (i, ch) \<longrightarrow> (i, ch) \<in> calls s')"
proof -
  let ?i = "corrSeq (edge s) + 1" and ?ch = "next_chan (edge s)"
  let ?s1 = "s\<lparr>edge := (edge s)\<lparr>corrSeq := ?i\<rparr>, drawn := insert ?i (drawn s)\<rparr>"
  let ?e2 = "(edge s)\<lparr>corrSeq := ?i, next_chan := ?ch + 1, pending := fmupd ?i ?ch (pending (edge s))\<rparr>"
  let ?s2 = "?s1\<lparr>edge := ?e2, drawn := drawn ?s1 - {?i}, sending := insert (?i, ?ch) (sending ?s1)\<rparr>"
  have "ctl_step s (Drawn ?i) ?s1" by (rule call_drawn) (simp add: nextCorrID_def)
  from move_own [OF rtranclp.rtrancl_refl p_drawn [OF this]]
  have 1: "sync_move\<^sup>*\<^sup>* (s, Calling body f) (?s1, Numbered ?i body f)" .
  have "ctl_step ?s1 (Begun ?i) ?s2" by (rule call_begun) (simp_all add: ack_register_def Let_def)
  from move_own [OF 1 p_begun [OF this]]
  have 2: "sync_move\<^sup>*\<^sup>* (s, Calling body f) (?s2, Entered ?i body f)" .
  obtain err e3 where send: "ack_send nt ?i body ?e2 = (err, e3)" by fastforce
  then have r: "(r, e) = (case err of Some x \<Rightarrow> (Inl x, e3) | None \<Rightarrow> (Inr (?i, ?ch), e3))"
    using assms by (cases err) (simp_all add: ack_begin_def nextCorrID_def ack_register_def Let_def)
  show ?thesis
  proof (cases err)
    case (Some x)
    have "ctl_step ?s2 (SendFailed ?i) (?s2\<lparr>edge := e3, sending := sending ?s2 - {(?i, ?ch)}\<rparr>)"
      by (rule call_failed [where err = x]) (use send Some in auto)
    from move_own [OF 2 p_failed [OF this]] r Some show ?thesis
      by (intro exI [of _ "?s2\<lparr>edge := e3, sending := sending ?s2 - {(?i, ?ch)}\<rparr>"]) simp
  next
    case None
    let ?s3 = "?s2\<lparr>edge := e3, sending := sending ?s2 - {(?i, ?ch)}, calls := insert (?i, ?ch) (calls ?s2)\<rparr>"
    have "ctl_step ?s2 (Sent ?i body) ?s3" by (rule call_sent) (use send None in auto)
    from move_own [OF 2 p_sent [OF this]] r None show ?thesis by (intro exI [of _ ?s3]) simp
  qed
qed

lemma call_moves:
  assumes poss: "\<forall>i. possible (others w i)"
    and run: "logged_ack (sendAndWaitAck nt (others w) (timer w) body (edge s)) = (err, e')"
  shows "\<exists>s'. sync_move\<^sup>*\<^sup>* (s, Calling body f) (s', call_end err f) \<and> edge s' = e'"
proof -
  obtain r e where beg: "ack_begin nt body (edge s) = (r, e)" by fastforce
  from call_begin_moves [OF beg, of f] obtain s3 where s3: "edge s3 = e"
    "sync_move\<^sup>*\<^sup>* (s, Calling body f) (s3, case r of Inl x \<Rightarrow> LoopHead | Inr (i, ch) \<Rightarrow> AwaitingAck i f)"
    "\<forall>i ch. r = Inr (i, ch) \<longrightarrow> (i, ch) \<in> calls s3" by blast
  show ?thesis
  proof (cases r)
    case (Inl x)
    then show ?thesis using run beg s3 by (auto simp: sendAndWaitAck_def logged_ack_def call_end_def)
  next
    case (Inr p)
    obtain i ch where p: "p = (i, ch)" by fastforce
    let ?s4 = "s3\<lparr>edge := others w i e\<rparr>"
    have "env_step\<^sup>*\<^sup>* s3 (s3\<lparr>edge := others w i (edge s3)\<rparr>)" using poss by (simp only: possible_def)
    then have "sync_move\<^sup>*\<^sup>* (s3, AwaitingAck i f) (?s4, AwaitingAck i f)" using s3(1) by (intro env_moves) simp
    with s3(2) have 4: "sync_move\<^sup>*\<^sup>* (s, Calling body f) (?s4, AwaitingAck i f)" by (simp add: Inr p)
    have mem: "(i, ch) \<in> calls ?s4" using s3(3) Inr p by simp
    have res: "(err, e') = (case (if timer w then None else ack_receive i ch (others w i e)) of
        Some (a, e4) \<Rightarrow> (None, e4) | None \<Rightarrow> (Some DeadlineExceeded, ack_timeout i (others w i e)))"
      using run beg Inr p
      by (cases "timer w"; cases "ack_receive i ch (others w i e)") (auto simp: sendAndWaitAck_def logged_ack_def Let_def)
    show ?thesis
    proof (cases "if timer w then None else ack_receive i ch (others w i e)")
      case None
      let ?s5 = "?s4\<lparr>edge := ack_timeout i (edge ?s4), calls := calls ?s4 - {(i, ch)}\<rparr>"
      from move_own [OF 4 p_timed_out [OF call_timed_out [OF mem]]] res None show ?thesis
        by (intro exI [of _ ?s5]) (simp add: call_end_def)
    next
      case (Some ae)
      then have rec: "ack_receive i ch (edge ?s4) = Some (fst ae, snd ae)" by (simp split: if_splits)
      let ?s5 = "?s4\<lparr>edge := snd ae, calls := calls ?s4 - {(i, ch)}\<rparr>"
      from move_own [OF 4 p_returned [OF call_returned [OF mem rec]]] res Some show ?thesis
        by (intro exI [of _ ?s5]) (simp add: call_end_def case_prod_unfold)
    qed
  qed
qed

lemma moves_then:
  assumes "\<exists>s1. sync_move\<^sup>*\<^sup>* x (s1, pc1) \<and> edge s1 = e1"
    and "\<And>s1. edge s1 = e1 \<Longrightarrow> \<exists>s2. sync_move\<^sup>*\<^sup>* (s1, pc1) (s2, pc2) \<and> edge s2 = e2"
  shows "\<exists>s2. sync_move\<^sup>*\<^sup>* x (s2, pc2) \<and> edge s2 = e2"
proof -
  obtain s1 where 1: "sync_move\<^sup>*\<^sup>* x (s1, pc1)" "edge s1 = e1" using assms(1) by blast
  obtain s2 where 2: "sync_move\<^sup>*\<^sup>* (s1, pc1) (s2, pc2)" "edge s2 = e2" using assms(2) [OF 1(2)] by blast
  show ?thesis using rtranclp_trans [OF 1(1) 2(1)] 2(2) by blast
qed

lemma one_move:
  "proc_step done s pc ev s' pc' \<Longrightarrow> edge s' = e' \<Longrightarrow> \<exists>s'. sync_move\<^sup>*\<^sup>* (s, pc) (s', pc') \<and> edge s' = e'"
  using move_own [OF rtranclp.rtrancl_refl] by blast

lemma update_moves:
  assumes "possible_turn t"
  shows "\<exists>s'. sync_move\<^sup>*\<^sup>* (s, update_call act) (s', LoopHead) \<and> edge s' = update_phase t act (edge s)"
proof -
  obtain err e1 where call: "sendActiveTimeseriesBatch t act (edge s) = (err, e1)" by fastforce
  have "\<forall>i. possible (others (update_wait t) i)" using assms by (simp add: possible_turn_def)
  from call_moves [OF this call [unfolded sendActiveTimeseriesBatch_def]]
  have c: "\<exists>s'. sync_move\<^sup>*\<^sup>* (s, update_call act) (s', call_end err (ToMark (map item_HashKey act))) \<and> edge s' = e1"
    by (simp add: update_call_def)
  show ?thesis
  proof (cases err)
    case None
    with c show ?thesis
      by (intro moves_then [OF c] one_move) (auto simp: call_end_def set_known_def update_phase_def call intro: p_mark [where now = "mark_now t"])
  qed (use c in \<open>auto simp: call_end_def update_phase_def call\<close>)
qed

lemma then_update:
  assumes "possible_turn t" "\<exists>s1. sync_move\<^sup>*\<^sup>* x (s1, update_call act) \<and> edge s1 = e"
  shows "\<exists>s2. sync_move\<^sup>*\<^sup>* x (s2, LoopHead) \<and> edge s2 = update_phase t act e"
proof -
  obtain s1 where "sync_move\<^sup>*\<^sup>* x (s1, update_call act)" "edge s1 = e" using assms(2) by blast
  moreover obtain s2 where "sync_move\<^sup>*\<^sup>* (s1, update_call act) (s2, LoopHead)" "edge s2 = update_phase t act (edge s1)"
    using update_moves [OF assms(1)] by blast
  ultimately show ?thesis by (metis rtranclp_trans)
qed

lemma delete_moves:
  assumes t: "possible_turn t" and act: "hasActive \<longleftrightarrow> 0 < length act"
  shows "\<exists>s'. sync_move\<^sup>*\<^sup>* (s, Calling (AgentMessage_IndexDelete keys) (ToDelete keys act))
      (s', case delete_phase t keys hasActive (edge s) of
         Inl e \<Rightarrow> LoopHead | Inr e \<Rightarrow> if hasActive then update_call act else LoopHead)
    \<and> edge s' = (case delete_phase t keys hasActive (edge s) of Inl e \<Rightarrow> e | Inr e \<Rightarrow> e)"
proof -
  obtain err e1 where call: "sendInactiveTimeseriesBatch t keys (edge s) = (err, e1)" by fastforce
  let ?e2 = "e1\<lparr>knownTimeseriesCache := DeleteBatch keys (knownTimeseriesCache e1)\<rparr>"
  have "\<forall>i. possible (others (delete_wait t) i)" using t by (simp add: possible_turn_def)
  from call_moves [OF this call [unfolded sendInactiveTimeseriesBatch_def], of "ToDelete keys act"]
  have c: "\<exists>s'. sync_move\<^sup>*\<^sup>* (s, Calling (AgentMessage_IndexDelete keys) (ToDelete keys act))
      (s', call_end err (ToDelete keys act)) \<and> edge s' = e1" .
  show ?thesis
  proof (cases err)
    case None
    have d: "\<exists>s'. sync_move\<^sup>*\<^sup>* (s, Calling (AgentMessage_IndexDelete keys) (ToDelete keys act))
      (s', if 0 < length act then Between act else LoopHead) \<and> edge s' = ?e2"
    proof -
      have "\<exists>s2. sync_move\<^sup>*\<^sup>* (s1, Acked (ToDelete keys act))
        (s2, if 0 < length act then Between act else LoopHead) \<and> edge s2 = ?e2" if "edge s1 = e1" for s1
        using that by (intro one_move [OF p_delete]) (simp add: set_known_def)
      then show ?thesis by (rule moves_then [OF c [unfolded None call_end_def, simplified]])
    qed
    show ?thesis
    proof (cases hasActive)
      case True
      then have b: "\<exists>s'. sync_move\<^sup>*\<^sup>* (s, Calling (AgentMessage_IndexDelete keys) (ToDelete keys act))
        (s', Between act) \<and> edge s' = ?e2" using d act by simp
      show ?thesis
      proof (cases "cancelled t")
        case True': True
        have "\<exists>s2. sync_move\<^sup>*\<^sup>* (s1, Between act) (s2, LoopHead) \<and> edge s2 = ?e2" if "edge s1 = ?e2" for s1
          using that by (intro one_move [OF p_cancelled]) simp_all
        from moves_then [OF b this] show ?thesis using True True' None by (simp add: delete_phase_def call)
      next
        case False
        have "\<exists>s2. sync_move\<^sup>*\<^sup>* (s1, Between act) (s2, update_call act) \<and> edge s2 = between t ?e2" if "edge s1 = ?e2" for s1
        proof -
          have "env_step\<^sup>*\<^sup>* s1 (s1\<lparr>edge := between t (edge s1)\<rparr>)" using t by (simp add: possible_turn_def possible_def)
          from move_own [OF env_moves [OF this] p_update] show ?thesis
            using that by (intro exI [of _ "s1\<lparr>edge := between t (edge s1)\<rparr>"]) simp
        qed
        from moves_then [OF b this] show ?thesis using True False None by (simp add: delete_phase_def call)
      qed
    qed (use d act None in \<open>simp add: delete_phase_def call\<close>)
  qed (use c in \<open>simp add: delete_phase_def call call_end_def\<close>)
qed

lemma known_moves:
  assumes t: "possible_turn t"
  shows "\<exists>s'. sync_move\<^sup>*\<^sup>* (s, NoneDiscovered) (s', LoopHead) \<and> edge s' = snd (processOneKnownBatch t (edge s))"
proof -
  let ?c = "knownTimeseriesCache (edge s)"
  obtain act c1 where a: "GetActiveTimeseriesBatch (active_now t) (active_visit t ?c)
      (sync_now t - LastBackendSyncThresholdSeconds) KnownBatchSize ?c = (act, c1)" by fastforce
  obtain keys c2 where i: "GetInactiveTimeseriesBatch (inactive_now t) (inactive_visit t c1) KnownBatchSize c1 = (keys, c2)"
    by fastforce
  let ?e1 = "(edge s)\<lparr>knownTimeseriesCache := c2\<rparr>" and ?s1 = "set_known (set_known s c1) c2"
  have "proc_step False s NoneDiscovered Scanned (set_known s c1) (GotActive act)"
    using t a by (intro p_active) (simp_all add: possible_turn_def)
  from move_own [OF rtranclp.rtrancl_refl this]
  have "sync_move\<^sup>*\<^sup>* (s, NoneDiscovered) (set_known s c1, GotActive act)" .
  moreover have "proc_step False (set_known s c1) (GotActive act) Scanned ?s1 (known_call act keys)"
    using t i by (intro p_inactive [where visit = "inactive_visit t c1" and now = "inactive_now t"])
      (simp_all add: possible_turn_def set_known_def)
  ultimately have "sync_move\<^sup>*\<^sup>* (s, NoneDiscovered) (?s1, known_call act keys)" by (rule move_own)
  then have 1: "\<exists>s1. sync_move\<^sup>*\<^sup>* (s, NoneDiscovered) (s1, known_call act keys) \<and> edge s1 = ?e1"
    by (intro exI [of _ ?s1]) (simp add: set_known_def)
  let ?d = "delete_phase t keys (0 < length act) ?e1"
  have 2: "\<exists>s2. sync_move\<^sup>*\<^sup>* (s, NoneDiscovered)
      (s2, case ?d of Inl e \<Rightarrow> LoopHead | Inr e \<Rightarrow> if 0 < length act then update_call act else LoopHead)
      \<and> edge s2 = (case ?d of Inl e \<Rightarrow> e | Inr e \<Rightarrow> e)" if "keys \<noteq> []"
  proof -
    have pc: "known_call act keys = Calling (AgentMessage_IndexDelete keys) (ToDelete keys act)"
      using that by (simp add: known_call_def)
    show ?thesis
    proof (rule moves_then [OF 1 [unfolded pc]])
      fix s1 :: ctl assume e: "edge s1 = ?e1"
      show "\<exists>s2. sync_move\<^sup>*\<^sup>* (s1, Calling (AgentMessage_IndexDelete keys) (ToDelete keys act))
        (s2, case ?d of Inl e \<Rightarrow> LoopHead | Inr e \<Rightarrow> if 0 < length act then update_call act else LoopHead)
        \<and> edge s2 = (case ?d of Inl e \<Rightarrow> e | Inr e \<Rightarrow> e)"
        using delete_moves [OF t refl, of s1 keys act] by (simp only: e)
    qed
  qed
  show ?thesis
  proof (cases "keys = []")
    case True
    then show ?thesis using 1 then_update [OF t, of _ act ?e1] a i
      by (cases "act = []") (simp_all add: processOneKnownBatch_def known_call_def Let_def)
  next
    case False
    then show ?thesis using 2 then_update [OF t, of "(s, NoneDiscovered)" act] a i
      by (cases ?d; cases "act = []") (simp_all add: processOneKnownBatch_def Let_def)
  qed
qed

theorem turn_moves:
  assumes t: "possible_turn t"
  shows "\<exists>s'. sync_move\<^sup>*\<^sup>* (s, LoopHead) (s', LoopHead) \<and> edge s' = processor_turn t (edge s)"
proof -
  let ?c = "discoveredTimeseriesCache (edge s)"
  obtain items keys where b: "GetBatch (discovered_visit t ?c) DiscoveredBatchSize ?c = (items, keys)" by fastforce
  have en: "enumerates (discovered_visit t ?c) (discovered ?c)" using t by (simp add: possible_turn_def)
  have "proc_step False s LoopHead Scanned s Checked" by (rule p_check) simp
  note 1 = move_own [OF rtranclp.rtrancl_refl this]
  show ?thesis
  proof (cases "items = []")
    case True
    then have "sync_move\<^sup>*\<^sup>* (s, LoopHead) (s, NoneDiscovered)" using b en by (intro move_own [OF 1 p_none]) auto
    moreover obtain s' where "sync_move\<^sup>*\<^sup>* (s, NoneDiscovered) (s', LoopHead)"
      "edge s' = snd (processOneKnownBatch t (edge s))" using known_moves [OF t, of s] by blast
    moreover have "processor_turn t (edge s) = snd (processOneKnownBatch t (edge s))"
      using True b by (simp add: processor_turn_def processOneDiscoveredBatch_def)
    ultimately show ?thesis by (metis rtranclp_trans)
  next
    case False
    let ?body = "AgentMessage_IndexCreate (created_series items)"
    have "sync_move\<^sup>*\<^sup>* (s, LoopHead) (s, Calling ?body (ToPurge keys))"
      using b en False by (intro move_own [OF 1 p_create]) auto
    then have c0: "\<exists>s1. sync_move\<^sup>*\<^sup>* (s, LoopHead) (s1, Calling ?body (ToPurge keys)) \<and> edge s1 = edge s" by blast
    obtain err e1 where call: "sendDiscoveredTimeseriesBatch t items (edge s) = (err, e1)" by fastforce
    have "\<forall>i. possible (others (create_wait t) i)" using t by (simp add: possible_turn_def)
    note cm = call_moves [OF this, of "net t" ?body]
    have c: "\<exists>s1. sync_move\<^sup>*\<^sup>* (s, LoopHead) (s1, call_end err (ToPurge keys)) \<and> edge s1 = e1"
      by (rule moves_then [OF c0 cm]) (use call in \<open>simp add: sendDiscoveredTimeseriesBatch_def\<close>)
    show ?thesis
    proof (cases err)
      case None
      have "\<exists>s2. sync_move\<^sup>*\<^sup>* (s1, Acked (ToPurge keys)) (s2, LoopHead) \<and> edge s2 = processor_turn t (edge s)"
        if "edge s1 = e1" for s1
        using that False None by (intro one_move [OF p_purge])
          (simp add: set_discovered_def processor_turn_def processOneDiscoveredBatch_def b call)
      then show ?thesis using c None by (intro moves_then [OF c]) (simp add: call_end_def)
    qed (use c False in \<open>simp add: call_end_def processor_turn_def processOneDiscoveredBatch_def b call\<close>)
  qed
qed

end
