(* ===== verification/Batch_Feed.thy ===== *)
theory Batch_Feed
  imports Edge_Controller
begin

text \<open>
  A received batch by its critical sections (\<open>ReceiveTimeseriesBatch\<close> in
  \<open>src/components/edgecontroller/extension.go\<close>).  For every series of the batch the pipeline's
  goroutine looks the series up in the known cache, adds it to the discovered cache when it is
  new, and updates the known cache: three critical sections, between which the timeseries
  processors and other pipelines act.

  The lemma: run without interruption, the steps are \<open>ReceiveTimeseriesBatch\<close>.
\<close>

datatype feed_stage = Looking | Adding | Updating

text \<open>The series still to be handled, and where the goroutine is with the first one.\<close>

type_synonym feed = "(HashKey \<times> TimeseriesEntry) list \<times> feed_stage"

text \<open>A batch enters with its series in the order in which the map is visited.\<close>

definition feed_of :: "TimeseriesBatch \<Rightarrow> (HashKey \<times> TimeseriesEntry) list \<Rightarrow> bool" where
  "feed_of batch ps \<longleftrightarrow> distinct (map fst ps) \<and> fmap_of_list ps = Data batch"

inductive feed_step ::
    "edgeControllerExtension \<Rightarrow> feed \<Rightarrow> edgeControllerExtension \<Rightarrow> feed \<Rightarrow> bool" where
  f_look: "feed_step e ((k, x) # ps, Looking) e
    ((k, x) # ps, if IsTimeseriesKnown (knownTimeseriesCache e) k then Updating else Adding)"
| f_add: "feed_step e ((k, x) # ps, Adding)
    (e\<lparr>discoveredTimeseriesCache := discovered_Add k x (discoveredTimeseriesCache e)\<rparr>) ((k, x) # ps, Updating)"
| f_update: "UpdateTimeseries now k x (knownTimeseriesCache e) = Some c \<Longrightarrow>
    feed_step e ((k, x) # ps, Updating) (e\<lparr>knownTimeseriesCache := c\<rparr>) (ps, Looking)"

inductive_cases feed_stepE: "feed_step e f e' f'"

definition feed_move :: "edgeControllerExtension \<times> feed \<Rightarrow> edgeControllerExtension \<times> feed \<Rightarrow> bool" where
  "feed_move x y \<longleftrightarrow> feed_step (fst x) (snd x) (fst y) (snd y)"

lemma feed_one:
  assumes "UpdateTimeseries now k x (knownTimeseriesCache e) = Some c"
  shows "feed_move\<^sup>*\<^sup>* (e, (k, x) # ps, Looking)
    ((if IsTimeseriesKnown (knownTimeseriesCache e) k then e
      else e\<lparr>discoveredTimeseriesCache := discovered_Add k x (discoveredTimeseriesCache e)\<rparr>)\<lparr>knownTimeseriesCache := c\<rparr>,
     ps, Looking)"
proof -
  let ?d = "e\<lparr>discoveredTimeseriesCache := discovered_Add k x (discoveredTimeseriesCache e)\<rparr>"
  have look: "feed_move (e, (k, x) # ps, Looking)
    (e, (k, x) # ps, if IsTimeseriesKnown (knownTimeseriesCache e) k then Updating else Adding)"
    by (simp add: feed_move_def f_look)
  have upd: "feed_move (e', (k, x) # ps, Updating) (e'\<lparr>knownTimeseriesCache := c\<rparr>, ps, Looking)"
    if "knownTimeseriesCache e' = knownTimeseriesCache e" for e'
    using that assms by (simp add: feed_move_def f_update)
  have add: "feed_move (e, (k, x) # ps, Adding) (?d, (k, x) # ps, Updating)" by (simp add: feed_move_def f_add)
  show ?thesis
  proof (cases "IsTimeseriesKnown (knownTimeseriesCache e) k")
    case True
    then show ?thesis using look upd [of e] by (auto intro: converse_rtranclp_into_rtranclp)
  next
    case False
    then show ?thesis using look add upd [of ?d] by (auto intro!: converse_rtranclp_into_rtranclp [where r = feed_move])
  qed
qed

lemma feed_is_receive:
  assumes "ReceiveTimeseriesBatch visit batch e = Some e'" "map fst visit = map fst ps"
    "\<forall>(k, x) \<in> set ps. fmlookup (Data batch) k = Some x"
  shows "feed_move\<^sup>*\<^sup>* (e, ps, Looking) (e', [], Looking)"
  using assms unfolding ReceiveTimeseriesBatch_def
proof (induction ps arbitrary: visit e)
  case (Cons p ps)
  obtain k x where p: "p = (k, x)" by fastforce
  obtain now visit' where v: "visit = (k, now) # visit'" "map fst visit' = map fst ps"
    using Cons.prems(2) p by (cases visit) auto
  let ?e1 = "if IsTimeseriesKnown (knownTimeseriesCache e) k then e
      else e\<lparr>discoveredTimeseriesCache := discovered_Add k x (discoveredTimeseriesCache e)\<rparr>"
  have x: "fmlookup (Data batch) k = Some x" using Cons.prems(3) p by simp
  obtain c where c: "UpdateTimeseries now k x (knownTimeseriesCache ?e1) = Some c"
    "receive_loop (Data batch) visit' (?e1\<lparr>knownTimeseriesCache := c\<rparr>) = Some e'"
    using Cons.prems(1) v(1) x by (auto simp: Let_def split: option.splits)
  have c1: "UpdateTimeseries now k x (knownTimeseriesCache e) = Some c"
    using c(1) by (cases "IsTimeseriesKnown (knownTimeseriesCache e) k") simp_all
  have "feed_move\<^sup>*\<^sup>* (?e1\<lparr>knownTimeseriesCache := c\<rparr>, ps, Looking) (e', [], Looking)"
    using Cons.IH [OF c(2) v(2)] Cons.prems(3) by simp
  then show ?case unfolding p by (rule rtranclp_trans [OF feed_one [OF c1]])
qed simp

end
