(* ===== verification/Heartbeat_Steps.thy ===== *)
theory Heartbeat_Steps
  imports Edge_Controller
begin

text \<open>
  The heartbeat goroutine of the edge controller (\<open>pingLoop\<close> and \<open>buildPing\<close> in
  \<open>src/components/edgecontroller/extension.go\<close>): as a loop over its ticks, and as a program with
  a counter.  A heartbeat is put together from several reads, each a critical section of its
  own: the demand (one snapshot), the sizes of the two series caches, the pending updates, the
  known names when the demand has selectors, and the demanded series; the send comes last.
  Between any two of them the rest of the agent acts.

  The lemmas: a step changes nothing but what the stream accepted; the demand in a heartbeat is
  the snapshot its tick began with; and a tick run without interruption is \<open>ping_tick\<close>.
\<close>

section \<open>The loop\<close>

definition ping_message :: "Ping \<Rightarrow> AgentMessage" where
  "ping_message ping = \<lparr>am_CorrelationId = 0, am_Body = AgentMessage_Ping ping\<rparr>"

text \<open>One tick of \<open>pingLoop\<close>: the error ends the loop.\<close>

definition ping_tick ::
    "(AgentMessage list \<Rightarrow> AgentMessage \<Rightarrow> bool) \<Rightarrow> 're regexp_lib \<Rightarrow> HashKey list \<Rightarrow> int \<Rightarrow> edgeControllerExtension
     \<Rightarrow> send_error option \<times> edgeControllerExtension" where
  "ping_tick nt lib visit now e = sendAgentMessage nt (ping_message (buildPing lib visit now e)) e"

text \<open>\<open>pingLoop\<close> over the ticks before its context is cancelled; between two ticks
  (\<open>others\<close>) the rest of the agent runs.\<close>

record 're tick =
  tick_net :: "AgentMessage list \<Rightarrow> AgentMessage \<Rightarrow> bool"
  tick_visit :: "HashKey list"
  tick_now :: int
  tick_others :: "edgeControllerExtension \<Rightarrow> edgeControllerExtension"

fun pingLoop :: "'re regexp_lib \<Rightarrow> 're tick list \<Rightarrow> edgeControllerExtension \<Rightarrow> edgeControllerExtension" where
  "pingLoop lib [] e = e"
| "pingLoop lib (t # ts) e =
     (case ping_tick (tick_net t) lib (tick_visit t) (tick_now t) (tick_others t e) of
        (Some err, e1) \<Rightarrow> e1
      | (None, e1) \<Rightarrow> pingLoop lib ts e1)"

section \<open>The counter\<close>

text \<open>The reads so far: the demand, then the size of the known cache, the size of the discovered
  cache, the pending updates, the demanded names.\<close>

datatype ping_pc =
    PingWait
  | PingDemand DemandTimeseriesSnapshot
  | PingKnown DemandTimeseriesSnapshot nat
  | PingDiscovered DemandTimeseriesSnapshot nat nat
  | PingPending DemandTimeseriesSnapshot nat nat nat
  | PingNames DemandTimeseriesSnapshot nat nat nat "string key_set"
  | PingReady Ping
  | PingEnded

datatype ping_event = BeatBegun | BeatRead | BeatSent Ping | BeatFailed Ping | BeatEnded

definition ping_of :: "DemandTimeseriesSnapshot \<Rightarrow> nat \<Rightarrow> nat \<Rightarrow> nat \<Rightarrow> nat \<Rightarrow> Ping" where
  "ping_of demand k d p n =
     \<lparr>KnownCacheSize = of_nat k, DiscoveredCacheSize = of_nat d, PendingBackendUpdates = of_nat p,
      DemandCacheSize = of_nat (length (Timeseries demand)), DemandLastUpdate = snap_LastUpdate demand,
      DemandedKnownCacheSize = of_nat n, ping_DemandHash = DemandHash demand\<rparr>"

text \<open>\<open>done\<close> says that the context of the goroutine is cancelled.  The wait that sees both its
  ticker and the cancelled context may take either.  A message may go to a stream that is no longer
  the agent's (the \<open>stale\<close> rules), as in \<open>Edge_Controller\<close>.\<close>

inductive ping_step ::
    "'re regexp_lib \<Rightarrow> bool \<Rightarrow> edgeControllerExtension \<Rightarrow> ping_pc \<Rightarrow> ping_event \<Rightarrow> edgeControllerExtension \<Rightarrow> ping_pc \<Rightarrow> bool"
  for lib where
  b_end: "done \<Longrightarrow> ping_step lib done e PingWait BeatEnded e PingEnded"
| b_demand: "ping_step lib done e PingWait BeatBegun e (PingDemand (demand_GetDemands (demandTimeseriesCache e)))"
| b_known: "ping_step lib done e (PingDemand demand) BeatRead e (PingKnown demand (known_GetSize (knownTimeseriesCache e)))"
| b_discovered: "ping_step lib done e (PingKnown demand k) BeatRead e
    (PingDiscovered demand k (discovered_GetSize (discoveredTimeseriesCache e)))"
| b_pending: "enumerates visit (known (knownTimeseriesCache e)) \<Longrightarrow>
    ping_step lib done e (PingDiscovered demand k d) BeatRead e
      (PingPending demand k d (GetPendingBackendUpdates now visit (knownTimeseriesCache e)))"
| b_names: "enumerates visit (known (knownTimeseriesCache e)) \<Longrightarrow>
    ping_step lib done e (PingPending demand k d p) BeatRead e (PingNames demand k d p (demandedNameSet lib visit e demand))"
| b_count: "enumerates visit (known (knownTimeseriesCache e)) \<Longrightarrow>
    ping_step lib done e (PingNames demand k d p names) BeatRead e
      (PingReady (ping_of demand k d p (CountDemanded names visit (knownTimeseriesCache e))))"
| b_sent: "sendAgentMessage nt (ping_message ping) e = (None, e') \<Longrightarrow>
    ping_step lib done e (PingReady ping) (BeatSent ping) e' PingWait"
| b_failed: "sendAgentMessage nt (ping_message ping) e = (Some err, e') \<Longrightarrow>
    ping_step lib done e (PingReady ping) (BeatFailed ping) e' PingEnded"
| b_sent_stale: "ping_step lib done e (PingReady ping) (BeatSent ping) e PingWait"
| b_failed_stale: "ping_step lib done e (PingReady ping) (BeatFailed ping) e PingEnded"

inductive_cases ping_stepE: "ping_step lib done e pc ev e' pc'"

section \<open>What a step does\<close>

text \<open>Only the send touches the extension.\<close>

lemma ping_step_send:
  assumes "ping_step lib done e pc ev e' pc'"
  shows "e' = e \<or> (\<exists>nt msg r. sendAgentMessage nt msg e = (r, e'))"
  using assms by cases auto

text \<open>The hash and the size of the demand a heartbeat under way will carry.\<close>

fun carried :: "ping_pc \<Rightarrow> (64 word \<times> 32 word) option" where
  "carried (PingDemand s) = Some (DemandHash s, of_nat (length (Timeseries s)))"
| "carried (PingKnown s k) = Some (DemandHash s, of_nat (length (Timeseries s)))"
| "carried (PingDiscovered s k d) = Some (DemandHash s, of_nat (length (Timeseries s)))"
| "carried (PingPending s k d p) = Some (DemandHash s, of_nat (length (Timeseries s)))"
| "carried (PingNames s k d p ns) = Some (DemandHash s, of_nat (length (Timeseries s)))"
| "carried (PingReady ping) = Some (ping_DemandHash ping, DemandCacheSize ping)"
| "carried _ = None"

lemma carried_step:
  assumes "ping_step lib done e pc ev e' pc'"
  shows "(ev = BeatBegun \<longrightarrow> carried pc' = Some (DemandHash (demand_GetDemands (demandTimeseriesCache e)),
           of_nat (length (Timeseries (demand_GetDemands (demandTimeseriesCache e))))))
    \<and> (ev \<noteq> BeatBegun \<longrightarrow> carried pc' = None \<or> carried pc' = carried pc)
    \<and> (\<forall>ping. ev = BeatSent ping \<longrightarrow> carried pc = Some (ping_DemandHash ping, DemandCacheSize ping))"
  using assms by cases (simp_all add: ping_of_def)

section \<open>A tick without interruption\<close>

definition ping_move ::
    "'re regexp_lib \<Rightarrow> edgeControllerExtension \<times> ping_pc \<Rightarrow> edgeControllerExtension \<times> ping_pc \<Rightarrow> bool" where
  "ping_move lib x y \<longleftrightarrow> (\<exists>ev. ping_step lib False (fst x) (snd x) ev (fst y) (snd y))"

lemma ping_moveI: "ping_step lib False e pc ev e' pc' \<Longrightarrow> ping_move lib (e, pc) (e', pc')"
  by (auto simp: ping_move_def)

lemma ping_moves:
  "ping_step lib False e pc ev e' pc' \<Longrightarrow> (ping_move lib)\<^sup>*\<^sup>* (e', pc') y \<Longrightarrow> (ping_move lib)\<^sup>*\<^sup>* (e, pc) y"
  by (rule converse_rtranclp_into_rtranclp [where r = "ping_move lib"]) (auto simp: ping_move_def)

lemma ping_built:
  assumes "enumerates visit (known (knownTimeseriesCache e))"
  shows "(ping_move lib)\<^sup>*\<^sup>* (e, PingWait) (e, PingReady (buildPing lib visit now e))"
proof -
  let ?s = "demand_GetDemands (demandTimeseriesCache e)"
  let ?k = "known_GetSize (knownTimeseriesCache e)" and ?d = "discovered_GetSize (discoveredTimeseriesCache e)"
  let ?p = "GetPendingBackendUpdates now visit (knownTimeseriesCache e)" and ?ns = "demandedNameSet lib visit e ?s"
  let ?n = "CountDemanded ?ns visit (knownTimeseriesCache e)"
  have "(ping_move lib)\<^sup>*\<^sup>* (e, PingWait) (e, PingReady (ping_of ?s ?k ?d ?p ?n))"
    by (rule ping_moves [OF b_demand] ping_moves [OF b_known] ping_moves [OF b_discovered] ping_moves [OF b_pending [OF assms]]
        ping_moves [OF b_names [OF assms]] ping_moves [OF b_count [OF assms]] rtranclp.rtrancl_refl)+
  then show ?thesis by (simp add: buildPing_def ping_of_def Let_def)
qed

lemma tick_is_moves:
  assumes "enumerates visit (known (knownTimeseriesCache e))" "ping_tick nt lib visit now e = (err, e')"
  shows "(ping_move lib)\<^sup>*\<^sup>* (e, PingWait) (e', if err = None then PingWait else PingEnded)"
proof -
  have "ping_move lib (e, PingReady (buildPing lib visit now e)) (e', if err = None then PingWait else PingEnded)"
    using assms(2) ping_moveI [OF b_sent] ping_moveI [OF b_failed] unfolding ping_tick_def by (cases err) auto
  then show ?thesis by (rule rtranclp.rtrancl_into_rtrancl [OF ping_built [OF assms(1)]])
qed

end
