(* ===== verification/Edge_Config.thy ===== *)
theory Edge_Config
  imports Prelude
begin

text \<open>
  The configuration of the edge controller extension (\<open>src/components/edgecontroller/config.go\<close>)
  and its defaults (\<open>factory.go\<close>).  Durations are nanoseconds.
\<close>

record Config =
  cfg_Endpoint :: string
  AgentKey :: string
  Insecure :: bool
  ReconnectInterval :: int
  PingInterval :: int
  LocalVMQueryURL :: string
  LocalLokiQueryURL :: string
  LocalTempoQueryURL :: string
  DiagnosticsDir :: string
  RemoteConfigWrite :: bool
  cfg_ConfigFile :: string

datatype edge_config_error = EndpointMissing | AgentKeyMissing

definition edge_Validate :: "Config \<Rightarrow> edge_config_error option" where
  "edge_Validate cfg =
     (if cfg_Endpoint cfg = '''' then Some EndpointMissing
      else if AgentKey cfg = '''' then Some AgentKeyMissing
      else None)"

definition createDefaultConfig :: Config where
  "createDefaultConfig =
     \<lparr>cfg_Endpoint = ''localhost:9090'', AgentKey = '''', Insecure = False,
      ReconnectInterval = 5 * 1000000000, PingInterval = 30 * 1000000000,
      LocalVMQueryURL = ''http://127.0.0.1:8428'', LocalLokiQueryURL = '''', LocalTempoQueryURL = '''',
      DiagnosticsDir = '''', RemoteConfigWrite = True, cfg_ConfigFile = ''''\<rparr>"

text \<open>The defaults lack only the agent key.\<close>

lemma default_needs_key:
  "edge_Validate (createDefaultConfig\<lparr>AgentKey := k\<rparr>) = (if k = '''' then Some AgentKeyMissing else None)"
  by (simp add: edge_Validate_def createDefaultConfig_def)

end
