(* ===== verification/Go_Http.thy ===== *)
theory Go_Http
  imports Go_Strings
begin

text \<open>
  What the agent uses of Go's \<open>net/http\<close> headers, \<open>strings.EqualFold\<close>, \<open>path\<close> and
  \<open>path/filepath\<close> (on Unix).  The lemmas: a cleaned rooted path consists of proper segments,
  so it cannot climb, and cleaning twice changes nothing.
\<close>

section \<open>Header names\<close>

text \<open>\<open>http.Header.Set\<close> stores under \<open>textproto.CanonicalMIMEHeaderKey\<close>: a key of token
  bytes gets upper case at the start and after each hyphen and lower case elsewhere, any
  other key is left alone.\<close>

definition upper_byte :: "char \<Rightarrow> char" where
  "upper_byte c = (if CHR ''a'' \<le> c \<and> c \<le> CHR ''z'' then byte (ord c - 0x20) else c)"

definition lower_byte :: "char \<Rightarrow> char" where
  "lower_byte c = (if CHR ''A'' \<le> c \<and> c \<le> CHR ''Z'' then byte (ord c + 0x20) else c)"

definition validHeaderFieldByte :: "char \<Rightarrow> bool" where
  "validHeaderFieldByte c \<longleftrightarrow>
     0x30 \<le> ord c \<and> ord c \<le> 0x39 \<or> 0x41 \<le> ord c \<and> ord c \<le> 0x5A \<or> 0x61 \<le> ord c \<and> ord c \<le> 0x7A
     \<or> c \<in> set ''!#$%&*+-.^_|~'' \<or> c = CHR 0x27 \<or> c = bquote"

fun canonical_bytes :: "bool \<Rightarrow> string \<Rightarrow> string" where
  "canonical_bytes upper [] = []"
| "canonical_bytes upper (c # s) =
     (if upper then upper_byte c else lower_byte c) # canonical_bytes (c = CHR ''-'') s"

definition CanonicalMIMEHeaderKey :: "string \<Rightarrow> string" where
  "CanonicalMIMEHeaderKey s = (if list_all validHeaderFieldByte s then canonical_bytes True s else s)"

definition Header_Set :: "label_map \<Rightarrow> string \<Rightarrow> string \<Rightarrow> label_map" where
  "Header_Set h k v = fmupd (CanonicalMIMEHeaderKey k) v h"

text \<open>\<open>http.Header.Add\<close> appends to the values under the canonical key.\<close>

type_synonym header_values = "(string, string list) fmap"

definition header_get :: "header_values \<Rightarrow> string \<Rightarrow> string list" where
  "header_get h k = (case fmlookup h k of None \<Rightarrow> [] | Some vs \<Rightarrow> vs)"

definition Header_Add :: "header_values \<Rightarrow> string \<Rightarrow> string \<Rightarrow> header_values" where
  "Header_Add h k v =
     (let key = CanonicalMIMEHeaderKey k in fmupd key (header_get h key @ [v]) h)"

text \<open>\<open>strings.EqualFold\<close> where one side is ASCII: besides the case of letters, the long s and
  the Kelvin sign fold to ASCII letters.\<close>

definition fold_rune :: "nat \<Rightarrow> nat" where
  "fold_rune r =
     (if 0x41 \<le> r \<and> r \<le> 0x5A then r + 0x20
      else if r = 0x17F then 0x73
      else if r = 0x212A then 0x6B
      else r)"

definition EqualFold :: "string \<Rightarrow> string \<Rightarrow> bool" where
  "EqualFold s t \<longleftrightarrow> map (fold_rune \<circ> fst) (runes s) = map (fold_rune \<circ> fst) (runes t)"

section \<open>Paths\<close>

abbreviation slash :: char where "slash \<equiv> CHR ''/''"

fun split_slash :: "string \<Rightarrow> string list" where
  "split_slash [] = [[]]"
| "split_slash (c # s) =
     (if c = slash then [] # split_slash s
      else case split_slash s of [] \<Rightarrow> [[c]] | t # ts \<Rightarrow> (c # t) # ts)"

definition clean_step :: "bool \<Rightarrow> string \<Rightarrow> string list \<Rightarrow> string list" where
  "clean_step rooted seg stack =
     (if seg = '''' \<or> seg = ''.'' then stack
      else if seg = ''..'' then
        (case stack of
           [] \<Rightarrow> if rooted then [] else [''..'']
         | t # ts \<Rightarrow> if t = ''..'' then ''..'' # stack else ts)
      else seg # stack)"

definition clean_segments :: "bool \<Rightarrow> string \<Rightarrow> string list" where
  "clean_segments rooted p = rev (fold (clean_step rooted) (split_slash p) [])"

definition Clean :: "string \<Rightarrow> string" where
  "Clean p =
     (let rooted = HasPrefix p ''/''; segs = clean_segments rooted p
      in if rooted then slash # Join segs ''/''
         else if segs = [] then ''.'' else Join segs ''/'')"

definition IsAbs :: "string \<Rightarrow> bool" where
  "IsAbs p = HasPrefix p ''/''"

definition Dir :: "string \<Rightarrow> string" where
  "Dir p = Clean (rev (dropWhile (\<lambda>c. c \<noteq> slash) (rev p)))"

definition Base :: "string \<Rightarrow> string" where
  "Base p =
     (if p = '''' then ''.''
      else let q = TrimRight1 p slash;
               b = rev (takeWhile (\<lambda>c. c \<noteq> slash) (rev q))
        in if b = '''' then ''/'' else b)"

section \<open>Cleaned paths\<close>

definition proper_segment :: "string \<Rightarrow> bool" where
  "proper_segment s \<longleftrightarrow> s \<noteq> '''' \<and> s \<noteq> ''.'' \<and> s \<noteq> ''..'' \<and> slash \<notin> set s"

lemma split_slash_nonempty [simp]: "split_slash s \<noteq> []"
  by (induction s) (auto split: list.splits)

lemma split_slash_segments: "seg \<in> set (split_slash s) \<Longrightarrow> slash \<notin> set seg"
  by (induction s arbitrary: seg) (auto split: list.splits if_splits)

lemma clean_step_proper:
  "list_all proper_segment stack \<Longrightarrow> slash \<notin> set seg \<Longrightarrow> list_all proper_segment (clean_step True seg stack)"
  by (auto simp: clean_step_def proper_segment_def split: list.splits)

lemma clean_fold_proper:
  "list_all proper_segment stack \<Longrightarrow> \<forall>seg \<in> set segs. slash \<notin> set seg \<Longrightarrow>
   list_all proper_segment (fold (clean_step True) segs stack)"
  by (induction segs arbitrary: stack) (auto simp: clean_step_proper)

lemma clean_segments_proper: "list_all proper_segment (clean_segments True p)"
  using clean_fold_proper [of "[]" "split_slash p"] split_slash_segments
  by (auto simp: clean_segments_def list_all_iff)

lemma split_slash_append:
  "slash \<notin> set s \<Longrightarrow> split_slash (s @ slash # t) = s # split_slash t"
  by (induction s) auto

lemma split_slash_join: "split_slash (s @ slash # t) = split_slash s @ split_slash t"
proof (induction s)
  case (Cons c s)
  then show ?case by (cases "split_slash s") auto
qed simp

lemma split_slash_whole: "slash \<notin> set s \<Longrightarrow> split_slash s = [s]"
  by (induction s) auto

lemma split_slash_Join:
  "segs \<noteq> [] \<Longrightarrow> list_all proper_segment segs \<Longrightarrow> split_slash (Join segs ''/'') = segs"
proof (induction segs "''/''" rule: Join.induct)
  case (3 s t ss)
  then show ?case using split_slash_append [of s "Join (t # ss) ''/''"] by (simp add: proper_segment_def)
qed (simp_all add: split_slash_whole proper_segment_def)

lemma fold_clean_proper:
  "list_all proper_segment segs \<Longrightarrow> fold (clean_step True) segs stack = rev segs @ stack"
  by (induction segs arbitrary: stack) (auto simp: clean_step_def proper_segment_def)

lemma clean_segments_clean:
  assumes "list_all proper_segment segs"
  shows "clean_segments True (slash # Join segs ''/'') = segs"
proof (cases "segs = []")
  case True
  then show ?thesis by (simp add: clean_segments_def clean_step_def)
next
  case False
  then show ?thesis using fold_clean_proper [OF assms]
    by (simp add: clean_segments_def split_slash_Join [OF False assms]) (simp add: clean_step_def)
qed

lemma Clean_rooted:
  assumes "HasPrefix p ''/''"
  shows "Clean p = slash # Join (clean_segments True p) ''/''"
  using assms by (simp add: Clean_def Let_def)

lemma Clean_idempotent:
  assumes "HasPrefix p ''/''"
  shows "Clean (Clean p) = Clean p"
proof -
  have "HasPrefix (Clean p) ''/''" by (simp add: Clean_rooted [OF assms] HasPrefix_def)
  then show ?thesis
    by (simp add: Clean_rooted assms clean_segments_clean [OF clean_segments_proper])
qed

end
