(* ===== verification/Query_Handler.thy ===== *)
theory Query_Handler
  imports Edge_Controller Edge_Config Go_Http "HOL-Library.Multiset"
begin

text \<open>
  The query tunnel (\<open>src/components/edgecontroller/query_handler.go\<close>): a query pushed by
  the backend is checked against the read allow-list of its target, run against the local store,
  and answered with exactly one response.  Go's \<open>net/url\<close> and the HTTP client are the
  argument \<open>hc\<close>; \<open>'w\<close> is the state of the world a request may change.

  \<open>handleQueryRequest\<close> is four actions on the state its goroutines share: taking a slot of
  the semaphore, running the query, sending the response, giving the slot back.  The handler run
  alone performs them one after the other; the step relation interleaves those of any number of
  handlers with the messages the receive loop handles.

  The lemmas: only read requests to exactly the listed endpoints of the configured store leave the
  agent, the response fits the stream's message limit, and in every interleaving each query is
  answered exactly once and no slot is lost.
\<close>

section \<open>The local stores\<close>

record store_request =
  sr_method :: string
  sr_url :: string
  sr_header :: header_values
  sr_body :: string

record store_response =
  resp_status :: int
  resp_values :: "string \<Rightarrow> string list"
  resp_read :: "nat \<Rightarrow> string + string"

record ('u, 'w) store_http =
  url_Parse :: "string \<Rightarrow> 'u option"
  url_String :: "'u \<Rightarrow> string \<Rightarrow> string \<Rightarrow> string"
  NewRequest_error :: "string \<Rightarrow> string \<Rightarrow> string option"
  store_Do :: "'w \<Rightarrow> store_request \<Rightarrow> (string + store_response) \<times> 'w"

definition maxConcurrentQueries :: nat where
  "maxConcurrentQueries = 8"

definition maxMessageBytes :: nat where
  "maxMessageBytes = 16 * 1024 * 1024"

definition maxQueryResponseBytes :: nat where
  "maxQueryResponseBytes = maxMessageBytes - 2 ^ 20"

section \<open>Allow-lists\<close>

definition isAllowedVMPath :: "string \<Rightarrow> string \<Rightarrow> bool" where
  "isAllowedVMPath method cleanPath =
     (if method \<noteq> ''GET'' \<and> method \<noteq> ''POST'' then False
      else if cleanPath \<in> set [''/api/v1/query'', ''/api/v1/query_range'', ''/api/v1/series'',
                ''/api/v1/labels'', ''/api/v1/metadata''] then True
      else if HasPrefix cleanPath ''/api/v1/label/'' \<and> HasSuffix cleanPath ''/values'' then True
      else if HasPrefix cleanPath ''/api/v1/status/'' then True
      else False)"

definition isAllowedLokiPath :: "string \<Rightarrow> string \<Rightarrow> bool" where
  "isAllowedLokiPath method cleanPath =
     (if method \<noteq> ''GET'' \<and> method \<noteq> ''POST'' then False
      else if cleanPath \<in> set [''/loki/api/v1/query'', ''/loki/api/v1/query_range'', ''/loki/api/v1/labels'',
                ''/loki/api/v1/series'', ''/loki/api/v1/index/stats'', ''/loki/api/v1/index/volume'',
                ''/loki/api/v1/patterns''] then True
      else if HasPrefix cleanPath ''/loki/api/v1/label/'' \<and> HasSuffix cleanPath ''/values'' then True
      else False)"

definition isAllowedTempoPath :: "string \<Rightarrow> string \<Rightarrow> bool" where
  "isAllowedTempoPath method cleanPath =
     (if method \<noteq> ''GET'' \<and> method \<noteq> ''POST'' then False
      else if cleanPath \<in> set [''/api/echo'', ''/api/search'', ''/api/search/tags'', ''/api/v2/search/tags''] then True
      else if HasPrefix cleanPath ''/api/traces/'' \<or> HasPrefix cleanPath ''/api/v2/traces/'' then True
      else if (HasPrefix cleanPath ''/api/search/tag/'' \<or> HasPrefix cleanPath ''/api/v2/search/tag/'')
              \<and> HasSuffix cleanPath ''/values'' then True
      else False)"

section \<open>The handler\<close>

definition errResp :: "int \<Rightarrow> string \<Rightarrow> QueryResponse" where
  "errResp status msg =
     \<lparr>qs_StatusCode = word_of_int status, qs_Body = [], qs_Headers = [], qs_Error = msg\<rparr>"

text \<open>The base URL and the allow-list of the target, or the answer when it is not configured.\<close>

definition query_target ::
    "Config \<Rightarrow> QueryTarget \<Rightarrow> QueryResponse + string \<times> (string \<Rightarrow> string \<Rightarrow> bool)" where
  "query_target cfg target =
     (case target of
        QUERY_TARGET_LOKI \<Rightarrow>
          if LocalLokiQueryURL cfg = ''''
          then Inl (errResp 503 ''query disabled: local_loki_query_url not configured'')
          else Inr (LocalLokiQueryURL cfg, isAllowedLokiPath)
      | QUERY_TARGET_TEMPO \<Rightarrow>
          if LocalTempoQueryURL cfg = ''''
          then Inl (errResp 503 ''query disabled: local_tempo_query_url not configured'')
          else Inr (LocalTempoQueryURL cfg, isAllowedTempoPath)
      | _ \<Rightarrow>
          if LocalVMQueryURL cfg = ''''
          then Inl (errResp 503 ''query disabled: local_vm_query_url not configured'')
          else Inr (LocalVMQueryURL cfg, isAllowedVMPath))"

definition query_method :: "unicode_tables \<Rightarrow> QueryRequest \<Rightarrow> string" where
  "query_method u req =
     (let method = ToUpper u (qr_Method req) in if method = '''' then ''GET'' else method)"

definition query_path :: "QueryRequest \<Rightarrow> string" where
  "query_path req = Clean (slash # TrimPrefix (qr_Path req) ''/'')"

fun add_values :: "string \<Rightarrow> string list \<Rightarrow> header_values \<Rightarrow> header_values" where
  "add_values name [] h = h"
| "add_values name (v # vs) h = add_values name vs (Header_Add h name v)"

fun copy_headers :: "Header list \<Rightarrow> header_values \<Rightarrow> header_values" where
  "copy_headers [] out = out"
| "copy_headers (h # hs) out =
     (if EqualFold (header_Name h) ''Host'' then copy_headers hs out
      else copy_headers hs (add_values (header_Name h) (header_Values h) out))"

fun response_headers :: "(string \<Rightarrow> string list) \<Rightarrow> string list \<Rightarrow> Header list" where
  "response_headers values [] = []"
| "response_headers values (name # names) =
     (let v = values name in
      (if 0 < length v then [\<lparr>header_Name = name, header_Values = v\<rparr>] else [])
      @ response_headers values names)"

definition store_reply :: "store_response \<Rightarrow> QueryResponse" where
  "store_reply resp =
     (case resp_read resp (maxQueryResponseBytes + 1) of
        Inl err \<Rightarrow> errResp 502 (''read response: '' @ err)
      | Inr body \<Rightarrow>
          if length body > maxQueryResponseBytes then errResp 413 ''response too large''
          else \<lparr>qs_StatusCode = word_of_int (resp_status resp), qs_Body = body,
                qs_Headers = response_headers (resp_values resp) [''Content-Type'', ''Content-Encoding''],
                qs_Error = ''''\<rparr>)"

text \<open>A query that holds a slot: its answer and the requests it made.\<close>

definition run_query ::
    "unicode_tables \<Rightarrow> Config \<Rightarrow> ('u, 'w) store_http \<Rightarrow> 'w \<Rightarrow> QueryRequest
     \<Rightarrow> QueryResponse \<times> store_request list \<times> 'w" where
  "run_query u cfg hc w req =
     (case query_target cfg (qr_Target req) of
        Inl resp \<Rightarrow> (resp, [], w)
      | Inr (baseURL, isAllowed) \<Rightarrow>
          (let method = query_method u req; cleanPath = query_path req in
           if \<not> isAllowed method cleanPath then (errResp 403 ''path not allowed'', [], w)
           else case url_Parse hc baseURL of
             None \<Rightarrow> (errResp 500 ''invalid local query base url'', [], w)
           | Some target \<Rightarrow>
               (let url = url_String hc target cleanPath (qr_RawQuery req) in
                case NewRequest_error hc method url of
                  Some err \<Rightarrow> (errResp 500 (''build request: '' @ err), [], w)
                | None \<Rightarrow>
                    (let httpReq = \<lparr>sr_method = method, sr_url = url,
                           sr_header = copy_headers (qr_Headers req) fmempty, sr_body = qr_Body req\<rparr>
                     in case store_Do hc w httpReq of
                          (Inl err, w') \<Rightarrow> (errResp 502 (''local store unreachable: '' @ err), [httpReq], w')
                        | (Inr resp, w') \<Rightarrow> (store_reply resp, [httpReq], w')))))"

definition sendQueryResponse ::
    "(AgentMessage list \<Rightarrow> AgentMessage \<Rightarrow> bool) \<Rightarrow> 64 word \<Rightarrow> QueryResponse \<Rightarrow> edgeControllerExtension
     \<Rightarrow> edgeControllerExtension" where
  "sendQueryResponse net correlationID resp e =
     snd (sendAgentMessage net \<lparr>am_CorrelationId = correlationID, am_Body = AgentMessage_QueryResponse resp\<rparr> e)"

text \<open>What the handlers share, and where one of them stands: \<open>QueryReplying\<close> remembers
  whether the deferred receive from the semaphore is still to run.\<close>

record 'w tunnel =
  tun_edge :: edgeControllerExtension
  tun_world :: 'w
  querySem :: nat

datatype query_pc =
    QueryArrived
  | QueryAdmitted
  | QueryReplying bool QueryResponse
  | QueryReleasing
  | QueryReturned

definition query_acquire :: "'w tunnel \<Rightarrow> bool \<times> 'w tunnel" where
  "query_acquire s =
     (if querySem s < maxConcurrentQueries then (True, s\<lparr>querySem := Suc (querySem s)\<rparr>) else (False, s))"

definition query_release :: "'w tunnel \<Rightarrow> 'w tunnel" where
  "query_release s = s\<lparr>querySem := querySem s - 1\<rparr>"

fun query_action ::
    "unicode_tables \<Rightarrow> Config \<Rightarrow> ('u, 'w) store_http \<Rightarrow> (AgentMessage list \<Rightarrow> AgentMessage \<Rightarrow> bool)
     \<Rightarrow> 64 word \<Rightarrow> QueryRequest \<Rightarrow> query_pc \<Rightarrow> 'w tunnel \<Rightarrow> query_pc \<times> 'w tunnel \<times> store_request list" where
  "query_action u cfg hc net correlationID req QueryArrived s =
     (case query_acquire s of
        (True, s') \<Rightarrow> (QueryAdmitted, s', [])
      | (False, s') \<Rightarrow> (QueryReplying False (errResp 429 ''too many concurrent queries''), s', []))"
| "query_action u cfg hc net correlationID req QueryAdmitted s =
     (case run_query u cfg hc (tun_world s) req of
        (resp, reqs, w') \<Rightarrow> (QueryReplying True resp, s\<lparr>tun_world := w'\<rparr>, reqs))"
| "query_action u cfg hc net correlationID req (QueryReplying held resp) s =
     (if held then QueryReleasing else QueryReturned,
      s\<lparr>tun_edge := sendQueryResponse net correlationID resp (tun_edge s)\<rparr>, [])"
| "query_action u cfg hc net correlationID req QueryReleasing s = (QueryReturned, query_release s, [])"
| "query_action u cfg hc net correlationID req QueryReturned s = (QueryReturned, s, [])"

fun query_rank :: "query_pc \<Rightarrow> nat" where
  "query_rank QueryArrived = 4"
| "query_rank QueryAdmitted = 3"
| "query_rank (QueryReplying held resp) = 2"
| "query_rank QueryReleasing = 1"
| "query_rank QueryReturned = 0"

lemma query_action_rank:
  "query_action u cfg hc net i req pc s = (pc', s', reqs) \<Longrightarrow> pc \<noteq> QueryReturned \<Longrightarrow> query_rank pc' < query_rank pc"
  by (cases pc) (auto split: prod.splits bool.splits)

function query_finish ::
    "unicode_tables \<Rightarrow> Config \<Rightarrow> ('u, 'w) store_http \<Rightarrow> (AgentMessage list \<Rightarrow> AgentMessage \<Rightarrow> bool)
     \<Rightarrow> 64 word \<Rightarrow> QueryRequest \<Rightarrow> query_pc \<Rightarrow> 'w tunnel \<Rightarrow> 'w tunnel \<times> store_request list" where
  "query_finish u cfg hc net correlationID req pc s =
     (if pc = QueryReturned then (s, [])
      else case query_action u cfg hc net correlationID req pc s of
        (pc', s', reqs) \<Rightarrow>
          (case query_finish u cfg hc net correlationID req pc' s' of (s'', reqs') \<Rightarrow> (s'', reqs @ reqs')))"
  by pat_completeness auto
termination
  by (relation "measure (\<lambda>(u, cfg, hc, net, i, req, pc, s). query_rank pc)") (auto dest: query_action_rank [OF sym])

declare query_finish.simps [simp del]

text \<open>The handler from its first to its last action, with the number of slots taken when it
  starts.\<close>

definition handleQueryRequest ::
    "unicode_tables \<Rightarrow> Config \<Rightarrow> ('u, 'w) store_http \<Rightarrow> (AgentMessage list \<Rightarrow> AgentMessage \<Rightarrow> bool)
     \<Rightarrow> nat \<Rightarrow> 64 word \<Rightarrow> QueryRequest \<Rightarrow> edgeControllerExtension \<times> 'w
     \<Rightarrow> (edgeControllerExtension \<times> 'w) \<times> store_request list" where
  "handleQueryRequest u cfg hc net inflight correlationID req s =
     (case query_finish u cfg hc net correlationID req QueryArrived
             \<lparr>tun_edge = fst s, tun_world = snd s, querySem = inflight\<rparr> of
        (s', reqs) \<Rightarrow> ((tun_edge s', tun_world s'), reqs))"

lemma query_finish_simps:
  "query_finish u cfg hc net i req QueryReturned s = (s, [])"
  "query_finish u cfg hc net i req QueryReleasing s = (query_release s, [])"
  "query_finish u cfg hc net i req (QueryReplying held resp) s =
     (let s' = s\<lparr>tun_edge := sendQueryResponse net i resp (tun_edge s)\<rparr> in (if held then query_release s' else s', []))"
  by (simp_all add: query_finish.simps Let_def)

lemma handleQueryRequest_eq:
  "handleQueryRequest u cfg hc net inflight i req s =
     (if inflight \<ge> maxConcurrentQueries
      then ((sendQueryResponse net i (errResp 429 ''too many concurrent queries'') (fst s), snd s), [])
      else let (resp, reqs, w') = run_query u cfg hc (snd s) req
        in ((sendQueryResponse net i resp (fst s), w'), reqs))"
  by (simp add: handleQueryRequest_def query_finish.simps [of _ _ _ _ _ _ QueryArrived]
      query_finish.simps [of _ _ _ _ _ _ QueryAdmitted] query_finish_simps query_acquire_def query_release_def Let_def
      split: prod.split)

section \<open>What reaches a store\<close>

text \<open>The configured store of a target.\<close>

definition store_url :: "Config \<Rightarrow> QueryTarget \<Rightarrow> string" where
  "store_url cfg target =
     (if target = QUERY_TARGET_LOKI then LocalLokiQueryURL cfg
      else if target = QUERY_TARGET_TEMPO then LocalTempoQueryURL cfg else LocalVMQueryURL cfg)"

definition allowed_by :: "QueryTarget \<Rightarrow> string \<Rightarrow> string \<Rightarrow> bool" where
  "allowed_by target =
     (case target of QUERY_TARGET_LOKI \<Rightarrow> isAllowedLokiPath | QUERY_TARGET_TEMPO \<Rightarrow> isAllowedTempoPath
      | _ \<Rightarrow> isAllowedVMPath)"

lemma query_target_allowed:
  "query_target cfg target = Inr (base, f) \<Longrightarrow> f = allowed_by target \<and> base = store_url cfg target \<and> base \<noteq> ''''"
  by (auto simp: query_target_def allowed_by_def store_url_def split: QueryTarget.splits if_splits)

text \<open>The read interface of each store, by path segments: single endpoints, trees of which
  everything below is readable, and trees below which only paths that end in \<open>values\<close>
  are.\<close>

definition read_paths :: "QueryTarget \<Rightarrow> string list list" where
  "read_paths target =
     (case target of
        QUERY_TARGET_LOKI \<Rightarrow>
          map ((@) [''loki'', ''api'', ''v1'']) [[''query''], [''query_range''], [''labels''], [''series''],
            [''index'', ''stats''], [''index'', ''volume''], [''patterns'']]
      | QUERY_TARGET_TEMPO \<Rightarrow>
          map ((@) [''api'']) [[''echo''], [''search''], [''search'', ''tags''], [''v2'', ''search'', ''tags'']]
      | _ \<Rightarrow>
          map ((@) [''api'', ''v1'']) [[''query''], [''query_range''], [''series''], [''labels''], [''metadata'']])"

definition open_trees :: "QueryTarget \<Rightarrow> string list list" where
  "open_trees target =
     (case target of
        QUERY_TARGET_LOKI \<Rightarrow> []
      | QUERY_TARGET_TEMPO \<Rightarrow> [[''api'', ''traces''], [''api'', ''v2'', ''traces'']]
      | _ \<Rightarrow> [[''api'', ''v1'', ''status'']])"

definition value_trees :: "QueryTarget \<Rightarrow> string list list" where
  "value_trees target =
     (case target of
        QUERY_TARGET_LOKI \<Rightarrow> [[''loki'', ''api'', ''v1'', ''label'']]
      | QUERY_TARGET_TEMPO \<Rightarrow> [[''api'', ''search'', ''tag''], [''api'', ''v2'', ''search'', ''tag'']]
      | _ \<Rightarrow> [[''api'', ''v1'', ''label'']])"

definition read_endpoint :: "QueryTarget \<Rightarrow> string list \<Rightarrow> bool" where
  "read_endpoint target segs \<longleftrightarrow> segs \<in> set (read_paths target)
     \<or> (\<exists>tree \<in> set (open_trees target). strict_prefix tree segs)
     \<or> (\<exists>tree \<in> set (value_trees target). strict_prefix tree segs \<and> last segs = ''values'')"

lemmas read_interface = read_endpoint_def read_paths_def open_trees_def value_trees_def

lemma query_path_clean:
  "query_path req = slash # Join (clean_segments True (slash # TrimPrefix (qr_Path req) ''/'')) ''/''"
  by (simp add: query_path_def Clean_rooted HasPrefix_def)

lemma run_query_requests:
  assumes "run_query u cfg hc w req = (resp, reqs, w')" "r \<in> set reqs"
  shows "reqs = [r] \<and> sr_method r = query_method u req \<and> allowed_by (qr_Target req) (query_method u req) (query_path req)
    \<and> sr_body r = qr_Body req \<and> store_url cfg (qr_Target req) \<noteq> ''''
    \<and> (\<exists>target. url_Parse hc (store_url cfg (qr_Target req)) = Some target
         \<and> sr_url r = url_String hc target (query_path req) (qr_RawQuery req))"
proof (cases "query_target cfg (qr_Target req)")
  case (Inr p)
  then have "p = (store_url cfg (qr_Target req), allowed_by (qr_Target req))" "store_url cfg (qr_Target req) \<noteq> ''''"
    using query_target_allowed [of cfg "qr_Target req"] by (cases p; simp)+
  then show ?thesis using assms Inr
    by (auto simp: run_query_def Let_def split: sum.splits prod.splits if_splits option.splits)
qed (use assms in \<open>simp add: run_query_def\<close>)

lemma store_reply_bound: "length (qs_Body (store_reply resp)) \<le> maxQueryResponseBytes"
  by (auto simp: store_reply_def errResp_def split: sum.splits)

lemma query_target_error: "query_target cfg target = Inl resp \<Longrightarrow> qs_Body resp = []"
  by (auto simp: query_target_def errResp_def split: QueryTarget.splits if_splits)

lemma run_query_bound: "length (qs_Body (fst (run_query u cfg hc w req))) \<le> maxQueryResponseBytes"
proof (cases "query_target cfg (qr_Target req)")
  case (Inl resp)
  then show ?thesis using query_target_error [OF Inl] by (simp add: run_query_def)
next
  case (Inr p)
  then show ?thesis using store_reply_bound
    by (simp add: run_query_def Let_def errResp_def split: prod.split sum.split option.split)
qed

text \<open>Cleaned paths read segment by segment.\<close>

lemma split_rooted:
  assumes "list_all proper_segment segs" "segs \<noteq> []"
  shows "split_slash (slash # Join segs ''/'') = [] # segs"
  by (simp add: split_slash_Join [OF assms(2,1)])

lemma split_rooted_parts:
  assumes "list_all proper_segment segs" "slash # Join segs ''/'' = l @ slash # r" "l \<noteq> [] \<or> r \<noteq> []"
  shows "[] # segs = split_slash l @ split_slash r"
proof -
  have "segs \<noteq> []" using assms(2,3) by (cases l) auto
  then show ?thesis using split_rooted [OF assms(1)] assms(2) by (metis split_slash_join)
qed

lemma Join_append: "xs \<noteq> [] \<Longrightarrow> ys \<noteq> [] \<Longrightarrow> Join (xs @ ys) sep = Join xs sep @ sep @ Join ys sep"
  by (induction xs sep rule: Join.induct) (cases ys, auto)+

lemma path_below:
  assumes "list_all proper_segment segs" "list_all proper_segment tree" "tree \<noteq> []"
  shows "HasPrefix (slash # Join segs ''/'') (slash # Join tree ''/'' @ ''/'') \<longleftrightarrow> strict_prefix tree segs"
proof
  assume "HasPrefix (slash # Join segs ''/'') (slash # Join tree ''/'' @ ''/'')"
  then obtain r where "slash # Join segs ''/'' = (slash # Join tree ''/'') @ slash # r"
    by (auto simp: HasPrefix_def prefix_def)
  from split_rooted_parts [OF assms(1) this] have "segs = tree @ split_slash r"
    unfolding split_rooted [OF assms(2,3)] by simp
  then show "strict_prefix tree segs" by (simp add: strict_prefix_def)
next
  assume "strict_prefix tree segs"
  then obtain x xs where "segs = tree @ x # xs" by (rule strict_prefixE')
  then show "HasPrefix (slash # Join segs ''/'') (slash # Join tree ''/'' @ ''/'')"
    using assms(3) by (simp add: HasPrefix_def Join_append)
qed

lemma path_ends:
  assumes "list_all proper_segment segs" "proper_segment v"
  shows "HasSuffix (slash # Join segs ''/'') (slash # v) \<longleftrightarrow> segs \<noteq> [] \<and> last segs = v"
proof
  assume "HasSuffix (slash # Join segs ''/'') (slash # v)"
  then obtain l where "slash # Join segs ''/'' = l @ slash # v" by (auto simp: HasSuffix_def suffix_def)
  moreover have "v \<noteq> []" "split_slash v = [v]" using assms(2) by (simp_all add: proper_segment_def split_slash_whole)
  ultimately have "[] # segs = split_slash l @ [v]" using split_rooted_parts [OF assms(1)] by metis
  then show "segs \<noteq> [] \<and> last segs = v" using \<open>v \<noteq> []\<close> by (metis append1_eq_conv append_Nil last.simps last_snoc)
next
  assume "segs \<noteq> [] \<and> last segs = v"
  then obtain ys where "segs = ys @ [v]" by (metis append_butlast_last_id)
  then show "HasSuffix (slash # Join segs ''/'') (slash # v)"
    by (cases "ys = []") (auto simp: HasSuffix_def suffix_def Join_append)
qed

lemma path_listed:
  assumes "list_all proper_segment segs" "list_all (list_all proper_segment) ts" "ps = map (\<lambda>t. slash # Join t ''/'') ts"
  shows "slash # Join segs ''/'' \<in> set ps \<longleftrightarrow> segs \<in> set ts"
proof -
  have "segs = t" if "t \<in> set ts" "Join segs ''/'' = Join t ''/''" for t
  proof -
    have "list_all proper_segment t" using that(1) assms(2) by (simp add: list_all_iff)
    from clean_segments_clean [OF this] show ?thesis
      unfolding that(2) [symmetric] clean_segments_clean [OF assms(1)] .
  qed
  then show ?thesis unfolding assms(3) set_map image_iff list.inject by blast
qed

text \<open>The three allow-lists admit exactly the read interface.\<close>

lemma vm_allowed:
  assumes "list_all proper_segment segs"
  shows "isAllowedVMPath m (slash # Join segs ''/'') \<longleftrightarrow> (m = ''GET'' \<or> m = ''POST'') \<and> read_endpoint QUERY_TARGET_VM segs"
proof -
  have below: "HasPrefix (slash # Join segs ''/'') ''/api/v1/label/'' \<longleftrightarrow> strict_prefix [''api'', ''v1'', ''label''] segs"
    "HasPrefix (slash # Join segs ''/'') ''/api/v1/status/'' \<longleftrightarrow> strict_prefix [''api'', ''v1'', ''status''] segs"
    using path_below [OF assms, of "[''api'', ''v1'', ''label'']"] path_below [OF assms, of "[''api'', ''v1'', ''status'']"]
    by (simp_all add: proper_segment_def)
  have ends: "HasSuffix (slash # Join segs ''/'') ''/values'' \<longleftrightarrow> segs \<noteq> [] \<and> last segs = ''values''"
    by (rule path_ends [OF assms]) (simp add: proper_segment_def)
  have listed: "slash # Join segs ''/'' \<in> set [''/api/v1/query'', ''/api/v1/query_range'', ''/api/v1/series'',
      ''/api/v1/labels'', ''/api/v1/metadata''] \<longleftrightarrow> segs \<in> set (read_paths QUERY_TARGET_VM)"
    by (rule path_listed [OF assms]) (simp_all add: read_paths_def proper_segment_def)
  show ?thesis unfolding isAllowedVMPath_def listed below ends
    by (auto simp: read_endpoint_def open_trees_def value_trees_def)
qed

lemma loki_allowed:
  assumes "list_all proper_segment segs"
  shows "isAllowedLokiPath m (slash # Join segs ''/'') \<longleftrightarrow> (m = ''GET'' \<or> m = ''POST'') \<and> read_endpoint QUERY_TARGET_LOKI segs"
proof -
  have below: "HasPrefix (slash # Join segs ''/'') ''/loki/api/v1/label/'' \<longleftrightarrow> strict_prefix [''loki'', ''api'', ''v1'', ''label''] segs"
    using path_below [OF assms, of "[''loki'', ''api'', ''v1'', ''label'']"] by (simp add: proper_segment_def)
  have ends: "HasSuffix (slash # Join segs ''/'') ''/values'' \<longleftrightarrow> segs \<noteq> [] \<and> last segs = ''values''"
    by (rule path_ends [OF assms]) (simp add: proper_segment_def)
  have listed: "slash # Join segs ''/'' \<in> set [''/loki/api/v1/query'', ''/loki/api/v1/query_range'', ''/loki/api/v1/labels'',
      ''/loki/api/v1/series'', ''/loki/api/v1/index/stats'', ''/loki/api/v1/index/volume'', ''/loki/api/v1/patterns'']
      \<longleftrightarrow> segs \<in> set (read_paths QUERY_TARGET_LOKI)"
    by (rule path_listed [OF assms]) (simp_all add: read_paths_def proper_segment_def)
  show ?thesis unfolding isAllowedLokiPath_def listed below ends
    by (auto simp: read_endpoint_def open_trees_def value_trees_def)
qed

lemma tempo_allowed:
  assumes "list_all proper_segment segs"
  shows "isAllowedTempoPath m (slash # Join segs ''/'') \<longleftrightarrow> (m = ''GET'' \<or> m = ''POST'') \<and> read_endpoint QUERY_TARGET_TEMPO segs"
proof -
  have below: "HasPrefix (slash # Join segs ''/'') ''/api/traces/'' \<longleftrightarrow> strict_prefix [''api'', ''traces''] segs"
    "HasPrefix (slash # Join segs ''/'') ''/api/v2/traces/'' \<longleftrightarrow> strict_prefix [''api'', ''v2'', ''traces''] segs"
    "HasPrefix (slash # Join segs ''/'') ''/api/search/tag/'' \<longleftrightarrow> strict_prefix [''api'', ''search'', ''tag''] segs"
    "HasPrefix (slash # Join segs ''/'') ''/api/v2/search/tag/'' \<longleftrightarrow> strict_prefix [''api'', ''v2'', ''search'', ''tag''] segs"
    using path_below [OF assms, of "[''api'', ''traces'']"] path_below [OF assms, of "[''api'', ''v2'', ''traces'']"]
      path_below [OF assms, of "[''api'', ''search'', ''tag'']"] path_below [OF assms, of "[''api'', ''v2'', ''search'', ''tag'']"]
    by (simp_all add: proper_segment_def)
  have ends: "HasSuffix (slash # Join segs ''/'') ''/values'' \<longleftrightarrow> segs \<noteq> [] \<and> last segs = ''values''"
    by (rule path_ends [OF assms]) (simp add: proper_segment_def)
  have listed: "slash # Join segs ''/'' \<in> set [''/api/echo'', ''/api/search'', ''/api/search/tags'', ''/api/v2/search/tags'']
      \<longleftrightarrow> segs \<in> set (read_paths QUERY_TARGET_TEMPO)"
    by (rule path_listed [OF assms]) (simp_all add: read_paths_def proper_segment_def)
  show ?thesis unfolding isAllowedTempoPath_def listed below ends
    by (auto simp: read_endpoint_def open_trees_def value_trees_def)
qed

lemma allowed_iff:
  assumes "list_all proper_segment segs"
  shows "allowed_by target m (slash # Join segs ''/'') \<longleftrightarrow> (m = ''GET'' \<or> m = ''POST'') \<and> read_endpoint target segs"
  using vm_allowed [OF assms] loki_allowed [OF assms] tempo_allowed [OF assms]
  by (cases target) (simp_all add: allowed_by_def read_interface)

section \<open>Concurrent queries\<close>

text \<open>The receive loop handles a message, a goroutine it asked for starts, or a handler that has
  not returned performs its next action.\<close>

datatype query_event = QueryMessage ServerMessage | QuerySpawned "64 word" | QueryMoved nat

type_synonym query_task = "64 word \<times> QueryRequest \<times> query_pc"

record 'w query_state =
  shared :: "'w tunnel"
  tasks :: "query_task list"

inductive tunnel_step ::
    "unicode_tables \<Rightarrow> Config \<Rightarrow> ('u, 'w) store_http \<Rightarrow> (AgentMessage list \<Rightarrow> AgentMessage \<Rightarrow> bool)
     \<Rightarrow> 'w query_state \<Rightarrow> query_event \<Rightarrow> 'w query_state \<Rightarrow> bool"
  for u cfg hc net where
  query_message: "shared s = t \<Longrightarrow>
    tunnel_step u cfg hc net s (QueryMessage msg)
      (s\<lparr>shared := t\<lparr>tun_edge := handleServerMessage net now snap msg (tun_edge t)\<rparr>\<rparr>)"
| query_spawned: "shared s = t \<Longrightarrow> QueryJob i req \<in> set (jobs (tun_edge t)) \<Longrightarrow>
    tunnel_step u cfg hc net s (QuerySpawned i)
      \<lparr>shared = t\<lparr>tun_edge := (tun_edge t)\<lparr>jobs := remove1 (QueryJob i req) (jobs (tun_edge t))\<rparr>\<rparr>,
       tasks = tasks s @ [(i, req, QueryArrived)]\<rparr>"
| query_moved: "tasks s = ts @ (i, req, pc) # ts' \<Longrightarrow> pc \<noteq> QueryReturned \<Longrightarrow>
    query_action u cfg hc net i req pc (shared s) = (pc', t, reqs) \<Longrightarrow>
    tunnel_step u cfg hc net s (QueryMoved (length ts)) \<lparr>shared = t, tasks = ts @ (i, req, pc') # ts'\<rparr>"

inductive tunnel_run ::
    "unicode_tables \<Rightarrow> Config \<Rightarrow> ('u, 'w) store_http \<Rightarrow> (AgentMessage list \<Rightarrow> AgentMessage \<Rightarrow> bool)
     \<Rightarrow> 'w query_state \<Rightarrow> query_event list \<Rightarrow> 'w query_state \<Rightarrow> bool"
  for u cfg hc net s0 where
  tunnel_start: "tunnel_run u cfg hc net s0 [] s0"
| tunnel_more: "tunnel_run u cfg hc net s0 es s \<Longrightarrow> tunnel_step u cfg hc net s ev s' \<Longrightarrow>
    tunnel_run u cfg hc net s0 (es @ [ev]) s'"

inductive_cases tunnel_stepE: "tunnel_step u cfg hc net s ev s'"

text \<open>The identifiers of the queries received, started but not answered, not yet started, and
  answered.\<close>

fun arrived_ids :: "query_event list \<Rightarrow> 64 word list" where
  "arrived_ids [] = []"
| "arrived_ids (ev # es) =
     (case ev of
        QueryMessage msg \<Rightarrow> (case sm_Body msg of ServerMessage_QueryRequest _ \<Rightarrow> [sm_CorrelationId msg] | _ \<Rightarrow> [])
      | _ \<Rightarrow> []) @ arrived_ids es"

fun unanswered :: "query_task \<Rightarrow> bool" where
  "unanswered (i, req, pc) \<longleftrightarrow> 1 < query_rank pc"

fun holds_slot :: "query_task \<Rightarrow> bool" where
  "holds_slot (i, req, pc) \<longleftrightarrow>
     (case pc of QueryAdmitted \<Rightarrow> True | QueryReplying held _ \<Rightarrow> held | QueryReleasing \<Rightarrow> True | _ \<Rightarrow> False)"

fun query_job_ids :: "job list \<Rightarrow> 64 word list" where
  "query_job_ids [] = []"
| "query_job_ids (j # js) = (case j of QueryJob i _ \<Rightarrow> [i] | _ \<Rightarrow> []) @ query_job_ids js"

fun response_ids :: "AgentMessage list \<Rightarrow> 64 word list" where
  "response_ids [] = []"
| "response_ids (m # ms) =
     (case am_Body m of AgentMessage_QueryResponse _ \<Rightarrow> [am_CorrelationId m] | _ \<Rightarrow> []) @ response_ids ms"

definition answered_ids :: "'w query_state \<Rightarrow> 64 word multiset" where
  "answered_ids s = mset (response_ids (outbox (tun_edge (shared s))))"

definition open_ids :: "'w query_state \<Rightarrow> 64 word multiset" where
  "open_ids s = mset (query_job_ids (jobs (tun_edge (shared s)))) + mset (map fst (filter unanswered (tasks s)))"

lemma arrived_ids_append [simp]: "arrived_ids (es @ fs) = arrived_ids es @ arrived_ids fs"
  by (induction es) simp_all

lemma response_ids_append [simp]: "response_ids (ms @ ns) = response_ids ms @ response_ids ns"
  by (induction ms) simp_all

lemma query_job_ids_append [simp]: "query_job_ids (js @ ks) = query_job_ids js @ query_job_ids ks"
  by (induction js) simp_all

lemma job_ids_remove:
  "QueryJob i req \<in> set js \<Longrightarrow> mset (query_job_ids js) = add_mset i (mset (query_job_ids (remove1 (QueryJob i req) js)))"
  by (induction js) (auto split: job.split)

text \<open>What an action of the handler and a message of the receive loop do to these counts.  A
  refused response is lost, and so is one sent while there is no stream.\<close>

lemma send_ids:
  assumes "sendAgentMessage nt m e = (r, e')"
  shows "jobs e' = jobs e" "stream_up e' = stream_up e"
    "response_ids (outbox e') = response_ids (outbox e) @ (if stream_up e \<and> nt (outbox e) m then response_ids [m] else [])"
  using assms by (auto simp: sendAgentMessage_def split: if_splits)

lemma send_no_response:
  "sendAgentMessage nt m e = (r, e') \<Longrightarrow> response_ids [m] = [] \<Longrightarrow> response_ids (outbox e') = response_ids (outbox e)"
  using send_ids(3) by fastforce

lemma message_ids:
  fixes e :: edgeControllerExtension
  defines "e' \<equiv> (\<lambda>nt now snap msg. handleServerMessage nt now snap msg e)"
  shows "response_ids (outbox (e' nt now snap msg)) = response_ids (outbox e)"
    "stream_up (e' nt now snap msg) = stream_up e"
    "query_job_ids (jobs (e' nt now snap msg)) = query_job_ids (jobs e) @ arrived_ids [QueryMessage msg]"
  unfolding e'_def
  by (simp_all add: handleServerMessage_def resolvePending_def replyCommand_def sendConfigSnapshot_def apply_demands_def
      apply_routes_def sendAgentMessage_def split: ServerMessage_Body.split option.split)

lemma response_sent:
  "jobs (sendQueryResponse nt i resp e) = jobs e" "stream_up (sendQueryResponse nt i resp e) = stream_up e"
  "mset (response_ids (outbox (sendQueryResponse nt i resp e))) \<subseteq># add_mset i (mset (response_ids (outbox e)))"
  "stream_up e \<Longrightarrow> \<forall>ms m. nt ms m \<Longrightarrow>
     mset (response_ids (outbox (sendQueryResponse nt i resp e))) = add_mset i (mset (response_ids (outbox e)))"
  by (simp_all add: sendQueryResponse_def sendAgentMessage_def)

lemma action_ids:
  assumes "query_action u cfg hc nt i req pc t = (pc', t', reqs)" "pc \<noteq> QueryReturned"
  shows "jobs (tun_edge t') = jobs (tun_edge t)" "stream_up (tun_edge t') = stream_up (tun_edge t)"
    "mset (response_ids (outbox (tun_edge t'))) + mset (map fst (filter unanswered [(i, req, pc')]))
     \<subseteq># mset (response_ids (outbox (tun_edge t))) + mset (map fst (filter unanswered [(i, req, pc)]))"
    "stream_up (tun_edge t) \<Longrightarrow> \<forall>ms m. nt ms m \<Longrightarrow>
       mset (response_ids (outbox (tun_edge t'))) + mset (map fst (filter unanswered [(i, req, pc')]))
       = mset (response_ids (outbox (tun_edge t))) + mset (map fst (filter unanswered [(i, req, pc)]))"
  using assms by (cases pc; auto simp: query_acquire_def query_release_def response_sent split: prod.splits if_splits)+

lemma action_slots:
  assumes "query_action u cfg hc nt i req pc t = (pc', t', reqs)" "pc \<noteq> QueryReturned" "querySem t \<le> maxConcurrentQueries"
    "querySem t = n + (if holds_slot (i, req, pc) then 1 else 0)"
  shows "querySem t' \<le> maxConcurrentQueries \<and> querySem t' = n + (if holds_slot (i, req, pc') then 1 else 0)"
  using assms by (cases pc) (auto simp: query_acquire_def query_release_def split: prod.splits if_splits)

text \<open>Each step keeps the balance of queries received, open and answered, and of slots.\<close>

lemma step_ids:
  assumes "tunnel_step u cfg hc nt s ev s'"
  shows "answered_ids s' + open_ids s' \<subseteq># answered_ids s + open_ids s + mset (arrived_ids [ev])"
    "stream_up (tun_edge (shared s')) = stream_up (tun_edge (shared s))"
    "stream_up (tun_edge (shared s)) \<Longrightarrow> \<forall>ms m. nt ms m \<Longrightarrow>
       answered_ids s' + open_ids s' = answered_ids s + open_ids s + mset (arrived_ids [ev])"
proof -
  have "answered_ids s' + open_ids s' \<subseteq># answered_ids s + open_ids s + mset (arrived_ids [ev])
    \<and> stream_up (tun_edge (shared s')) = stream_up (tun_edge (shared s))
    \<and> (stream_up (tun_edge (shared s)) \<longrightarrow> (\<forall>ms m. nt ms m) \<longrightarrow>
         answered_ids s' + open_ids s' = answered_ids s + open_ids s + mset (arrived_ids [ev]))"
    using assms
  proof cases
    case (query_message t msg now snap)
    then show ?thesis by (simp add: answered_ids_def open_ids_def message_ids del: arrived_ids.simps)
  next
    case (query_spawned t i req)
    then show ?thesis using job_ids_remove [OF query_spawned(4)] by (simp add: answered_ids_def open_ids_def)
  next
    case (query_moved ts i req pc ts' pc' t reqs)
    note eff = action_ids [OF query_moved(5,4)]
    let ?rest = "mset (query_job_ids (jobs (tun_edge (shared s)))) + mset (map fst (filter unanswered ts))
      + mset (map fst (filter unanswered ts'))"
    have after: "answered_ids s' + open_ids s' = mset (response_ids (outbox (tun_edge t)))
        + mset (map fst (filter unanswered [(i, req, pc')])) + ?rest"
      using query_moved(2) eff(1) by (simp add: answered_ids_def open_ids_def)
    have before: "answered_ids s + open_ids s = mset (response_ids (outbox (tun_edge (shared s))))
        + mset (map fst (filter unanswered [(i, req, pc)])) + ?rest"
      using query_moved(3) by (simp add: answered_ids_def open_ids_def)
    show ?thesis unfolding after before using eff query_moved(1,2) by simp
  qed
  then show "answered_ids s' + open_ids s' \<subseteq># answered_ids s + open_ids s + mset (arrived_ids [ev])"
    "stream_up (tun_edge (shared s')) = stream_up (tun_edge (shared s))"
    "stream_up (tun_edge (shared s)) \<Longrightarrow> \<forall>ms m. nt ms m \<Longrightarrow>
       answered_ids s' + open_ids s' = answered_ids s + open_ids s + mset (arrived_ids [ev])"
    by blast+
qed

definition slots_kept :: "'w query_state \<Rightarrow> bool" where
  "slots_kept s \<longleftrightarrow> querySem (shared s) \<le> maxConcurrentQueries
     \<and> querySem (shared s) = length (filter holds_slot (tasks s))"

lemma step_slots:
  assumes "tunnel_step u cfg hc nt s ev s'" "slots_kept s"
  shows "slots_kept s'"
  using assms(1)
proof cases
  case (query_moved ts i req pc ts' pc' t reqs)
  have "querySem (shared s) \<le> maxConcurrentQueries"
    "querySem (shared s) = length (filter holds_slot ts) + length (filter holds_slot ts') + (if holds_slot (i, req, pc) then 1 else 0)"
    using assms(2) query_moved(3) by (simp_all add: slots_kept_def del: holds_slot.simps)
  from action_slots [OF query_moved(5,4) this] show ?thesis
    using query_moved(2) by (simp add: slots_kept_def del: holds_slot.simps)
qed (use assms(2) in \<open>simp_all add: slots_kept_def\<close>)

text \<open>A balanced state stays balanced along a run.\<close>

lemma run_balance:
  assumes "tunnel_run u cfg hc nt s0 es s"
  shows "answered_ids s + open_ids s \<subseteq># answered_ids s0 + open_ids s0 + mset (arrived_ids es)"
    "stream_up (tun_edge (shared s)) = stream_up (tun_edge (shared s0))"
    "stream_up (tun_edge (shared s0)) \<Longrightarrow> \<forall>ms m. nt ms m \<Longrightarrow>
       answered_ids s + open_ids s = answered_ids s0 + open_ids s0 + mset (arrived_ids es)"
  using assms
proof (induction rule: tunnel_run.induct)
  case (tunnel_more es s ev s')
  note eff = step_ids [OF tunnel_more(2)]
  { case 1
    have "answered_ids s + open_ids s + mset (arrived_ids [ev])
      \<subseteq># answered_ids s0 + open_ids s0 + mset (arrived_ids es) + mset (arrived_ids [ev])"
      using tunnel_more.IH(1) by (simp only: subset_mset.add_le_cancel_right)
    with eff(1) show ?case unfolding arrived_ids_append mset_append add.assoc [symmetric] by (rule subset_mset.trans)
  next
    case 2
    show ?case using eff(2) tunnel_more.IH(2) by simp
  next
    case 3
    have "stream_up (tun_edge (shared s))" using 3(1) tunnel_more.IH(2) by simp
    from eff(3) [OF this 3(2)] show ?case
      unfolding tunnel_more.IH(3) [OF 3] arrived_ids_append mset_append by (simp only: add.assoc) }
qed simp_all

lemma run_slots: "tunnel_run u cfg hc nt s0 es s \<Longrightarrow> slots_kept s0 \<Longrightarrow> slots_kept s"
  by (induction rule: tunnel_run.induct) (auto intro: step_slots)

text \<open>Handlers that are let run all return: some continuation without a new message leaves no
  query open.\<close>

definition work_left :: "'w query_state \<Rightarrow> nat" where
  "work_left s = 5 * length (query_job_ids (jobs (tun_edge (shared s)))) + (\<Sum>t \<leftarrow> tasks s. query_rank (snd (snd t)))"

lemma job_of_id: "query_job_ids js \<noteq> [] \<Longrightarrow> \<exists>i req. QueryJob i req \<in> set js"
  by (induction js) (auto split: job.splits)

lemma work_progress:
  assumes "work_left s \<noteq> 0"
  shows "\<exists>ev s'. tunnel_step u cfg hc nt s ev s' \<and> arrived_ids [ev] = [] \<and> work_left s' < work_left s"
proof (cases "query_job_ids (jobs (tun_edge (shared s))) = []")
  case False
  then obtain i req where j: "QueryJob i req \<in> set (jobs (tun_edge (shared s)))" using job_of_id by blast
  have "length (query_job_ids (jobs (tun_edge (shared s))))
    = Suc (length (query_job_ids (remove1 (QueryJob i req) (jobs (tun_edge (shared s))))))"
    using job_ids_remove [OF j] by (metis size_add_mset size_mset)
  then have "work_left \<lparr>shared = (shared s)\<lparr>tun_edge := (tun_edge (shared s))\<lparr>jobs := remove1 (QueryJob i req)
      (jobs (tun_edge (shared s)))\<rparr>\<rparr>, tasks = tasks s @ [(i, req, QueryArrived)]\<rparr> < work_left s"
    by (simp add: work_left_def)
  moreover have "arrived_ids [QuerySpawned i] = []" by simp
  ultimately show ?thesis using query_spawned [OF refl j] by blast
next
  case True
  then obtain x where "x \<in> set (tasks s)" "query_rank (snd (snd x)) \<noteq> 0"
    using assms by (auto simp: work_left_def)
  then obtain ts i req pc ts' where ts: "tasks s = ts @ (i, req, pc) # ts'" and pc: "pc \<noteq> QueryReturned"
    by (metis prod.collapse query_rank.simps(5) split_list)
  obtain pc' t reqs where act: "query_action u cfg hc nt i req pc (shared s) = (pc', t, reqs)" by (metis prod.collapse)
  have "work_left \<lparr>shared = t, tasks = ts @ (i, req, pc') # ts'\<rparr> < work_left s"
    using action_ids(1) [OF act pc] query_action_rank [OF act pc] ts by (simp add: work_left_def)
  moreover have "arrived_ids [QueryMoved (length ts)] = []" by simp
  ultimately show ?thesis using query_moved [OF ts pc act] by blast
qed

lemma queries_drain:
  assumes "tunnel_run u cfg hc nt s0 es s"
  shows "\<exists>fs s'. tunnel_run u cfg hc nt s0 (es @ fs) s' \<and> arrived_ids fs = [] \<and> open_ids s' = {#}
    \<and> filter holds_slot (tasks s') = []"
  using assms
proof (induction "work_left s" arbitrary: es s rule: less_induct)
  case less
  show ?case
  proof (cases "work_left s = 0")
    case True
    then have "\<forall>x \<in> set (tasks s). \<not> unanswered x \<and> \<not> holds_slot x" "query_job_ids (jobs (tun_edge (shared s))) = []"
      by (fastforce simp: work_left_def sum_list_eq_0_iff split: query_pc.splits elim: query_rank.elims)+
    then show ?thesis using less.prems by (intro exI [of _ "[]"] exI [of _ s]) (simp add: open_ids_def)
  next
    case False
    then obtain ev s' where ev: "tunnel_step u cfg hc nt s ev s'" "arrived_ids [ev] = []" "work_left s' < work_left s"
      using work_progress by blast
    from less.hyps [OF ev(3) tunnel_more [OF less.prems ev(1)]] obtain fs s'' where
      "tunnel_run u cfg hc nt s0 (es @ ev # fs) s''" "arrived_ids fs = []" "open_ids s'' = {#}" "filter holds_slot (tasks s'') = []"
      by auto
    moreover have "arrived_ids (ev # fs) = []" using arrived_ids_append [of "[ev]" fs] ev(2) \<open>arrived_ids fs = []\<close> by simp
    ultimately show ?thesis by blast
  qed
qed

section \<open>Properties\<close>

text \<open>
  C29: the tunnel only reads.  A request that reaches a local store was made while fewer than
  eight queries were in flight, is the only one of its query, is a \<open>GET\<close> or a \<open>POST\<close>,
  and goes to the URL configured for the query's target, with the body and query string of the query
  and a path made of proper segments (no empty, dot or dot-dot segment) that is one of the read
  endpoints of that store: for Loki neither push nor delete nor tail, for VictoriaMetrics neither
  import nor admin, for Tempo neither ingest nor flush.
\<close>

theorem query_confined:
  assumes "handleQueryRequest u cfg hc nt n i req s = (s', reqs)" "r \<in> set reqs"
  shows "n < maxConcurrentQueries \<and> reqs = [r] \<and> (sr_method r = ''GET'' \<or> sr_method r = ''POST'')
    \<and> sr_body r = qr_Body req \<and> store_url cfg (qr_Target req) \<noteq> ''''
    \<and> (\<exists>segs target. list_all proper_segment segs \<and> read_endpoint (qr_Target req) segs
         \<and> url_Parse hc (store_url cfg (qr_Target req)) = Some target
         \<and> sr_url r = url_String hc target (slash # Join segs ''/'') (qr_RawQuery req))"
proof -
  let ?segs = "clean_segments True (slash # TrimPrefix (qr_Path req) ''/'')"
  obtain resp w' where run: "n < maxConcurrentQueries" "run_query u cfg hc (snd s) req = (resp, reqs, w')"
    using assms by (auto simp: handleQueryRequest_eq Let_def split: if_splits prod.splits)
  note r = run_query_requests [OF run(2) assms(2)]
  have p: "list_all proper_segment ?segs" by (rule clean_segments_proper)
  have "(sr_method r = ''GET'' \<or> sr_method r = ''POST'') \<and> read_endpoint (qr_Target req) ?segs"
    using allowed_iff [OF p] r unfolding query_path_clean by metis
  then show ?thesis using run(1) r p unfolding query_path_clean by blast
qed

text \<open>
  C30: every query is answered exactly once.  In every interleaving of the actions of the handlers
  and of the messages the receive loop handles, starting with nothing in flight, at most eight
  handlers hold a slot and the semaphore counts them; the identifiers answered together with those of the queries
  still open never exceed the identifiers received, so no query is answered twice and no response
  answers nothing; over a stream that accepts messages the two are equal with multiplicities; and the handlers can
  always run to their end, where every slot is free and the responses sent are then one for each
  query received.
\<close>

theorem query_answered_once:
  assumes "tunnel_run u cfg hc nt s0 es s" "tasks s0 = []" "querySem (shared s0) = 0"
    "answered_ids s0 = {#}" "open_ids s0 = {#}"
  shows "querySem (shared s) = length (filter holds_slot (tasks s)) \<and> querySem (shared s) \<le> 8
    \<and> answered_ids s + open_ids s \<subseteq># mset (arrived_ids es)
    \<and> (stream_up (tun_edge (shared s0)) \<longrightarrow> (\<forall>ms m. nt ms m) \<longrightarrow> answered_ids s + open_ids s = mset (arrived_ids es))
    \<and> (\<exists>fs s'. tunnel_run u cfg hc nt s0 (es @ fs) s' \<and> arrived_ids fs = [] \<and> querySem (shared s') = 0
         \<and> (stream_up (tun_edge (shared s0)) \<longrightarrow> (\<forall>ms m. nt ms m) \<longrightarrow> answered_ids s' = mset (arrived_ids es)))"
proof -
  have s0: "slots_kept s0" using assms(2,3) by (simp add: slots_kept_def)
  have slots: "querySem (shared t) = length (filter holds_slot (tasks t)) \<and> querySem (shared t) \<le> 8"
    if "tunnel_run u cfg hc nt s0 es' t" for es' t
    using run_slots [OF that s0] by (simp add: slots_kept_def maxConcurrentQueries_def)
  obtain fs s' where fs: "tunnel_run u cfg hc nt s0 (es @ fs) s'" "arrived_ids fs = []" "open_ids s' = {#}"
    "filter holds_slot (tasks s') = []" using queries_drain [OF assms(1)] by blast
  show ?thesis using slots [OF assms(1)] slots [OF fs(1)] fs run_balance [OF assms(1)] run_balance(3) [OF fs(1)] assms(4,5)
    by (intro conjI impI exI [of _ fs] exI [of _ s']) simp_all
qed

text \<open>
  A query changes the agent by one response only, and that response leaves a mebibyte of the
  stream's message limit to the envelope, whatever the store answers.
\<close>

theorem query_response_fits:
  "\<exists>resp. fst (fst (handleQueryRequest u cfg hc nt n i req s)) = sendQueryResponse nt i resp (fst s)
     \<and> length (qs_Body resp) + 2 ^ 20 \<le> maxMessageBytes"
proof (cases "n \<ge> maxConcurrentQueries")
  case True
  then show ?thesis
    by (intro exI [of _ "errResp 429 ''too many concurrent queries''"])
      (simp add: handleQueryRequest_eq errResp_def maxMessageBytes_def)
next
  case False
  have "length (qs_Body (fst (run_query u cfg hc (snd s) req))) + 2 ^ 20 \<le> maxMessageBytes"
    using run_query_bound [of u cfg hc "snd s" req] by (simp add: maxQueryResponseBytes_def maxMessageBytes_def)
  then show ?thesis using False
    by (intro exI [of _ "fst (run_query u cfg hc (snd s) req)"]) (simp add: handleQueryRequest_eq Let_def case_prod_unfold)
qed

section \<open>Witnesses\<close>

text \<open>A client that parses every base and gets an empty answer; a query that tries to climb out
  of the read tree and back.\<close>

definition echo_http :: "(string, nat) store_http" where
  "echo_http = \<lparr>url_Parse = Some, url_String = (\<lambda>b p q. b @ p), NewRequest_error = (\<lambda>m a. None),
     store_Do = (\<lambda>w r. (Inr \<lparr>resp_status = 200, resp_values = (\<lambda>_. []), resp_read = (\<lambda>n. Inr [])\<rparr>, w + 1))\<rparr>"

definition store_config :: Config where
  "store_config = createDefaultConfig\<lparr>LocalVMQueryURL := ''http://vm''\<rparr>"

definition label_query :: QueryRequest where
  "label_query = \<lparr>qr_Method = ''get'', qr_Path = ''/api/v1/import/../label/job/values'', qr_RawQuery = '''',
     qr_Body = [], qr_Headers = [], qr_Target = QUERY_TARGET_VM\<rparr>"

lemma label_query_request:
  "snd (handleQueryRequest latin_tables store_config echo_http (\<lambda>_ _. True) 7 1 label_query (newEdgeControllerExtension, 0))
   = [\<lparr>sr_method = ''GET'', sr_url = ''http://vm/api/v1/label/job/values'', sr_header = fmempty, sr_body = []\<rparr>]"
proof -
  have m: "query_method latin_tables label_query = ''GET''" by code_simp
  have p: "query_path label_query = ''/api/v1/label/job/values''" by code_simp
  have a: "isAllowedVMPath ''GET'' ''/api/v1/label/job/values''" by code_simp
  have t: "query_target store_config (qr_Target label_query) = Inr (''http://vm'', isAllowedVMPath)"
    by (simp add: query_target_def label_query_def store_config_def createDefaultConfig_def)
  have f: "qr_RawQuery label_query = ''''" "qr_Body label_query = []" "qr_Headers label_query = []"
    by (simp_all add: label_query_def)
  show ?thesis
    by (simp add: handleQueryRequest_eq maxConcurrentQueries_def run_query_def t m p a f echo_http_def)
qed

text \<open>Witness of C29.\<close>

theorem query_confined_witness:
  "\<exists>segs. list_all proper_segment segs \<and> read_endpoint QUERY_TARGET_VM segs
     \<and> ''http://vm/api/v1/label/job/values'' = ''http://vm'' @ slash # Join segs ''/''"
proof -
  obtain s' reqs where h: "handleQueryRequest latin_tables store_config echo_http (\<lambda>_ _. True) 7 1 label_query
    (newEdgeControllerExtension, 0) = (s', reqs)" by fastforce
  have reqs: "reqs = [\<lparr>sr_method = ''GET'', sr_url = ''http://vm/api/v1/label/job/values'', sr_header = fmempty, sr_body = []\<rparr>]"
    using label_query_request unfolding h by simp
  have t: "qr_Target label_query = QUERY_TARGET_VM" "store_url store_config QUERY_TARGET_VM = ''http://vm''"
    by (simp_all add: label_query_def store_url_def store_config_def)
  have "hd reqs \<in> set reqs" by (simp add: reqs)
  from query_confined [OF h this] show ?thesis
    unfolding t by (auto simp: reqs echo_http_def)
qed

definition quiet_tunnel :: "nat query_state" where
  "quiet_tunnel =
     \<lparr>shared = \<lparr>tun_edge = newEdgeControllerExtension\<lparr>stream_up := True\<rparr>, tun_world = 0, querySem = 0\<rparr>, tasks = []\<rparr>"

definition query_push :: ServerMessage where
  "query_push = \<lparr>sm_CorrelationId = 5, sm_Body = ServerMessage_QueryRequest label_query\<rparr>"

text \<open>Witness of C30: a query received, started and admitted.\<close>

theorem query_answered_once_witness:
  "\<exists>es s. arrived_ids es = [5] \<and> tunnel_run latin_tables store_config echo_http (\<lambda>_ _. True) quiet_tunnel es s
     \<and> answered_ids s = {#5#} \<and> querySem (shared s) = 0"
proof -
  let ?run = "tunnel_run latin_tables store_config echo_http (\<lambda>_ _. True) quiet_tunnel"
  obtain s where "?run ([] @ [QueryMessage query_push]) s"
    using tunnel_more [OF tunnel_start query_message [OF refl]] by blast
  moreover have "arrived_ids [QueryMessage query_push] = [5]" by (simp add: query_push_def)
  moreover have "tasks quiet_tunnel = []" "querySem (shared quiet_tunnel) = 0" "answered_ids quiet_tunnel = {#}"
    "open_ids quiet_tunnel = {#}" "stream_up (tun_edge (shared quiet_tunnel))"
    by (simp_all add: quiet_tunnel_def answered_ids_def open_ids_def newEdgeControllerExtension_def)
  moreover note query_answered_once [of latin_tables store_config echo_http "\<lambda>_ _. True" quiet_tunnel "[QueryMessage query_push]" s]
  ultimately obtain fs s' where "?run ([QueryMessage query_push] @ fs) s'" "arrived_ids fs = []" "querySem (shared s') = 0"
    "answered_ids s' = mset [5]" by (metis append_Nil)
  then show ?thesis using \<open>arrived_ids [QueryMessage query_push] = [5]\<close>
    by (intro exI [of _ "[QueryMessage query_push] @ fs"] exI [of _ s']) (simp only: arrived_ids_append, simp)
qed

end
