(* ===== verification/Go_Os.thy ===== *)
theory Go_Os
  imports Go_Http
begin

text \<open>
  What the agent uses of Go's \<open>os\<close> package.  A file system is a finite map from path
  names to nodes; different names denote different nodes.  Every call may fail for reasons the
  program does not see: \<open>os_fails\<close> decides it from the call and the state, and gives the text
  of the error.  A call that succeeds has its documented effect.  \<open>os_random\<close> is the random
  part of a temporary name, which \<open>os.CreateTemp\<close> chooses so that the name is new; the
  theorems that need it say so.

  The lemmas say which names a call can change.
\<close>

datatype node = File string nat | Directory

type_synonym fs = "(string, node) fmap"

datatype os_call =
    OsStat string
  | OsReadFile string
  | OsWriteFile string
  | OsCreateTemp string
  | OsWrite string
  | OsSync string
  | OsChmod string
  | OsClose string
  | OsRemove string
  | OsRename string string
  | OsMkdirAll string

record os =
  os_fails :: "os_call \<Rightarrow> fs \<Rightarrow> string option"
  os_random :: "fs \<Rightarrow> string"
  os_left :: "string \<Rightarrow> fs \<Rightarrow> node option"

definition mode0600 :: nat where
  "mode0600 = 6 * 64"

text \<open>A write that fails may leave anything under its own name.\<close>

definition failed_write :: "os \<Rightarrow> string \<Rightarrow> fs \<Rightarrow> fs" where
  "failed_write os p m = (case os_left os p m of None \<Rightarrow> m | Some n \<Rightarrow> fmupd p n m)"

definition Stat :: "os \<Rightarrow> string \<Rightarrow> fs \<Rightarrow> string + node" where
  "Stat os p m =
     (case os_fails os (OsStat p) m of
        Some err \<Rightarrow> Inl err
      | None \<Rightarrow>
          (case fmlookup m p of
             None \<Rightarrow> Inl (''stat '' @ p @ '': no such file or directory'')
           | Some n \<Rightarrow> Inr n))"

definition ReadFile :: "os \<Rightarrow> string \<Rightarrow> fs \<Rightarrow> string + string" where
  "ReadFile os p m =
     (case os_fails os (OsReadFile p) m of
        Some err \<Rightarrow> Inl err
      | None \<Rightarrow>
          (case fmlookup m p of
             None \<Rightarrow> Inl (''open '' @ p @ '': no such file or directory'')
           | Some Directory \<Rightarrow> Inl (''read '' @ p @ '': is a directory'')
           | Some (File content _) \<Rightarrow> Inr content))"

text \<open>\<open>os.WriteFile\<close> keeps the permissions of an existing file.\<close>

definition perm_of :: "string \<Rightarrow> nat \<Rightarrow> fs \<Rightarrow> nat" where
  "perm_of p perm m = (case fmlookup m p of Some (File _ old) \<Rightarrow> old | _ \<Rightarrow> perm)"

definition WriteFile :: "os \<Rightarrow> string \<Rightarrow> string \<Rightarrow> nat \<Rightarrow> fs \<Rightarrow> string option \<times> fs" where
  "WriteFile os p content perm m =
     (case os_fails os (OsWriteFile p) m of
        Some err \<Rightarrow> (Some err, failed_write os p m)
      | None \<Rightarrow> (None, fmupd p (File content (perm_of p perm m)) m))"

definition joinPath :: "string \<Rightarrow> string \<Rightarrow> string" where
  "joinPath dir name = (if HasSuffix dir ''/'' then dir @ name else dir @ ''/'' @ name)"

text \<open>\<open>os.CreateTemp\<close> with a pattern \<open>prefix*suffix\<close>: an empty file with mode 0600.\<close>

definition temp_name :: "os \<Rightarrow> string \<Rightarrow> string \<Rightarrow> string \<Rightarrow> fs \<Rightarrow> string" where
  "temp_name os dir pre suf m = joinPath dir (pre @ os_random os m @ suf)"

definition CreateTemp :: "os \<Rightarrow> string \<Rightarrow> string \<Rightarrow> string \<Rightarrow> fs \<Rightarrow> (string + string) \<times> fs" where
  "CreateTemp os dir pre suf m =
     (case os_fails os (OsCreateTemp dir) m of
        Some err \<Rightarrow> (Inl err, m)
      | None \<Rightarrow> let p = temp_name os dir pre suf m in (Inr p, fmupd p (File [] mode0600) m))"

definition os_effect :: "os \<Rightarrow> os_call \<Rightarrow> (fs \<Rightarrow> fs) \<Rightarrow> fs \<Rightarrow> string option \<times> fs" where
  "os_effect os c f m = (case os_fails os c m of Some err \<Rightarrow> (Some err, m) | None \<Rightarrow> (None, f m))"

definition set_content :: "string \<Rightarrow> string \<Rightarrow> fs \<Rightarrow> fs" where
  "set_content p content m =
     (case fmlookup m p of Some (File _ perm) \<Rightarrow> fmupd p (File content perm) m | _ \<Rightarrow> m)"

definition temp_Write :: "os \<Rightarrow> string \<Rightarrow> string \<Rightarrow> fs \<Rightarrow> string option \<times> fs" where
  "temp_Write os p content m =
     (case os_fails os (OsWrite p) m of
        Some err \<Rightarrow> (Some err, failed_write os p m)
      | None \<Rightarrow> (None, set_content p content m))"

definition set_perm :: "string \<Rightarrow> nat \<Rightarrow> fs \<Rightarrow> fs" where
  "set_perm p perm m =
     (case fmlookup m p of Some (File content _) \<Rightarrow> fmupd p (File content perm) m | _ \<Rightarrow> m)"

definition move :: "string \<Rightarrow> string \<Rightarrow> fs \<Rightarrow> fs" where
  "move p q m = (case fmlookup m p of Some n \<Rightarrow> fmupd q n (fmdrop p m) | None \<Rightarrow> m)"

definition Remove :: "os \<Rightarrow> string \<Rightarrow> fs \<Rightarrow> fs" where
  "Remove os p m = snd (os_effect os (OsRemove p) (fmdrop p) m)"

definition Rename :: "os \<Rightarrow> string \<Rightarrow> string \<Rightarrow> fs \<Rightarrow> string option \<times> fs" where
  "Rename os p q m = os_effect os (OsRename p q) (move p q) m"

section \<open>Formatting\<close>

text \<open>\<open>fmt\<close>'s \<open>%d\<close> for a length, and \<open>strings.ReplaceAll\<close>.\<close>

fun Itoa :: "nat \<Rightarrow> string" where
  "Itoa n = (if n < 10 then [byte (0x30 + n)] else Itoa (n div 10) @ [byte (0x30 + n mod 10)])"

declare Itoa.simps [simp del]

function replace_from :: "string \<Rightarrow> string \<Rightarrow> string \<Rightarrow> string" where
  "replace_from old new s =
     (if old = [] then s
      else case s of
        [] \<Rightarrow> []
      | c # t \<Rightarrow> if prefix old s then new @ replace_from old new (drop (length old) s)
                 else c # replace_from old new t)"
  by auto
termination by (relation "measure (\<lambda>(old, new, s). length s)") auto

declare replace_from.simps [simp del]

definition ReplaceAll :: "string \<Rightarrow> string \<Rightarrow> string \<Rightarrow> string" where
  "ReplaceAll s old new =
     (if old = [] then concat (map (\<lambda>(r, bs). new @ bs) (runes s)) @ new else replace_from old new s)"

section \<open>Frames\<close>

text \<open>Two file systems that agree outside a set of names.\<close>

definition same_but :: "string set \<Rightarrow> fs \<Rightarrow> fs \<Rightarrow> bool" where
  "same_but ps m m' \<longleftrightarrow> (\<forall>p. p \<notin> ps \<longrightarrow> fmlookup m' p = fmlookup m p)"

lemma same_but_refl [simp]: "same_but ps m m"
  by (simp add: same_but_def)

lemma same_but_trans: "same_but ps m m' \<Longrightarrow> same_but qs m' m'' \<Longrightarrow> ps \<union> qs \<subseteq> rs \<Longrightarrow> same_but rs m m''"
  unfolding same_but_def by (metis UnCI subsetD)

lemma same_but_mono: "same_but ps m m' \<Longrightarrow> ps \<subseteq> qs \<Longrightarrow> same_but qs m m'"
  by (auto simp: same_but_def)

lemma os_effect_frame: "(\<And>m. same_but ps m (f m)) \<Longrightarrow> same_but ps m (snd (os_effect os c f m))"
  by (simp add: os_effect_def split: option.split)

lemma frames:
  "same_but {p} m (set_content p content m)" "same_but {p} m (set_perm p perm m)"
  "same_but {p, q} m (move p q m)" "same_but {p} m (fmdrop p m)"
  "same_but {p} m (Remove os p m)" "same_but {p, q} m (snd (Rename os p q m))"
  "same_but {p} m (snd (WriteFile os p content perm m))" "same_but {p} m (snd (temp_Write os p content m))"
  by (auto simp: same_but_def set_content_def set_perm_def move_def Remove_def Rename_def WriteFile_def os_effect_def
      temp_Write_def failed_write_def
      split: option.splits node.splits)

section \<open>An example\<close>

text \<open>A system on which every call succeeds.\<close>

definition plain_os :: os where
  "plain_os = \<lparr>os_fails = (\<lambda>c m. None), os_random = (\<lambda>m. ''1''), os_left = (\<lambda>p m. None)\<rparr>"

end
