(* ===== verification/Config_Manager.thy ===== *)
theory Config_Manager
  imports Edge_Controller Edge_Config Go_Os
begin

text \<open>
  Remote reading and writing of the collector's configuration
  (\<open>src/components/edgecontroller/config_manager.go\<close>, \<open>config_handler.go\<close>).  The file
  system is an explicit state; the YAML parser (\<open>yaml\<close>) and the collector's own
  \<open>validate\<close> subcommand (\<open>run\<close>, which may read the file system and does not change
  it) are arguments.  Errors are their texts, as the agent sends them back.  Ending the process
  is the exit status of the handler's delayed step.

  The lemmas: a configuration gets into place only after its staged copy was validated in the
  exact set of sources the collector was started with, no file but the configuration, its backup
  and the staged copy is ever touched, and a rejected update leaves the configuration alone.
\<close>

section \<open>The manager\<close>

record configManager =
  uris :: "string list"
  primary :: string
  writeEnabled :: bool
  executable :: string

definition fileScheme :: string where "fileScheme = ''file:''"
definition maxConfigFileBytes :: nat where "maxConfigFileBytes = 2 ^ 20"
definition exitCodeConfigApplied :: int where "exitCodeConfigApplied = 75"
definition backupSuffix :: string where "backupSuffix = ''.bak''"

fun parseConfigFlags :: "string list \<Rightarrow> string list" where
  "parseConfigFlags [] = []"
| "parseConfigFlags (arg # args) =
     (let (name, value, hasValue) = Cut arg (CHR ''='') in
      if name \<noteq> ''--config'' \<and> name \<noteq> ''-config'' then parseConfigFlags args
      else if hasValue then value # parseConfigFlags args
      else case args of [] \<Rightarrow> [] | v # rest_args \<Rightarrow> v # parseConfigFlags rest_args)"

definition uriPath :: "string \<Rightarrow> string option" where
  "uriPath uri =
     (case CutPrefix uri fileScheme of
        (p, True) \<Rightarrow> if p \<noteq> '''' then Some p else None
      | (_, False) \<Rightarrow>
          (case Cut uri (CHR '':'') of
             (scheme, _, found) \<Rightarrow>
               if found \<and> scheme \<noteq> '''' \<and> \<not> IsAbs uri then None
               else if uri \<noteq> '''' then Some uri else None))"

fun first_file :: "string list \<Rightarrow> string" where
  "first_file [] = ''''"
| "first_file (uri # us) = (case uriPath uri of Some p \<Rightarrow> p | None \<Rightarrow> first_file us)"

text \<open>\<open>exe\<close> is the answer of \<open>os.Executable\<close>.\<close>

definition newConfigManager :: "Config \<Rightarrow> string option \<Rightarrow> string list \<Rightarrow> configManager" where
  "newConfigManager cfg exe args =
     (let us = parseConfigFlags args in
      \<lparr>uris = us, primary = (if cfg_ConfigFile cfg = '''' then first_file us else cfg_ConfigFile cfg),
       writeEnabled = RemoteConfigWrite cfg, executable = (case exe of None \<Rightarrow> '''' | Some p \<Rightarrow> p)\<rparr>)"

fun known_path :: "string list \<Rightarrow> string \<Rightarrow> bool" where
  "known_path [] path = False"
| "known_path (uri # us) path = (if uriPath uri = Some path then True else known_path us path)"

definition isKnownPath :: "configManager \<Rightarrow> string \<Rightarrow> bool" where
  "isKnownPath m path = known_path (uris m) path"

section \<open>Reading\<close>

definition readConfigFile :: "os \<Rightarrow> string \<Rightarrow> fs \<Rightarrow> string + string" where
  "readConfigFile os path m =
     (case Stat os path m of
        Inl err \<Rightarrow> Inl err
      | Inr Directory \<Rightarrow> Inl (path @ '' is a directory'')
      | Inr (File content _) \<Rightarrow>
          if length content > maxConfigFileBytes
          then Inl (''config file is '' @ Itoa (length content) @ '' bytes, over the ''
                    @ Itoa maxConfigFileBytes @ '' byte limit'')
          else ReadFile os path m)"

definition isWritable :: "os \<Rightarrow> string \<Rightarrow> fs \<Rightarrow> bool \<times> fs" where
  "isWritable os path m =
     (case CreateTemp os (Dir path) ''.leansignal-write-probe-'' '''' m of
        (Inl err, m1) \<Rightarrow> (False, m1)
      | (Inr name, m1) \<Rightarrow> (True, Remove os name m1))"

fun snapshot_files :: "os \<Rightarrow> bool \<Rightarrow> string list \<Rightarrow> fs \<Rightarrow> ConfigFile list \<times> fs" where
  "snapshot_files os enabled [] m = ([], m)"
| "snapshot_files os enabled (uri # us) m =
     (let (f, m1) =
        (case uriPath uri of
           None \<Rightarrow> (\<lparr>cf_Path = uri, cf_Content = [], cf_Writable = False,
                      cf_Error = ''not a file source; cannot be read or edited''\<rparr>, m)
         | Some path \<Rightarrow>
             (case readConfigFile os path m of
                Inl err \<Rightarrow> (\<lparr>cf_Path = path, cf_Content = [], cf_Writable = False, cf_Error = err\<rparr>, m)
              | Inr content \<Rightarrow>
                  (let (w, m1) = (if enabled then isWritable os path m else (False, m))
                   in (\<lparr>cf_Path = path, cf_Content = content, cf_Writable = w, cf_Error = ''''\<rparr>, m1))));
          (fs, m2) = snapshot_files os enabled us m1
      in (f # fs, m2))"

definition config_Snapshot :: "os \<Rightarrow> configManager \<Rightarrow> fs \<Rightarrow> ConfigSnapshot \<times> fs" where
  "config_Snapshot os m f =
     (if length (uris m) = 0
      then (\<lparr>cs_Files = [], cs_PrimaryPath = primary m, cs_WriteEnabled = writeEnabled m,
             cs_Error = ''no --config sources found on the agent command line''\<rparr>, f)
      else let (files, f') = snapshot_files os (writeEnabled m) (uris m) f
        in (\<lparr>cs_Files = files, cs_PrimaryPath = primary m, cs_WriteEnabled = writeEnabled m, cs_Error = ''''\<rparr>, f'))"

section \<open>Writing\<close>

text \<open>The staged copy: written, flushed, given the target's permissions and closed; a failure
  removes it again.\<close>

definition stage :: "os \<Rightarrow> string \<Rightarrow> string \<Rightarrow> fs \<Rightarrow> (string + string) \<times> fs" where
  "stage os path content m =
     (let perm = (case Stat os path m of Inr (File _ p) \<Rightarrow> p | _ \<Rightarrow> mode0600) in
      case CreateTemp os (Dir path) (Base path @ ''.'') ''.tmp'' m of
        (Inl err, m1) \<Rightarrow> (Inl (''cannot stage the new config next to '' @ path @ '': '' @ err), m1)
      | (Inr tmp, m1) \<Rightarrow>
          (case temp_Write os tmp content m1 of
             (Some err, m2) \<Rightarrow> (Inl (''cannot write the staged config: '' @ err), Remove os tmp m2)
           | (None, m2) \<Rightarrow>
               (case os_fails os (OsSync tmp) m2 of
                  Some err \<Rightarrow> (Inl (''cannot flush the staged config: '' @ err), Remove os tmp m2)
                | None \<Rightarrow>
                    (case os_effect os (OsChmod tmp) (set_perm tmp perm) m2 of
                       (Some err, m3) \<Rightarrow>
                         (Inl (''cannot set permissions on the staged config: '' @ err), Remove os tmp m3)
                     | (None, m3) \<Rightarrow>
                         (case os_fails os (OsClose tmp) m3 of
                            Some err \<Rightarrow> (Inl (''cannot close the staged config: '' @ err), Remove os tmp m3)
                          | None \<Rightarrow> (Inr tmp, m3))))))"

definition maxValidatorOutput :: nat where "maxValidatorOutput = 8 * 2 ^ 10"

definition sanitizeValidatorOutput :: "string \<Rightarrow> string \<Rightarrow> string \<Rightarrow> string" where
  "sanitizeValidatorOutput out candidate path =
     (let out = ReplaceAll out candidate path in
      if length out > maxValidatorOutput
      then take maxValidatorOutput out @ [newline, CHR 0xE2, CHR 0x80, CHR 0xA6] @ '' (truncated)''
      else out)"

datatype exec_outcome = ExecOk | ExecTimedOut | ExecNotStarted string | ExecFailed string

type_synonym validator = "fs \<Rightarrow> string \<Rightarrow> string list \<Rightarrow> exec_outcome"

definition validate_args :: "configManager \<Rightarrow> string \<Rightarrow> string \<Rightarrow> string list" where
  "validate_args m path candidate =
     ''validate'' # concat (map (\<lambda>uri. [''--config'',
        if uriPath uri = Some path then fileScheme @ candidate else uri]) (uris m))"

definition validation_unavailable :: string where
  "validation_unavailable = ''config validation unavailable''"

definition validate :: "validator \<Rightarrow> configManager \<Rightarrow> string \<Rightarrow> string \<Rightarrow> fs \<Rightarrow> string option" where
  "validate run m path candidate f =
     (if executable m = ''''
      then Some (validation_unavailable @ '': the collector executable could not be located, so the new config ''
        @ ''cannot be checked before it is applied'')
      else case run f (executable m) (validate_args m path candidate) of
        ExecOk \<Rightarrow> None
      | ExecTimedOut \<Rightarrow> Some (validation_unavailable @ '': validating the new config timed out after 30s'')
      | ExecNotStarted err \<Rightarrow> Some (validation_unavailable @ '': '' @ err)
      | ExecFailed out \<Rightarrow>
          Some (''the new config is not valid, so it was not applied:'' @ [newline]
            @ TrimSpace (sanitizeValidatorOutput out candidate path)))"

definition commit :: "os \<Rightarrow> string \<Rightarrow> string \<Rightarrow> fs \<Rightarrow> string option \<times> fs" where
  "commit os path candidate m =
     (let m1 = (case ReadFile os path m of
                  Inl _ \<Rightarrow> m
                | Inr current \<Rightarrow> snd (WriteFile os (path @ backupSuffix) current mode0600 m))
      in case Rename os candidate path m1 of
           (Some err, m2) \<Rightarrow> (Some (''cannot replace '' @ path @ '': '' @ err), m2)
         | (None, m2) \<Rightarrow> (None, m2))"

definition remove_staged :: "os \<Rightarrow> string \<Rightarrow> fs \<Rightarrow> fs" where
  "remove_staged os tmp m = (case Stat os tmp m of Inl _ \<Rightarrow> m | Inr _ \<Rightarrow> Remove os tmp m)"

definition written_message :: "string \<Rightarrow> bool \<Rightarrow> string" where
  "written_message path skipReload =
     ''config validated and written to '' @ path @ '' (previous kept as '' @ path @ backupSuffix @ ''); ''
     @ (if skipReload then ''restart the agent to apply it'' else ''restarting to reload the config'')"

definition Apply ::
    "os \<Rightarrow> (string \<Rightarrow> string option) \<Rightarrow> validator \<Rightarrow> configManager \<Rightarrow> string \<Rightarrow> string \<Rightarrow> bool \<Rightarrow> fs
     \<Rightarrow> (string + string \<times> bool) \<times> fs" where
  "Apply os yaml run m path0 content skipReload f =
     (let path = (if path0 = '''' then primary m else path0) in
      if \<not> writeEnabled m
      then (Inl (''remote config write is disabled on this agent (set remote_config_write: true on the ''
                 @ ''leansignal_edge_controller extension)''), f)
      else if path = ''''
      then (Inl ''no config file to write: the agent resolved no file: --config source'', f)
      else if \<not> isKnownPath m path then (Inl (path @ '' is not one of this agent'' @ [CHR 0x27] @ ''s config files''), f)
      else if length content = 0 then (Inl ''refusing to write an empty config'', f)
      else if length content > maxConfigFileBytes
      then (Inl (''config is '' @ Itoa (length content) @ '' bytes, over the '' @ Itoa maxConfigFileBytes
                 @ '' byte limit''), f)
      else case yaml content of
        Some err \<Rightarrow> (Inl (''config is not valid YAML: '' @ err), f)
      | None \<Rightarrow>
          (case stage os path content f of
             (Inl err, f1) \<Rightarrow> (Inl err, f1)
           | (Inr tmp, f1) \<Rightarrow>
               (case validate run m path tmp f1 of
                  Some err \<Rightarrow> (Inl err, remove_staged os tmp f1)
                | None \<Rightarrow>
                    (case commit os path tmp f1 of
                       (Some err, f2) \<Rightarrow> (Inl err, remove_staged os tmp f2)
                     | (None, f2) \<Rightarrow>
                         (Inr (written_message path skipReload, \<not> skipReload), remove_staged os tmp f2)))))"

section \<open>The handlers\<close>

text \<open>The answer to \<open>update_config\<close>, and whether the delayed restart is started.\<close>

definition handleUpdateConfig ::
    "os \<Rightarrow> (string \<Rightarrow> string option) \<Rightarrow> validator \<Rightarrow> (AgentMessage list \<Rightarrow> AgentMessage \<Rightarrow> bool) \<Rightarrow> configManager
     \<Rightarrow> 64 word \<Rightarrow> UpdateConfig \<Rightarrow> edgeControllerExtension \<times> fs
     \<Rightarrow> (edgeControllerExtension \<times> fs) \<times> bool" where
  "handleUpdateConfig os yaml run net m correlationID req s =
     (case Apply os yaml run m (uc_Path req) (uc_Config req) (uc_SkipReload req) (snd s) of
        (Inl err, f) \<Rightarrow> ((replyCommand net correlationID False err (fst s), f), False)
      | (Inr (msg, reload), f) \<Rightarrow> ((replyCommand net correlationID True msg (fst s), f), reload))"

text \<open>The delayed step: the process ends with the status its supervisor restarts it on, unless the
  agent is shut down first.\<close>

definition restartForConfig :: int where
  "restartForConfig = exitCodeConfigApplied"

definition delayed_restart :: "bool \<Rightarrow> int option" where
  "delayed_restart shutting_down = (if shutting_down then None else Some restartForConfig)"

definition answer_get_config ::
    "os \<Rightarrow> (AgentMessage list \<Rightarrow> AgentMessage \<Rightarrow> bool) \<Rightarrow> configManager \<Rightarrow> 64 word
     \<Rightarrow> edgeControllerExtension \<times> fs \<Rightarrow> edgeControllerExtension \<times> fs" where
  "answer_get_config os net m correlationID s =
     (if correlationID = 0 then s
      else let (snap, f) = config_Snapshot os m (snd s)
        in (sendConfigSnapshot net snap correlationID (fst s), f))"

section \<open>Flags\<close>

text \<open>A command line argument by argument: a source with one or two dashes, joined to its flag by
  \<open>=\<close> or standing after it, or an argument of another flag.\<close>

datatype cli_arg = ConfigSource bool bool string | OtherArg string

definition config_flag :: "bool \<Rightarrow> string" where
  "config_flag double = (if double then ''--config'' else ''-config'')"

fun render_arg :: "cli_arg \<Rightarrow> string list" where
  "render_arg (ConfigSource double joined u) =
     (if joined then [config_flag double @ ''='' @ u] else [config_flag double, u])"
| "render_arg (OtherArg a) = [a]"

fun plain_arg :: "cli_arg \<Rightarrow> bool" where
  "plain_arg (ConfigSource double joined u) \<longleftrightarrow> True"
| "plain_arg (OtherArg a) \<longleftrightarrow> (\<forall>double. a \<noteq> config_flag double \<and> \<not> prefix (config_flag double @ ''='') a)"

fun arg_source :: "cli_arg \<Rightarrow> string list" where
  "arg_source (ConfigSource double joined u) = [u]"
| "arg_source (OtherArg a) = []"

definition cli :: "cli_arg list \<Rightarrow> string list" where
  "cli line = concat (map render_arg line)"

definition cli_sources :: "cli_arg list \<Rightarrow> string list" where
  "cli_sources line = concat (map arg_source line)"

lemma Cut_cases:
  "Cut s c = (name, val, found) \<Longrightarrow> c \<notin> set name \<and> (if found then s = name @ c # val else s = name \<and> val = [])"
  by (induction s c arbitrary: name rule: Cut.induct) (auto split: if_splits prod.splits)

lemma Cut_joined: "c \<notin> set name \<Longrightarrow> Cut (name @ c # val) c = (name, val, True)"
  and Cut_alone: "c \<notin> set name \<Longrightarrow> Cut name c = (name, [], False)"
  by (induction name) auto

lemma config_flag_no_eq: "CHR ''='' \<notin> set (config_flag double)"
  by (simp add: config_flag_def)

lemma config_flag_name: "name \<noteq> ''--config'' \<and> name \<noteq> ''-config'' \<longleftrightarrow> (\<forall>double. name \<noteq> config_flag double)"
  by (auto simp: config_flag_def all_bool_eq)

lemma parse_other:
  assumes "plain_arg (OtherArg a)"
  shows "parseConfigFlags (a # args) = parseConfigFlags args"
proof -
  obtain name val found where cut: "Cut a (CHR ''='') = (name, val, found)" by (metis prod_cases3)
  have "\<forall>double. name \<noteq> config_flag double"
    using assms Cut_cases [OF cut] by (auto simp: prefix_def split: if_splits)
  from this [folded config_flag_name] show ?thesis using cut by simp
qed

lemma parse_source:
  "parseConfigFlags ((config_flag double @ ''='' @ u) # args) = u # parseConfigFlags args"
  "parseConfigFlags (config_flag double # u # args) = u # parseConfigFlags args"
  "parseConfigFlags [config_flag double] = []"
  using Cut_joined [OF config_flag_no_eq, of double u] Cut_alone [OF config_flag_no_eq, of double]
  by (simp_all add: config_flag_def split: if_splits)

lemma parse_arg: "plain_arg x \<Longrightarrow> parseConfigFlags (render_arg x @ args) = arg_source x @ parseConfigFlags args"
  using parse_source(1) by (cases x) (simp_all add: parse_source(2) parse_other del: plain_arg.simps(2) parseConfigFlags.simps)

lemma parse_cli: "list_all plain_arg line \<Longrightarrow> parseConfigFlags (cli line @ args) = cli_sources line @ parseConfigFlags args"
  by (induction line) (simp_all add: cli_def cli_sources_def parse_arg)

text \<open>Every command line is of this form, but for a last flag without its val.\<close>

lemma cli_complete:
  "\<exists>line tail. args = cli line @ tail \<and> list_all plain_arg line \<and> tail \<in> insert [] (range (\<lambda>double. [config_flag double]))"
proof (induction args rule: parseConfigFlags.induct)
  case (2 arg args)
  obtain name val found where cut: "Cut arg (CHR ''='') = (name, val, found)" by (metis prod_cases3)
  have step: ?case if x: "arg # args = render_arg x @ args'" "plain_arg x"
    and ih: "\<exists>line tail. args' = cli line @ tail \<and> list_all plain_arg line \<and> tail \<in> insert [] (range (\<lambda>double. [config_flag double]))"
    for x args'
  proof -
    obtain line tail where "args' = cli line @ tail" "list_all plain_arg line" "tail \<in> insert [] (range (\<lambda>double. [config_flag double]))"
      using ih by blast
    then show ?thesis using x by (intro exI [of _ "x # line"] exI [of _ tail]) (simp add: cli_def)
  qed
  show ?case
  proof (cases "\<exists>double. name = config_flag double")
    case False
    then have "name \<noteq> ''--config'' \<and> name \<noteq> ''-config''" using config_flag_name by blast
    moreover have "plain_arg (OtherArg arg)"
      using False cut Cut_joined [OF config_flag_no_eq] Cut_alone [OF config_flag_no_eq] by (fastforce simp: prefix_def)
    ultimately show ?thesis using step [of "OtherArg arg" args] "2.IH"(1) [OF cut [symmetric] refl refl] by simp
  next
    case True
    then obtain double where name: "name = config_flag double" by blast
    then have known: "\<not> (name \<noteq> ''--config'' \<and> name \<noteq> ''-config'')" using config_flag_name by blast
    show ?thesis
    proof (cases found)
      case True
      then have "arg = config_flag double @ ''='' @ val" using Cut_cases [OF cut] name by simp
      then show ?thesis using step [of "ConfigSource double True val" args] "2.IH"(2) [OF cut [symmetric] refl refl known True] by simp
    next
      case False
      then have arg: "arg = config_flag double" using Cut_cases [OF cut] name by simp
      show ?thesis
      proof (cases args)
        case Nil
        then show ?thesis using arg by (intro exI [of _ "[]"] exI [of _ "[arg]"]) (simp add: cli_def)
      next
        case (Cons v rest_args)
        then show ?thesis
          using step [of "ConfigSource double False v" rest_args] "2.IH"(3) [OF cut [symmetric] refl refl known False Cons] arg Cons by simp
      qed
    qed
  qed
qed (auto intro!: exI [of _ "[]"] simp: cli_def)

text \<open>A source that names a file: with the scheme, or as a bare path that does not look like another
  provider's URI.\<close>

definition names_file :: "string \<Rightarrow> string \<Rightarrow> bool" where
  "names_file path uri \<longleftrightarrow> path \<noteq> [] \<and>
     (uri = ''file:'' @ path \<or>
      uri = path \<and> \<not> prefix ''file:'' path \<and> (hd path \<in> {CHR ''/'', CHR '':''} \<or> CHR '':'' \<notin> set path))"

lemma uriPath_names: "uriPath uri = Some path \<longleftrightarrow> names_file path uri"
proof (cases "prefix ''file:'' uri")
  case True
  then show ?thesis by (auto simp: uriPath_def CutPrefix_def fileScheme_def names_file_def prefix_def)
next
  case False
  obtain scheme val found where cut: "Cut uri (CHR '':'') = (scheme, val, found)" by (metis prod_cases3)
  have "found \<and> scheme \<noteq> [] \<longleftrightarrow> CHR '':'' \<in> set uri \<and> hd uri \<noteq> CHR '':''"
    using Cut_cases [OF cut] by (cases scheme) (auto split: if_splits)
  moreover have "IsAbs uri \<longleftrightarrow> uri \<noteq> [] \<and> hd uri = CHR ''/''"
    by (cases uri) (auto simp: IsAbs_def HasPrefix_def)
  ultimately show ?thesis using False cut
    by (auto simp: uriPath_def CutPrefix_def fileScheme_def names_file_def)
qed

section \<open>Staging and committing\<close>

abbreviation staged_name :: "os \<Rightarrow> string \<Rightarrow> fs \<Rightarrow> string" where
  "staged_name os path m \<equiv> temp_name os (Dir path) (Base path @ ''.'') ''.tmp'' m"

definition file_perm :: "os \<Rightarrow> string \<Rightarrow> fs \<Rightarrow> nat" where
  "file_perm os path m = (case Stat os path m of Inr (File _ p) \<Rightarrow> p | _ \<Rightarrow> mode0600)"

lemma stage_result:
  assumes "stage os path content m = (r, m')"
  shows "same_but {staged_name os path m} m m'"
    and "r = Inr t \<Longrightarrow> t = staged_name os path m \<and> fmlookup m' t = Some (File content (file_perm os path m))"
proof -
  let ?t = "staged_name os path m"
  let ?m1 = "fmupd ?t (File [] mode0600) m"
  have f: "same_but {?t} m (snd (os_effect os c (set_perm ?t p) g))" if "same_but {?t} m g" for c p g
    using os_effect_frame [of "{?t}" "set_perm ?t p"] frames(2) that same_but_trans by blast
  have rm: "same_but {?t} m (Remove os ?t g)" if "same_but {?t} m g" for g
    using frames(5) that same_but_trans by blast
  have m1: "same_but {?t} m ?m1" by (simp add: same_but_def)
  have w: "same_but {?t} m (snd (temp_Write os ?t content ?m1))"
    using frames(8) m1 same_but_trans by blast
  obtain e2 m2 where 2: "temp_Write os ?t content ?m1 = (e2, m2)" by fastforce
  obtain e3 m3 where 3: "os_effect os (OsChmod ?t) (set_perm ?t (file_perm os path m)) m2 = (e3, m3)" by fastforce
  have s2: "same_but {?t} m m2" using w 2 by simp
  have s3: "same_but {?t} m m3" using f [OF s2] 3 by (metis snd_conv)
  show "same_but {?t} m m'" using assms s2 s3 rm [OF s2] rm [OF s3] 2 3
    by (auto simp: stage_def CreateTemp_def Let_def simp flip: file_perm_def split: option.splits)
  show "t = ?t \<and> fmlookup m' t = Some (File content (file_perm os path m))" if "r = Inr t"
    using assms that 2 3
    by (auto simp: stage_def CreateTemp_def Let_def temp_Write_def os_effect_def set_content_def set_perm_def
        simp flip: file_perm_def split: option.splits)
qed

lemma commit_result:
  assumes "commit os path tmp m = (r, m')" "tmp \<noteq> path" "tmp \<noteq> path @ backupSuffix"
  shows "same_but {path, path @ backupSuffix, tmp} m m'"
    and "r \<noteq> None \<Longrightarrow> same_but {path @ backupSuffix} m m'"
    and "r = None \<Longrightarrow> fmlookup m tmp = Some n \<Longrightarrow> fmlookup m' path = Some n"
proof -
  let ?bak = "path @ backupSuffix"
  define m1 where "m1 = (case ReadFile os path m of Inl _ \<Rightarrow> m
    | Inr current \<Rightarrow> snd (WriteFile os ?bak current mode0600 m))"
  have b: "same_but {?bak} m m1" unfolding m1_def by (auto split: sum.split simp: frames)
  have c: "commit os path tmp m = (case Rename os tmp path m1 of
      (Some err, m2) \<Rightarrow> (Some (''cannot replace '' @ path @ '': '' @ err), m2) | (None, m2) \<Rightarrow> (None, m2))"
    by (simp add: commit_def m1_def)
  have keep: "fmlookup m1 tmp = fmlookup m tmp" using b assms(3) by (simp add: same_but_def)
  obtain e2 m2 where r: "Rename os tmp path m1 = (e2, m2)" by fastforce
  have m': "m' = m2" using assms(1) c r by (auto split: option.splits)
  have "same_but {tmp, path} m1 m2" using frames(6) r by (metis snd_conv)
  then show "same_but {path, ?bak, tmp} m m'" unfolding m' by (rule same_but_trans [OF b]) auto
  show "same_but {?bak} m m'" if "r \<noteq> None"
    using that assms(1) c r b by (auto simp: Rename_def os_effect_def split: option.splits)
  show "fmlookup m' path = Some n" if "r = None" "fmlookup m tmp = Some n"
    using that assms(1) c r keep by (auto simp: Rename_def os_effect_def move_def split: option.splits)
qed

lemma remove_staged_frame: "same_but {tmp} m (remove_staged os tmp m)"
  by (simp add: remove_staged_def frames split: sum.split)

lemma remove_staged_gone:
  assumes "\<forall>p g. os_fails os (OsRemove p) g = None \<and> os_fails os (OsStat p) g = None"
  shows "fmlookup (remove_staged os tmp m) tmp = None"
  using assms by (cases "fmlookup m tmp") (simp_all add: remove_staged_def Stat_def Remove_def os_effect_def)

lemma stage_failed_clean:
  assumes "\<forall>p g. os_fails os (OsRemove p) g = None \<and> os_fails os (OsStat p) g = None"
    and "fmlookup m (staged_name os path m) = None" and "stage os path content m = (Inl err, m')"
  shows "fmlookup m' (staged_name os path m) = None"
proof -
  have gone: "fmlookup (Remove os t g) t = None" for t g
    using assms(1) by (simp add: Remove_def os_effect_def)
  show ?thesis using assms(2,3)
    by (auto simp: stage_def CreateTemp_def Let_def gone split: option.splits prod.splits)
qed

text \<open>The shape of an accepted update: every check passed, in order.\<close>

lemma Apply_accepted:
  assumes "Apply os yaml run m path0 content skip f = (Inr (msg, reload), f')"
    and "path = (if path0 = '''' then primary m else path0)"
  shows "writeEnabled m" "path \<noteq> ''''" "isKnownPath m path" "0 < length content" "length content \<le> maxConfigFileBytes"
    "yaml content = None" "reload = (\<not> skip)"
    "\<exists>tmp f1 f2. stage os path content f = (Inr tmp, f1) \<and> executable m \<noteq> ''''
       \<and> run f1 (executable m) (validate_args m path tmp) = ExecOk
       \<and> commit os path tmp f1 = (None, f2) \<and> f' = remove_staged os tmp f2"
  using assms
  by (auto simp: Apply_def Let_def validate_def split: if_splits option.splits sum.splits prod.splits exec_outcome.splits)

lemma Apply_refused:
  assumes "Apply os yaml run m path0 content skip f = (Inl err, f')"
    and "path = (if path0 = '''' then primary m else path0)"
  shows "f' = f \<or> (\<exists>err1. stage os path content f = (Inl err1, f'))
    \<or> (\<exists>tmp f1. stage os path content f = (Inr tmp, f1) \<and> f' = remove_staged os tmp f1)
    \<or> (\<exists>tmp f1 err2 f2. stage os path content f = (Inr tmp, f1) \<and> commit os path tmp f1 = (Some err2, f2)
         \<and> f' = remove_staged os tmp f2)"
  using assms by (auto simp: Apply_def Let_def split: if_splits option.splits sum.splits prod.splits)

section \<open>An example\<close>

text \<open>One configuration file, and the collector's check with a fixed outcome.\<close>

definition one_file :: configManager where
  "one_file = \<lparr>uris = [''file:/c''], primary = ''/c'', writeEnabled = True, executable = ''/bin/otel''\<rparr>"

definition one_fs :: fs where
  "one_fs = fmupd ''/c'' (File ''x'' 420) fmempty"

definition one_update :: UpdateConfig where
  "one_update = \<lparr>uc_Config = ''y'', uc_Path = '''', uc_SkipReload = False\<rparr>"

abbreviation one_Apply :: "exec_outcome \<Rightarrow> (string + string \<times> bool) \<times> fs" where
  "one_Apply outcome \<equiv> Apply plain_os (\<lambda>c. None) (\<lambda>f exe args. outcome) one_file '''' ''y'' False one_fs"

lemma one_names:
  "''/c'' = (if '''' = '''' then primary one_file else '''')"
  "staged_name plain_os ''/c'' one_fs = ''/c.1.tmp''"
  "''/c.1.tmp'' \<noteq> ''/c''" "''/c.1.tmp'' \<noteq> ''/c'' @ backupSuffix"
  "file_perm plain_os ''/c'' one_fs = 420" "''/c'' @ backupSuffix = ''/c.bak''"
  "fmlookup one_fs ''/c'' = Some (File ''x'' 420)" "fmlookup one_fs ''/c.1.tmp'' = None"
  by code_simp+

lemma one_Apply_ok: "fst (one_Apply ExecOk) = Inr (written_message ''/c'' False, True)"
  by code_simp

lemma one_Apply_bad: "isl (fst (one_Apply (ExecFailed ''bad'')))"
  by code_simp

section \<open>Properties\<close>

text \<open>
  C27: A configuration takes effect only when it was validated.  When an update is accepted,
  writing is enabled, the file is one the collector was started with, the content is not empty,
  within the limit and YAML, and the collector's own check succeeded on a file system that
  differs from the original by the staged copy with exactly the new content; that content is then
  in place, with the permissions the file had, and apart from the backup and the staged copy no
  other file changed.
\<close>

theorem config_applied:
  assumes "Apply os yaml run m path0 content skip f = (Inr (msg, reload), f')"
    and "path = (if path0 = '''' then primary m else path0)" and "tmp = staged_name os path f"
    and "tmp \<noteq> path" "tmp \<noteq> path @ backupSuffix"
  shows "writeEnabled m \<and> isKnownPath m path \<and> 0 < length content \<and> length content \<le> maxConfigFileBytes
    \<and> yaml content = None \<and> reload = (\<not> skip)
    \<and> (\<exists>staged. same_but {tmp} f staged \<and> fmlookup staged tmp = Some (File content (file_perm os path f))
         \<and> run staged (executable m) (validate_args m path tmp) = ExecOk)
    \<and> fmlookup f' path = Some (File content (file_perm os path f))
    \<and> same_but {path, path @ backupSuffix, tmp} f f'"
proof -
  note a = Apply_accepted [OF assms(1,2)]
  obtain t f1 f2 where s: "stage os path content f = (Inr t, f1)"
    "run f1 (executable m) (validate_args m path t) = ExecOk" "commit os path t f1 = (None, f2)"
    "f' = remove_staged os t f2" using a(8) by blast
  have t: "t = tmp" "fmlookup f1 tmp = Some (File content (file_perm os path f))" "same_but {tmp} f f1"
    using stage_result [OF s(1)] assms(3) by auto
  note c = commit_result [OF s(3) [unfolded t(1)] assms(4,5)]
  have rm: "same_but {tmp} f2 f'" unfolding s(4) t(1) by (rule remove_staged_frame)
  then have "fmlookup f' path = Some (File content (file_perm os path f))"
    using c(3) [OF refl t(2)] assms(4) by (simp add: same_but_def)
  moreover have "same_but {path, path @ backupSuffix, tmp} f f'"
    using same_but_trans [OF same_but_trans [OF t(3) c(1), of "{path, path @ backupSuffix, tmp}"] rm] by blast
  ultimately show ?thesis using a(1,3-7) s(2) t by blast
qed

text \<open>Witness, with a check that passes.\<close>

theorem config_applied_witness:
  "fst (one_Apply ExecOk) = Inr (written_message ''/c'' False, True)
   \<and> fmlookup (snd (one_Apply ExecOk)) ''/c'' = Some (File ''y'' 420)
   \<and> same_but {''/c'', ''/c.bak'', ''/c.1.tmp''} one_fs (snd (one_Apply ExecOk))"
proof -
  have a: "one_Apply ExecOk = (Inr (written_message ''/c'' False, True), snd (one_Apply ExecOk))"
    by (rule prod_eqI) (simp_all only: one_Apply_ok fst_conv snd_conv)
  from config_applied [OF a one_names(1) one_names(2) [symmetric] one_names(3,4)]
  show ?thesis unfolding one_names(5,6) by (intro conjI one_Apply_ok) (elim conjE, assumption)+
qed

text \<open>
  C28: A refused update leaves the configuration alone.  Whatever the reason (disabled, unknown
  file, empty, too large, not YAML, staging or validation failed, or the file could not be
  replaced), the only names that may differ afterwards are the staged copy and the backup; and
  when the staged name was free and removing files works, no staged copy is left behind.
\<close>

theorem config_refused:
  assumes "Apply os yaml run m path0 content skip f = (Inl err, f')"
    and "path = (if path0 = '''' then primary m else path0)" and "tmp = staged_name os path f"
    and "tmp \<noteq> path" "tmp \<noteq> path @ backupSuffix"
  shows "same_but {path @ backupSuffix, tmp} f f' \<and> fmlookup f' path = fmlookup f path
    \<and> (fmlookup f tmp = None \<longrightarrow> (\<forall>p g. os_fails os (OsRemove p) g = None \<and> os_fails os (OsStat p) g = None)
         \<longrightarrow> fmlookup f' tmp = None)"
proof -
  let ?bak = "path @ backupSuffix"
  consider "f' = f" | err1 where "stage os path content f = (Inl err1, f')"
    | t f1 where "stage os path content f = (Inr t, f1)" "f' = remove_staged os t f1"
    | t f1 err2 f2 where "stage os path content f = (Inr t, f1)" "commit os path t f1 = (Some err2, f2)"
        "f' = remove_staged os t f2"
    using Apply_refused [OF assms(1,2)] by blast
  then have "same_but {?bak, tmp} f f' \<and> (fmlookup f tmp = None
      \<longrightarrow> (\<forall>p g. os_fails os (OsRemove p) g = None \<and> os_fails os (OsStat p) g = None) \<longrightarrow> fmlookup f' tmp = None)"
  proof cases
    case 1 then show ?thesis by simp
  next
    case 2
    have "same_but {?bak, tmp} f f'" using stage_result(1) [OF 2] assms(3) by (auto intro: same_but_mono)
    then show ?thesis using stage_failed_clean [OF _ _ 2] unfolding assms(3) by blast
  next
    case (3 t f1)
    have "t = tmp" "same_but {tmp} f f1" using stage_result [OF 3(1)] assms(3) by auto
    then have "same_but {?bak, tmp} f f'"
      using remove_staged_frame [of t f1 os] 3(2) by (auto intro: same_but_trans)
    then show ?thesis using remove_staged_gone [of os tmp f1] 3(2) \<open>t = tmp\<close> by simp
  next
    case (4 t f1 err2 f2)
    have t: "t = tmp" "same_but {tmp} f f1" using stage_result [OF 4(1)] assms(3) by auto
    have "same_but {?bak} f1 f2" using commit_result(2) [OF 4(2)] t(1) assms(4,5) by simp
    from same_but_trans [OF t(2) this, of "{?bak, tmp}"] have "same_but {?bak, tmp} f f2" by simp
    from same_but_trans [OF this remove_staged_frame] have "same_but {?bak, tmp} f f'" using 4(3) t(1) by simp
    then show ?thesis using remove_staged_gone [of os tmp f2] 4(3) t(1) by simp
  qed
  moreover have "path \<noteq> ?bak" by (simp add: backupSuffix_def)
  ultimately show ?thesis using assms(4) by (auto simp: same_but_def)
qed

text \<open>Witness, with a check that fails.\<close>

theorem config_refused_witness:
  "isl (fst (one_Apply (ExecFailed ''bad'')))
   \<and> fmlookup (snd (one_Apply (ExecFailed ''bad''))) ''/c'' = Some (File ''x'' 420)
   \<and> fmlookup (snd (one_Apply (ExecFailed ''bad''))) ''/c.1.tmp'' = None"
proof -
  obtain err where a: "one_Apply (ExecFailed ''bad'') = (Inl err, snd (one_Apply (ExecFailed ''bad'')))"
    by (metis one_Apply_bad isl_def prod.collapse)
  have ok: "\<forall>p g. os_fails plain_os (OsRemove p) g = None \<and> os_fails plain_os (OsStat p) g = None"
    by (simp add: plain_os_def)
  from config_refused [OF a one_names(1) one_names(2) [symmetric] one_names(3,4)] ok one_names(7,8)
  show ?thesis using one_Apply_bad by metis
qed

text \<open>
  The agent restarts only into a configuration that is in place.  An update command changes
  the agent by its one reply; when it schedules the restart, the reply reports success, the
  request did not ask to skip it, and the file holds exactly the content of the request.
\<close>

theorem restart_means_written:
  assumes "handleUpdateConfig os yaml run nt m i req s = ((e', f'), True)"
    and "path = (if uc_Path req = '''' then primary m else uc_Path req)"
    and "staged_name os path (snd s) \<noteq> path" "staged_name os path (snd s) \<noteq> path @ backupSuffix"
  shows "\<not> uc_SkipReload req \<and> e' = replyCommand nt i True (written_message path False) (fst s)
    \<and> (\<exists>perm. fmlookup f' path = Some (File (uc_Config req) perm))"
proof -
  obtain msg where a: "Apply os yaml run m (uc_Path req) (uc_Config req) (uc_SkipReload req) (snd s) = (Inr (msg, True), f')"
    "e' = replyCommand nt i True msg (fst s)"
    using assms(1) by (auto simp: handleUpdateConfig_def split: sum.splits prod.splits)
  obtain t f1 f2 where s: "stage os path (uc_Config req) (snd s) = (Inr t, f1)" "commit os path t f1 = (None, f2)"
    "f' = remove_staged os t f2" using Apply_accepted(8) [OF a(1) assms(2)] by blast
  have t: "t = staged_name os path (snd s)" "fmlookup f1 t = Some (File (uc_Config req) (file_perm os path (snd s)))"
    using stage_result(2) [OF s(1)] by auto
  have "fmlookup f2 path = Some (File (uc_Config req) (file_perm os path (snd s)))"
    using commit_result(3) [OF s(2)] t assms(3,4) by simp
  then have "fmlookup f' path = Some (File (uc_Config req) (file_perm os path (snd s)))"
    using remove_staged_frame [of t f2 os] s(3) t(1) assms(3) by (simp add: same_but_def)
  moreover have "msg = written_message path (uc_SkipReload req)" "\<not> uc_SkipReload req"
    using a(1) assms(2)
    by (auto simp: Apply_def Let_def split: if_splits option.splits sum.splits prod.splits)
  ultimately show ?thesis using a(2) by auto
qed

text \<open>Witness, for the same update through its handler.\<close>

theorem restart_means_written_witness:
  "\<forall>e. \<exists>f'. handleUpdateConfig plain_os (\<lambda>c. None) (\<lambda>f exe args. ExecOk) (\<lambda>sent msg. True) one_file 7 one_update (e, one_fs)
        = ((replyCommand (\<lambda>sent msg. True) 7 True (written_message ''/c'' False) e, f'), True)
      \<and> (\<exists>perm. fmlookup f' ''/c'' = Some (File ''y'' perm))"
proof
  fix e :: edgeControllerExtension
  let ?h = "handleUpdateConfig plain_os (\<lambda>c. None) (\<lambda>f exe args. ExecOk) (\<lambda>sent msg. True) one_file 7 one_update (e, one_fs)"
  obtain f where "one_Apply ExecOk = (Inr (written_message ''/c'' False, True), f)"
    using one_Apply_ok by (metis prod.collapse)
  then have h: "?h = ((replyCommand (\<lambda>sent msg. True) 7 True (written_message ''/c'' False) e, f), True)"
    by (simp add: handleUpdateConfig_def one_update_def)
  have "''/c'' = (if uc_Path one_update = '''' then primary one_file else uc_Path one_update)"
    by (simp add: one_update_def one_file_def)
  from restart_means_written [OF h this] one_names(2-4)
  have "\<exists>perm. fmlookup f ''/c'' = Some (File (uc_Config one_update) perm)" unfolding snd_conv by metis
  then show "\<exists>f'. ?h = ((replyCommand (\<lambda>sent msg. True) 7 True (written_message ''/c'' False) e, f'), True)
      \<and> (\<exists>perm. fmlookup f' ''/c'' = Some (File ''y'' perm))"
    using h by (simp add: one_update_def)
qed

text \<open>
  C31: the validator sees the collector's own sources.  Every command line is a mixture of other
  arguments and of sources with one or two dashes, joined or separate, the last flag
  possibly without its value; on it the manager's sources are those of the flags, in order, and
  the dry run is \<open>validate\<close> followed by one \<open>--config\<close> flag per source, in order,
  where exactly the sources that name the file to be replaced point to the staged copy.
\<close>

theorem validated_sources:
  assumes "list_all plain_arg line" "tail = [] \<or> tail = [config_flag double]" "m = newConfigManager cfg exe (cli line @ tail)"
  shows "uris m = cli_sources line
    \<and> validate_args m path candidate = ''validate'' # cli (map (ConfigSource True False)
        (map (\<lambda>uri. if names_file path uri then ''file:'' @ candidate else uri) (cli_sources line)))
    \<and> (\<exists>line tail. args = cli line @ tail \<and> list_all plain_arg line \<and> (tail = [] \<or> (\<exists>double. tail = [config_flag double])))"
proof -
  have "uris m = cli_sources line"
    using assms(2) parse_source(3) by (auto simp: assms(3) newConfigManager_def Let_def parse_cli [OF assms(1)])
  moreover have "\<exists>line tail. args = cli line @ tail \<and> list_all plain_arg line \<and> (tail = [] \<or> (\<exists>double. tail = [config_flag double]))"
    using cli_complete [of args] by blast
  moreover have "validate_args m path candidate = ''validate'' # cli (map (ConfigSource True False)
      (map (\<lambda>uri. if names_file path uri then ''file:'' @ candidate else uri) (uris m)))"
    unfolding validate_args_def uriPath_names fileScheme_def by (simp add: cli_def comp_def config_flag_def)
  ultimately show ?thesis by simp
qed

definition agent_line :: "cli_arg list" where
  "agent_line = [ConfigSource True False ''/etc/agent.yaml'', OtherArg ''--feature-gates=-x'', ConfigSource False True ''leansignal:x'']"

text \<open>Witness of C31: an overlay, an unrelated flag and a source of another provider.\<close>

theorem validated_sources_witness:
  "cli agent_line = [''--config'', ''/etc/agent.yaml'', ''--feature-gates=-x'', ''-config=leansignal:x'']
   \<and> validate_args (newConfigManager createDefaultConfig None (cli agent_line)) ''/etc/agent.yaml'' ''/etc/tmp1''
     = [''validate'', ''--config'', ''file:/etc/tmp1'', ''--config'', ''leansignal:x'']"
proof -
  have "list_all plain_arg agent_line" by (simp add: agent_line_def config_flag_def)
  from validated_sources [OF this _ refl, of "[]" True createDefaultConfig None "''/etc/agent.yaml''" "''/etc/tmp1''"]
  have "validate_args (newConfigManager createDefaultConfig None (cli agent_line)) ''/etc/agent.yaml'' ''/etc/tmp1''
    = ''validate'' # cli (map (ConfigSource True False)
        (map (\<lambda>uri. if names_file ''/etc/agent.yaml'' uri then ''file:'' @ ''/etc/tmp1'' else uri) (cli_sources agent_line)))"
    by simp
  moreover have "cli_sources agent_line = [''/etc/agent.yaml'', ''leansignal:x'']"
    by (simp add: cli_sources_def agent_line_def)
  moreover have "names_file ''/etc/agent.yaml'' ''/etc/agent.yaml''" "\<not> names_file ''/etc/agent.yaml'' ''leansignal:x''"
    by (simp_all add: names_file_def)
  ultimately show ?thesis by (simp add: cli_def agent_line_def config_flag_def)
qed


end
