(* ===== verification/Agent_Steps.thy ===== *)
theory Agent_Steps
  imports Processor_Steps Batch_Feed Heartbeat_Steps Query_Handler Config_Manager
begin

text \<open>
  The life of the edge controller around its control stream: starting and shutting down, the
  connection loop with its reconnects, the receive loop, the heartbeat
  (\<open>src/components/edgecontroller/extension.go\<close>), and the extension's own metrics
  (\<open>telemetry.go\<close>).

  The goroutines are a step relation.  Its state adds to the correlated requests of
  \<open>Edge_Controller\<close> where the connection loop stands, whether the root context is cancelled,
  the registry of batch receivers (this extension is receiver 0) and the instruments.  A step is
  one action of one goroutine: a phase of \<open>connect\<close>, a received message (for a demand set one
  of its two critical sections, or the reply), a read or the send of a heartbeat, a
  batch of the tracker or one of its critical sections, a critical section of a timeseries processor, a
  finished query or configuration job, the shutdown.  The steps of other goroutines are enabled
  in every phase, because they may outlive the session that started them.

  The lemmas: what each kind of step leaves alone.
\<close>

section \<open>State\<close>

datatype phase = NotStarted | Idle | Connecting | Dialing | Announcing | Serving | Waiting | Stopped

text \<open>Where the receive loop is: in \<open>Recv\<close>, or in the middle of a demand set.\<close>

datatype receive_pc = Receiving | Routing "64 word" DemandSet | Replying "64 word"

record controllerMetrics =
  connectionAttempts :: nat
  connectionsEstablished :: nat
  m_reg :: bool

record agent =
  requests :: ctl
  metrics :: "controllerMetrics option"
  phase :: phase
  root_cancelled :: bool
  receivers :: "nat list"
  recv_at :: receive_pc
  pings :: "ping_pc list"
  procs :: "proc list"
  cancelled_upto :: nat
  feeds :: "feed list"

text \<open>\<open>feeds\<close> are the batches the pipelines handed over, \<open>pings\<close> the heartbeat
  goroutines and \<open>procs\<close> the timeseries processors, one of each per session so far; the contexts of
  the first \<open>cancelled_upto\<close> are cancelled.\<close>

abbreviation a_edge :: "agent \<Rightarrow> edgeControllerExtension" where
  "a_edge a \<equiv> edge (requests a)"

definition with_edge :: "agent \<Rightarrow> edgeControllerExtension \<Rightarrow> agent" where
  "with_edge a e = a\<lparr>requests := (requests a)\<lparr>edge := e\<rparr>\<rparr>"

definition new_agent :: agent where
  "new_agent = \<lparr>requests = ctl_init newEdgeControllerExtension, metrics = None, phase = NotStarted,
     root_cancelled = False, receivers = [], recv_at = Receiving, pings = [], procs = [], cancelled_upto = 0, feeds = []\<rparr>"

definition ctx_done :: "agent \<Rightarrow> nat \<Rightarrow> bool" where
  "ctx_done a p \<longleftrightarrow> root_cancelled a \<or> p < cancelled_upto a"

section \<open>Telemetry\<close>

definition counter_names :: "string list" where
  "counter_names = [''leansignal.edgecontroller.connection.attempts'', ''leansignal.edgecontroller.connection.established'']"

definition gauge_names :: "string list" where
  "gauge_names = [''leansignal.edgecontroller.known_timeseries_cache.size'',
     ''leansignal.edgecontroller.discovered_timeseries_cache.size'',
     ''leansignal.edgecontroller.demand_timeseries_cache.size'',
     ''leansignal.edgecontroller.pending_backend_updates'', ''leansignal.edgecontroller.connection.up'']"

text \<open>The meter may refuse an instrument (\<open>mk\<close> gives the error) or the callback
  (\<open>cb\<close>).\<close>

definition registerMetrics ::
    "(string \<Rightarrow> string option) \<Rightarrow> string option \<Rightarrow> agent \<Rightarrow> string option \<times> agent" where
  "registerMetrics mk cb a =
     (case List.find (\<lambda>n. mk n \<noteq> None) (counter_names @ gauge_names) of
        Some n \<Rightarrow> (mk n, a)
      | None \<Rightarrow>
          (case cb of
             Some err \<Rightarrow> (Some err, a)
           | None \<Rightarrow>
               (None, a\<lparr>metrics := Some \<lparr>connectionAttempts = 0, connectionsEstablished = 0, m_reg = True\<rparr>\<rparr>)))"

definition unregisterMetrics :: "agent \<Rightarrow> agent" where
  "unregisterMetrics a = a\<lparr>metrics := map_option (m_reg_update (\<lambda>_. False)) (metrics a)\<rparr>"

definition recordConnectionAttempt :: "agent \<Rightarrow> agent" where
  "recordConnectionAttempt a = a\<lparr>metrics := map_option (connectionAttempts_update Suc) (metrics a)\<rparr>"

definition recordConnectionEstablished :: "agent \<Rightarrow> agent" where
  "recordConnectionEstablished a = a\<lparr>metrics := map_option (connectionsEstablished_update Suc) (metrics a)\<rparr>"

definition connectedState :: "edgeControllerExtension \<Rightarrow> int" where
  "connectedState e = (if stream_up e then 1 else 0)"

text \<open>The callback of the gauges, in the order it observes them.\<close>

definition observe_gauges :: "int \<Rightarrow> HashKey list \<Rightarrow> edgeControllerExtension \<Rightarrow> (string \<times> int) list" where
  "observe_gauges now visit e = zip gauge_names
     [int (known_GetSize (knownTimeseriesCache e)), int (discovered_GetSize (discoveredTimeseriesCache e)),
      int (demand_GetSize (demandTimeseriesCache e)),
      int (GetPendingBackendUpdates now visit (knownTimeseriesCache e)), connectedState e]"

section \<open>Start and shutdown\<close>

text \<open>\<open>meters\<close> is the meter provider, if there is one.\<close>

definition ext_Start ::
    "((string \<Rightarrow> string option) \<times> string option) option \<Rightarrow> agent \<Rightarrow> string option \<times> agent" where
  "ext_Start meters a =
     (let a1 = with_edge (a\<lparr>receivers := RegisterTimeseriesReceiver (receivers a) 0\<rparr>) (edge_Start (a_edge a));
          (err, a2) = (case meters of None \<Rightarrow> (None, a1) | Some (mk, cb) \<Rightarrow> registerMetrics mk cb a1)
      in if err \<noteq> None then (err, a2) else (None, a2\<lparr>root_cancelled := False, phase := Idle\<rparr>))"

text \<open>\<open>Shutdown\<close> up to the wait for the goroutines.\<close>

definition ext_Shutdown :: "agent \<Rightarrow> agent" where
  "ext_Shutdown a =
     (let a1 = unregisterMetrics (a\<lparr>receivers := UnregisterTimeseriesReceiver (receivers a) 0\<rparr>)
      in if phase a1 = NotStarted then a1 else a1\<lparr>root_cancelled := True\<rparr>)"

section \<open>The connection\<close>

datatype transport_creds = InsecureCreds | TLSCreds nat

record dial_options =
  do_creds :: transport_creds
  do_keepalive_time :: int
  do_keepalive_timeout :: int
  do_without_stream :: bool
  do_max_recv :: nat
  do_max_send :: nat

text \<open>\<open>tls.VersionTLS12\<close> is 0x0303; durations are nanoseconds.\<close>

definition dialOptions :: "Config \<Rightarrow> dial_options" where
  "dialOptions cfg =
     \<lparr>do_creds = (if Insecure cfg then InsecureCreds else TLSCreds 0x0303),
      do_keepalive_time = PingInterval cfg, do_keepalive_timeout = 20 * 1000000000, do_without_stream = True,
      do_max_recv = maxMessageBytes, do_max_send = maxMessageBytes\<rparr>"

text \<open>The phases of \<open>connect\<close>.  A new stream has accepted no message yet; the session that
  announced itself starts a timeseries processor, and its end cancels the contexts.\<close>

definition connect_attempt :: "agent \<Rightarrow> agent" where
  "connect_attempt a = recordConnectionAttempt (a\<lparr>phase := Dialing\<rparr>)"

definition connect_open :: "agent \<Rightarrow> agent" where
  "connect_open a =
     recordConnectionEstablished
       (with_edge (a\<lparr>phase := Announcing\<rparr>) ((a_edge a)\<lparr>stream_up := True, outbox := []\<rparr>))"

definition connect_close :: "agent \<Rightarrow> agent" where
  "connect_close a =
     with_edge (a\<lparr>phase := Waiting, cancelled_upto := length (procs a)\<rparr>) ((a_edge a)\<lparr>stream_up := False\<rparr>)"

definition hello :: "edgeControllerExtension \<Rightarrow> AgentMessage" where
  "hello e = \<lparr>am_CorrelationId = 0, am_Body = AgentMessage_Hello (version e)\<rparr>"

text \<open>The goroutines of a session start at the head of their loops.\<close>

definition startPingLoop :: "agent \<Rightarrow> agent" where
  [simp]: "startPingLoop a = a\<lparr>pings := pings a @ [PingWait]\<rparr>"

definition startTimeseriesProcessor :: "agent \<Rightarrow> agent" where
  [simp]: "startTimeseriesProcessor a = a\<lparr>procs := procs a @ [LoopHead]\<rparr>"

definition connect_hello :: "(AgentMessage list \<Rightarrow> AgentMessage \<Rightarrow> bool) \<Rightarrow> agent \<Rightarrow> bool \<times> agent" where
  "connect_hello nt a =
     (case sendAgentMessage nt (hello (a_edge a)) (a_edge a) of
        (Some err, e) \<Rightarrow> (False, connect_close (with_edge a e))
      | (None, e) \<Rightarrow> (True, startTimeseriesProcessor (startPingLoop ((with_edge a e)\<lparr>phase := Serving\<rparr>))))"

text \<open>One turn of \<open>recvLoop\<close>.  A demand set takes three steps: the lists with the hash, the
  routes, the reply.\<close>

definition recv_message ::
    "(AgentMessage list \<Rightarrow> AgentMessage \<Rightarrow> bool) \<Rightarrow> int \<Rightarrow> ConfigSnapshot \<Rightarrow> ServerMessage \<Rightarrow> agent \<Rightarrow> agent" where
  "recv_message nt now snap msg a =
     (case sm_Body msg of
        ServerMessage_DemandSet ds \<Rightarrow>
          with_edge (a\<lparr>recv_at := Routing (sm_CorrelationId msg) ds\<rparr>) (apply_demands now ds (a_edge a))
      | _ \<Rightarrow> with_edge a (handleServerMessage nt now snap msg (a_edge a)))"

definition recv_routes :: "64 word \<Rightarrow> DemandSet \<Rightarrow> agent \<Rightarrow> agent" where
  "recv_routes i ds a = with_edge (a\<lparr>recv_at := Replying i\<rparr>) (apply_routes ds (a_edge a))"

definition recv_reply :: "(AgentMessage list \<Rightarrow> AgentMessage \<Rightarrow> bool) \<Rightarrow> 64 word \<Rightarrow> agent \<Rightarrow> agent" where
  "recv_reply nt i a =
     with_edge (a\<lparr>recv_at := Receiving\<rparr>) (replyCommand nt i True ''demand_set applied'' (a_edge a))"

text \<open>Without interruption the three steps are the handler.\<close>

lemma push_is_handle:
  assumes "sm_Body msg = ServerMessage_DemandSet ds" "recv_at a = Receiving"
  shows "recv_reply nt (sm_CorrelationId msg) (recv_routes (sm_CorrelationId msg) ds (recv_message nt now snap msg a))
    = with_edge a (handleServerMessage nt now snap msg (a_edge a))"
  using assms by (simp add: recv_message_def recv_routes_def recv_reply_def with_edge_def handleServerMessage_def)

section \<open>The agent as a step relation\<close>

datatype agent_event =
    LoopChecked
  | LoopStopped
  | AttemptMade
  | AttemptFailed
  | Opened
  | HelloSent
  | HelloFailed
  | Received ServerMessage
  | RoutesApplied DemandSet
  | PushReplied "64 word"
  | StreamEnded
  | Reconnecting
  | BatchIn TimeseriesBatch
  | Fed nat
  | Beat nat ping_event
  | Proc nat proc_event
  | QueryJobDone "64 word"
  | ConfigJobDone "64 word"
  | ShutdownCalled

inductive agent_step ::
    "Config \<Rightarrow> ('u, 'w) store_http \<Rightarrow> 're regexp_lib \<Rightarrow> agent \<Rightarrow> agent_event \<Rightarrow> agent \<Rightarrow> bool"
  for cfg hc lib where
  step_checked: "phase a = Idle \<Longrightarrow> \<not> root_cancelled a \<Longrightarrow>
    agent_step cfg hc lib a LoopChecked (a\<lparr>phase := Connecting\<rparr>)"
| step_stopped: "phase a \<in> {Idle, Waiting} \<Longrightarrow> root_cancelled a \<Longrightarrow>
    agent_step cfg hc lib a LoopStopped (a\<lparr>phase := Stopped\<rparr>)"
| step_attempt: "phase a = Connecting \<Longrightarrow> agent_step cfg hc lib a AttemptMade (connect_attempt a)"
| step_failed: "phase a = Dialing \<Longrightarrow> agent_step cfg hc lib a AttemptFailed (a\<lparr>phase := Waiting\<rparr>)"
| step_opened: "phase a = Dialing \<Longrightarrow> agent_step cfg hc lib a Opened (connect_open a)"
| step_hello: "phase a = Announcing \<Longrightarrow> connect_hello nt a = (True, a') \<Longrightarrow>
    agent_step cfg hc lib a HelloSent a'"
| step_hello_failed: "phase a = Announcing \<Longrightarrow> connect_hello nt a = (False, a') \<Longrightarrow>
    agent_step cfg hc lib a HelloFailed a'"
| step_received: "phase a = Serving \<Longrightarrow> recv_at a = Receiving \<Longrightarrow>
    agent_step cfg hc lib a (Received msg) (recv_message nt now snap msg a)"
| step_routes: "recv_at a = Routing i ds \<Longrightarrow> agent_step cfg hc lib a (RoutesApplied ds) (recv_routes i ds a)"
| step_replied: "recv_at a = Replying i \<Longrightarrow> agent_step cfg hc lib a (PushReplied i) (recv_reply nt i a)"
| step_ended: "phase a = Serving \<Longrightarrow> recv_at a = Receiving \<Longrightarrow> agent_step cfg hc lib a StreamEnded (connect_close a)"
| step_reconnect: "phase a = Waiting \<Longrightarrow> agent_step cfg hc lib a Reconnecting (a\<lparr>phase := Idle\<rparr>)"
| step_batch: "0 \<in> set (receivers a) \<Longrightarrow> feed_of batch ps \<Longrightarrow>
    agent_step cfg hc lib a (BatchIn batch) (a\<lparr>feeds := feeds a @ [(ps, Looking)]\<rparr>)"
| step_feed: "i < length (feeds a) \<Longrightarrow> feed_step (a_edge a) (feeds a ! i) e' f' \<Longrightarrow>
    agent_step cfg hc lib a (Fed i) (with_edge (a\<lparr>feeds := (feeds a)[i := f']\<rparr>) e')"
| step_beat: "p < length (pings a) \<Longrightarrow> ping_step lib (ctx_done a p) (a_edge a) (pings a ! p) ev e' pc' \<Longrightarrow>
    agent_step cfg hc lib a (Beat p ev) (with_edge (a\<lparr>pings := (pings a)[p := pc']\<rparr>) e')"
| step_proc: "p < length (procs a) \<Longrightarrow> proc_step (ctx_done a p) (requests a) (procs a ! p) ev c' pc' \<Longrightarrow>
    agent_step cfg hc lib a (Proc p ev) (a\<lparr>requests := c', procs := (procs a)[p := pc']\<rparr>)"
| step_query: "QueryJob i req \<in> set (jobs (a_edge a)) \<Longrightarrow>
    handleQueryRequest u cfg hc nt n i req ((a_edge a)\<lparr>jobs := remove1 (QueryJob i req) (jobs (a_edge a))\<rparr>, w)
      = ((e', w'), reqs) \<Longrightarrow>
    agent_step cfg hc lib a (QueryJobDone i) (with_edge a e')"
| step_config: "UpdateConfigJob i req \<in> set (jobs (a_edge a)) \<Longrightarrow>
    handleUpdateConfig os yaml run nt m i req
      ((a_edge a)\<lparr>jobs := remove1 (UpdateConfigJob i req) (jobs (a_edge a))\<rparr>, f) = ((e', f'), restart) \<Longrightarrow>
    agent_step cfg hc lib a (ConfigJobDone i) (with_edge a e')"
| step_shutdown: "agent_step cfg hc lib a ShutdownCalled (ext_Shutdown a)"

inductive agent_run ::
    "Config \<Rightarrow> ('u, 'w) store_http \<Rightarrow> 're regexp_lib \<Rightarrow> agent_event list \<Rightarrow> agent \<Rightarrow> bool"
  for cfg hc lib where
  run_start: "ext_Start meters new_agent = (None, a) \<Longrightarrow> agent_run cfg hc lib [] a"
| run_more: "agent_run cfg hc lib es a \<Longrightarrow> agent_step cfg hc lib a ev a' \<Longrightarrow>
    agent_run cfg hc lib (es @ [ev]) a'"

inductive_cases agent_stepE: "agent_step cfg hc lib a ev a'"

lemma agent_run_snoc:
  "agent_run cfg hc lib (es @ [ev]) a' \<Longrightarrow> \<exists>a. agent_run cfg hc lib es a \<and> agent_step cfg hc lib a ev a'"
  by (erule agent_run.cases) auto

lemma agent_run_split:
  "agent_run cfg hc lib (es1 @ ev # es2) a \<Longrightarrow> \<exists>b a'. agent_run cfg hc lib es1 b \<and> agent_step cfg hc lib b ev a'"
proof (induction es2 arbitrary: a rule: rev_induct)
  case Nil
  then show ?case using agent_run_snoc by blast
next
  case (snoc x xs)
  have "agent_run cfg hc lib ((es1 @ ev # xs) @ [x]) a" using snoc.prems by simp
  then show ?case using agent_run_snoc snoc.IH by blast
qed

section \<open>What the steps leave alone\<close>

text \<open>Every action apart from the connection's own phases keeps the stream and only appends to
  what it accepted; every action apart from a demand push keeps the demand too.\<close>

definition same_stream :: "edgeControllerExtension \<Rightarrow> edgeControllerExtension \<Rightarrow> bool" where
  "same_stream e e' \<longleftrightarrow> stream_up e' = stream_up e \<and> version e' = version e \<and> (\<exists>ms. outbox e' = outbox e @ ms)"

definition quiet :: "edgeControllerExtension \<Rightarrow> edgeControllerExtension \<Rightarrow> bool" where
  "quiet e e' \<longleftrightarrow> demandTimeseriesCache e' = demandTimeseriesCache e \<and> same_stream e e'"

lemma quiet_refl [simp]: "quiet e e"
  by (simp add: quiet_def same_stream_def)

lemma quiet_trans: "quiet e e1 \<Longrightarrow> quiet e1 e2 \<Longrightarrow> quiet e e2"
  by (auto simp: quiet_def same_stream_def)

lemma apply_same_stream [simp]: "same_stream e (apply_demands now ds e)" "same_stream e (apply_routes ds e)"
  by (simp_all add: same_stream_def)

lemma quiet_fields [simp]:
  "quiet e (e'\<lparr>pending := p\<rparr>) = quiet e e'" "quiet e (e'\<lparr>chans := c\<rparr>) = quiet e e'"
  "quiet e (e'\<lparr>corrSeq := i\<rparr>) = quiet e e'" "quiet e (e'\<lparr>next_chan := n\<rparr>) = quiet e e'"
  "quiet e (e'\<lparr>jobs := js\<rparr>) = quiet e e'" "quiet e (e'\<lparr>knownTimeseriesCache := k\<rparr>) = quiet e e'"
  "quiet e (e'\<lparr>discoveredTimeseriesCache := d\<rparr>) = quiet e e'" "quiet (e\<lparr>jobs := js\<rparr>) e' = quiet e e'"
  "quiet (e\<lparr>knownTimeseriesCache := k\<rparr>) e' = quiet e e'"
  "quiet (e\<lparr>discoveredTimeseriesCache := d\<rparr>) e' = quiet e e'"
  "quiet (e\<lparr>pending := p\<rparr>) e' = quiet e e'" "quiet (e\<lparr>corrSeq := i\<rparr>) e' = quiet e e'"
  "quiet (e\<lparr>next_chan := n\<rparr>) e' = quiet e e'"
  by (simp_all add: quiet_def same_stream_def)

lemma quiet_send: "sendAgentMessage nt msg e = (r, e') \<Longrightarrow> quiet e e'"
  by (auto simp: sendAgentMessage_def quiet_def same_stream_def split: if_splits)

lemma quiet_replies [simp]:
  "quiet e (replyCommand nt i b s e)" "quiet e (sendConfigSnapshot nt snap i e)" "quiet e (sendQueryResponse nt i resp e)"
  by (simp_all add: replyCommand_def sendConfigSnapshot_def sendQueryResponse_def quiet_send [OF prod.collapse [symmetric]])

lemma quiet_ping: "ping_step lib done e pc ev e' pc' \<Longrightarrow> quiet e e'"
  by (auto dest!: ping_step_send dest: quiet_send)

lemma quiet_feed: "feed_step e f e' f' \<Longrightarrow> quiet e e'"
  by (erule feed_stepE) simp_all

lemma quiet_server:
  assumes "\<forall>ds. sm_Body msg \<noteq> ServerMessage_DemandSet ds"
  shows "quiet e (handleServerMessage nt now snap msg e)"
  using assms by (simp add: handleServerMessage_def resolvePending_def split: ServerMessage_Body.split option.split)

lemma quiet_ack_send: "ack_send nt i body e = (r, e') \<Longrightarrow> quiet e e'"
  using quiet_send by (fastforce simp: ack_send_def split: prod.splits option.splits)

lemma quiet_request: "ctl_step c ev c' \<Longrightarrow> ev \<noteq> Elsewhere \<Longrightarrow> \<not> (\<exists>m. ev = ServerIn m) \<Longrightarrow> quiet (edge c) (edge c')"
  by (auto elim!: ctl_stepE dest: quiet_ack_send simp: nextCorrID_def ack_register_def Let_def ack_receive_def ack_timeout_def split: list.splits)

lemma quiet_proc: "proc_step done c pc ev c' pc' \<Longrightarrow> quiet (edge c) (edge c')"
  by (erule proc_stepE) (auto simp: set_known_def set_discovered_def intro: quiet_request)

text \<open>A finished job is a reply.\<close>

lemma query_replies:
  "handleQueryRequest u cfg hc nt n i req (e, w) = ((e', w'), reqs) \<Longrightarrow> \<exists>resp. e' = sendQueryResponse nt i resp e"
  by (auto simp: handleQueryRequest_eq Let_def split: if_splits prod.splits)

lemma config_replies:
  "handleUpdateConfig os yaml run nt m i req (e, f) = ((e', f'), restart) \<Longrightarrow> \<exists>b s. e' = replyCommand nt i b s e"
  by (auto simp: handleUpdateConfig_def split: sum.splits prod.splits)

text \<open>The connection's own events.\<close>

definition own_event :: "agent_event \<Rightarrow> bool" where
  "own_event ev \<longleftrightarrow> ev \<in> {LoopChecked, LoopStopped, AttemptMade, AttemptFailed, Opened, HelloSent, HelloFailed,
     StreamEnded, Reconnecting, ShutdownCalled}"

definition pushed :: "agent_event \<Rightarrow> DemandSet option" where
  "pushed ev = (case ev of
       Received msg \<Rightarrow> (case sm_Body msg of ServerMessage_DemandSet ds \<Rightarrow> Some ds | _ \<Rightarrow> None)
     | _ \<Rightarrow> None)"

lemma with_edge_fields [simp]:
  "a_edge (with_edge a e) = e" "phase (with_edge a e) = phase a" "metrics (with_edge a e) = metrics a"
  "root_cancelled (with_edge a e) = root_cancelled a" "receivers (with_edge a e) = receivers a"
  "recv_at (with_edge a e) = recv_at a" "pings (with_edge a e) = pings a" "procs (with_edge a e) = procs a"
  by (simp_all add: with_edge_def)

definition routes_applied :: "agent_event \<Rightarrow> DemandSet option" where
  "routes_applied ev = (case ev of RoutesApplied ds \<Rightarrow> Some ds | _ \<Rightarrow> None)"

lemma recv_fields [simp]:
  "phase (recv_message nt now snap msg a) = phase a" "metrics (recv_message nt now snap msg a) = metrics a"
  "root_cancelled (recv_message nt now snap msg a) = root_cancelled a" "phase (recv_routes i ds a) = phase a"
  "metrics (recv_routes i ds a) = metrics a" "root_cancelled (recv_routes i ds a) = root_cancelled a"
  "phase (recv_reply nt i a) = phase a" "metrics (recv_reply nt i a) = metrics a"
  "root_cancelled (recv_reply nt i a) = root_cancelled a"
  by (simp_all add: recv_message_def recv_routes_def recv_reply_def split: ServerMessage_Body.split)

lemmas connect_defs = connect_attempt_def connect_open_def connect_close_def recordConnectionAttempt_def
  recordConnectionEstablished_def ext_Shutdown_def unregisterMetrics_def Let_def

text \<open>The greeting: both outcomes.\<close>

lemma hello_effect:
  assumes "connect_hello nt a = (ok, a')"
  shows "phase a' = (if ok then Serving else Waiting)" "pings a' = (if ok then pings a @ [PingWait] else pings a)"
    "procs a' = (if ok then procs a @ [LoopHead] else procs a)" "recv_at a' = recv_at a" "feeds a' = feeds a"
    "metrics a' = metrics a" "root_cancelled a' = root_cancelled a"
    "demandTimeseriesCache (a_edge a') = demandTimeseriesCache (a_edge a)"
    "knownTimeseriesCache (a_edge a') = knownTimeseriesCache (a_edge a)"
    "discoveredTimeseriesCache (a_edge a') = discoveredTimeseriesCache (a_edge a)"
    "stream_up (a_edge a') = (ok \<and> stream_up (a_edge a))"
  using assms by (auto simp: connect_hello_def connect_close_def sendAgentMessage_def with_edge_def split: if_splits)

text \<open>A step of another goroutine.\<close>

lemma other_step:
  assumes "agent_step cfg hc lib a ev a'" "\<not> own_event ev"
  shows "phase a' = phase a" "metrics a' = metrics a" "root_cancelled a' = root_cancelled a"
    and "pushed ev = None \<Longrightarrow> routes_applied ev = None \<Longrightarrow> quiet (a_edge a) (a_edge a')"
    and "same_stream (a_edge a) (a_edge a')"
proof -
  from assms show "phase a' = phase a" "metrics a' = metrics a" "root_cancelled a' = root_cancelled a"
    by (cases, auto simp: own_event_def)+
  have q: "quiet (a_edge a) (a_edge a') \<or> (pushed ev \<noteq> None \<or> routes_applied ev \<noteq> None) \<and> same_stream (a_edge a) (a_edge a')"
    using assms(1)
  proof cases
    case (step_received msg nt now snap)
    show ?thesis
    proof (cases "\<exists>ds. sm_Body msg = ServerMessage_DemandSet ds")
      case True
      then show ?thesis using step_received by (auto simp: pushed_def recv_message_def)
    next
      case False
      then have "a' = with_edge a (handleServerMessage nt now snap msg (a_edge a))"
        using step_received by (auto simp: recv_message_def split: ServerMessage_Body.split)
      then show ?thesis using quiet_server False by simp
    qed
  next
    case (step_routes i ds)
    then show ?thesis by (simp add: routes_applied_def recv_routes_def)
  next
    case (step_replied i nt)
    then show ?thesis by (simp add: recv_reply_def)
  next
    case (step_feed i e' f')
    then show ?thesis using quiet_feed by simp
  next
    case (step_beat p be e' pc')
    then show ?thesis using quiet_ping [OF step_beat(4)] by simp
  next
    case (step_proc p ev c' pc')
    then show ?thesis using quiet_proc by auto
  next
    case (step_query i req u nt n w e' w' reqs)
    from query_replies [OF step_query(4)]
    have "quiet ((a_edge a)\<lparr>jobs := remove1 (QueryJob i req) (jobs (a_edge a))\<rparr>) e'" by (metis quiet_replies(3))
    then show ?thesis using step_query by simp
  next
    case (step_config i req os yaml run nt m f e' f' restart)
    from config_replies [OF step_config(4)]
    have "quiet ((a_edge a)\<lparr>jobs := remove1 (UpdateConfigJob i req) (jobs (a_edge a))\<rparr>) e'" by (metis quiet_replies(1))
    then show ?thesis using step_config by simp
  qed (use assms(2) in \<open>auto simp: own_event_def\<close>)
  then show "same_stream (a_edge a) (a_edge a')" by (auto simp: quiet_def)
  show "quiet (a_edge a) (a_edge a')" if "pushed ev = None" "routes_applied ev = None" using q that by simp
qed

lemma pushed_step:
  assumes "agent_step cfg hc lib a ev a'" "pushed ev = Some ds"
  obtains now i where "a' = with_edge (a\<lparr>recv_at := Routing i ds\<rparr>) (apply_demands now ds (a_edge a))" "recv_at a = Receiving"
proof -
  obtain msg where ev: "ev = Received msg" "sm_Body msg = ServerMessage_DemandSet ds"
    using assms(2) by (auto simp: pushed_def split: agent_event.splits ServerMessage_Body.splits)
  with assms(1) show ?thesis by (auto elim!: agent_stepE simp: recv_message_def intro: that)
qed

lemma routes_step:
  assumes "agent_step cfg hc lib a ev a'" "routes_applied ev = Some ds"
  obtains i where "a' = with_edge (a\<lparr>recv_at := Replying i\<rparr>) (apply_routes ds (a_edge a))" "recv_at a = Routing i ds"
proof -
  have "ev = RoutesApplied ds" using assms(2) by (auto simp: routes_applied_def split: agent_event.splits)
  with assms(1) show ?thesis by (auto elim!: agent_stepE simp: recv_routes_def intro: that)
qed

end
