(* ===== verification/Agent_Runs.thy ===== *)
theory Agent_Runs
  imports Agent_Steps
begin

text \<open>
  Invariants of the runs of the agent, each by rule induction over \<open>agent_run\<close>: the demand in
  force, what the heartbeats under way carry, the connection with its counters, sessions and
  shutdown; and that every run of the agent is a run of the correlated requests.
\<close>

section \<open>The demand in force\<close>

fun latest :: "(agent_event \<Rightarrow> DemandSet option) \<Rightarrow> DemandSet option \<Rightarrow> agent_event list \<Rightarrow> DemandSet option" where
  "latest f d [] = d"
| "latest f d (ev # es) = latest f (case f ev of None \<Rightarrow> d | Some ds \<Rightarrow> Some ds) es"

lemma latest_snoc: "latest f d (es @ [ev]) = (case f ev of None \<Rightarrow> latest f d es | Some ds \<Rightarrow> Some ds)"
  by (induction es arbitrary: d) (simp_all split: option.split)

text \<open>The last demand set received, and the last one whose routes were applied too.\<close>

abbreviation last_demand :: "DemandSet option \<Rightarrow> agent_event list \<Rightarrow> DemandSet option" where
  "last_demand \<equiv> latest pushed"

abbreviation last_routes :: "DemandSet option \<Rightarrow> agent_event list \<Rightarrow> DemandSet option" where
  "last_routes \<equiv> latest routes_applied"

definition wanted :: "(DemandSet \<Rightarrow> 'b list) \<Rightarrow> DemandSet option \<Rightarrow> 'b list" where
  "wanted f d = (case d of None \<Rightarrow> [] | Some ds \<Rightarrow> f ds)"

lemma wanted_simps [simp]: "wanted f None = []" "wanted f (Some ds) = f ds"
  by (simp_all add: wanted_def)

definition lists_in_force :: "DemandSet option \<Rightarrow> DemandTimeseriesSnapshot \<Rightarrow> bool" where
  "lists_in_force d s \<longleftrightarrow>
     Timeseries s = wanted set_Metrics d \<and> LogSelectors s = wanted set_LogSelectors d
     \<and> TraceSelectors s = wanted set_TraceSelectors d \<and> MetricSelectors s = wanted set_MetricSelectors d
     \<and> DemandHash s = (case d of None \<Rightarrow> 0 | Some ds \<Rightarrow> set_Hash ds)"

definition routes_in_force :: "DemandSet option \<Rightarrow> DemandTimeseriesSnapshot \<Rightarrow> bool" where
  "routes_in_force d s \<longleftrightarrow> TraceRoutes s = wanted (\<lambda>ds. traceRoutesFromProto (set_TraceDemands ds)) d"

text \<open>No push is half applied.\<close>

definition push_settled :: "agent \<Rightarrow> bool" where
  "push_settled a \<longleftrightarrow> (\<forall>i ds. recv_at a \<noteq> Routing i ds)"

definition push_inv :: "agent_event list \<Rightarrow> agent \<Rightarrow> bool" where
  "push_inv es a \<longleftrightarrow>
     lists_in_force (last_demand None es) (demand_GetDemands (demandTimeseriesCache (a_edge a)))
     \<and> routes_in_force (last_routes None es) (demand_GetDemands (demandTimeseriesCache (a_edge a)))
     \<and> (push_settled a \<longrightarrow> last_routes None es = last_demand None es)
     \<and> (\<forall>i ds. recv_at a = Routing i ds \<longrightarrow> last_demand None es = Some ds)"

lemma own_step_demand:
  assumes "agent_step cfg hc lib a ev a'" "own_event ev"
  shows "demandTimeseriesCache (a_edge a') = demandTimeseriesCache (a_edge a)"
  using assms(1)
proof cases
  case (step_hello nt)
  then show ?thesis using hello_effect [OF step_hello(3)] by simp
next
  case (step_hello_failed nt)
  then show ?thesis using hello_effect [OF step_hello_failed(3)] by simp
qed (use assms(2) in \<open>auto simp: own_event_def connect_defs\<close>)

lemma start_fields:
  assumes "ext_Start meters new_agent = (None, a)"
  shows "a_edge a = edge_Start newEdgeControllerExtension" "phase a = Idle" "root_cancelled a = False" "receivers a = [0]" "recv_at a = Receiving"
    and "metrics a = Some m \<Longrightarrow> connectionAttempts m = 0 \<and> connectionsEstablished m = 0"
proof -
  have "(\<exists>x. a = (with_edge (new_agent\<lparr>receivers := [0], metrics := x\<rparr>) (edge_Start newEdgeControllerExtension))
      \<lparr>root_cancelled := False, phase := Idle\<rparr> \<and> (\<forall>m. x = Some m \<longrightarrow> connectionAttempts m = 0 \<and> connectionsEstablished m = 0))"
    using assms
    by (auto simp: ext_Start_def Let_def registerMetrics_def new_agent_def with_edge_def RegisterTimeseriesReceiver_def
        split: option.splits prod.splits if_splits)
  then show "a_edge a = edge_Start newEdgeControllerExtension" "phase a = Idle" "root_cancelled a = False" "receivers a = [0]" "recv_at a = Receiving"
    "metrics a = Some m \<Longrightarrow> connectionAttempts m = 0 \<and> connectionsEstablished m = 0"
    by (auto simp: new_agent_def)
qed

lemma start_requests:
  assumes "ext_Start meters new_agent = (None, a)"
  shows "requests a = ctl_init (edge_Start newEdgeControllerExtension)"
  using assms
  by (auto simp: ext_Start_def Let_def registerMetrics_def new_agent_def with_edge_def split: option.splits prod.splits if_splits)

lemma recv_at_step:
  assumes "agent_step cfg hc lib a ev a'" "pushed ev = None" "routes_applied ev = None"
  shows "recv_at a' = recv_at a \<or> (\<exists>i. recv_at a = Replying i \<and> recv_at a' = Receiving)"
  using assms(1)
proof cases
  case (step_received msg nt now snap)
  then show ?thesis using assms(2) by (auto simp: pushed_def recv_message_def with_edge_def split: ServerMessage_Body.split)
next
  case (step_routes i ds)
  then show ?thesis using assms(3) by (simp add: routes_applied_def)
next
  case (step_hello nt)
  then show ?thesis using hello_effect [OF step_hello(3)] by simp
next
  case (step_hello_failed nt)
  then show ?thesis using hello_effect [OF step_hello_failed(3)] by simp
qed (auto simp: connect_defs recv_reply_def with_edge_def)

lemma push_inv_step:
  assumes inv: "push_inv es a" and step: "agent_step cfg hc lib a ev a'"
  shows "push_inv (es @ [ev]) a'"
proof (cases "pushed ev")
  case (Some ds)
  then have "routes_applied ev = None" by (auto simp: pushed_def routes_applied_def split: agent_event.splits)
  moreover from pushed_step [OF step Some] obtain now i where
    "a' = with_edge (a\<lparr>recv_at := Routing i ds\<rparr>) (apply_demands now ds (a_edge a))" .
  ultimately show ?thesis using inv Some
    by (simp add: push_inv_def latest_snoc lists_in_force_def routes_in_force_def push_settled_def apply_demands_def
        demand_GetDemands_def UpdateDemands_def)
next
  case None
  show ?thesis
  proof (cases "routes_applied ev")
    case (Some ds)
    from routes_step [OF step Some] obtain i where
      "a' = with_edge (a\<lparr>recv_at := Replying i\<rparr>) (apply_routes ds (a_edge a))" "recv_at a = Routing i ds" .
    moreover from this have "last_demand None es = Some ds" using inv by (simp add: push_inv_def)
    ultimately show ?thesis using inv Some None
      by (simp add: push_inv_def latest_snoc lists_in_force_def routes_in_force_def push_settled_def apply_routes_def
          demand_GetDemands_def UpdateTraceRoutes_def)
  next
    case no_routes: None
    have d: "demandTimeseriesCache (a_edge a') = demandTimeseriesCache (a_edge a)"
      using own_step_demand [OF step] other_step(4) [OF step _ None no_routes] by (auto simp: quiet_def)
    from recv_at_step [OF step None no_routes] show ?thesis
    proof (elim disjE exE conjE)
      assume "recv_at a' = recv_at a"
      then show ?thesis using inv by (simp add: push_inv_def push_settled_def latest_snoc None no_routes d)
    next
      fix i assume "recv_at a = Replying i" "recv_at a' = Receiving"
      then show ?thesis using inv by (auto simp: push_inv_def push_settled_def latest_snoc None no_routes d)
    qed
  qed
qed

lemma run_push_inv: "agent_run cfg hc lib es a \<Longrightarrow> push_inv es a"
proof (induction rule: agent_run.induct)
  case (run_start meters a)
  then show ?case using start_fields [OF run_start]
    by (simp add: push_inv_def lists_in_force_def routes_in_force_def edge_Start_def newEdgeControllerExtension_def
        NewDemandTimeseriesCache_def demand_GetDemands_def demand_Init_def)
qed (rule push_inv_step)

section \<open>Heartbeats\<close>

text \<open>What a heartbeat says of a demand: its hash and the number of its names.\<close>

definition echo :: "DemandSet option \<Rightarrow> 64 word \<times> 32 word" where
  "echo d = (case d of None \<Rightarrow> (0, 0) | Some ds \<Rightarrow> (set_Hash ds, of_nat (length (set_Metrics ds))))"

text \<open>The last tick of goroutine \<open>p\<close> began when the last demand set received was the one
  \<open>c\<close> echoes.\<close>

definition ticked :: "agent_event list \<Rightarrow> nat \<Rightarrow> 64 word \<times> 32 word \<Rightarrow> bool" where
  "ticked es p c \<longleftrightarrow> (\<exists>es1 es2. es = es1 @ Beat p BeatBegun # es2 \<and> Beat p BeatBegun \<notin> set es2
     \<and> c = echo (last_demand None es1))"

lemma ticked_now: "c = echo (last_demand None es) \<Longrightarrow> ticked (es @ [Beat p BeatBegun]) p c"
  unfolding ticked_def by (intro exI [of _ es] exI [of _ "[]"]) simp

lemma ticked_later: "ticked es p c \<Longrightarrow> ev \<noteq> Beat p BeatBegun \<Longrightarrow> ticked (es @ [ev]) p c"
proof -
  assume "ticked es p c" and ev: "ev \<noteq> Beat p BeatBegun"
  then obtain es1 es2 where "es = es1 @ Beat p BeatBegun # es2" "Beat p BeatBegun \<notin> set es2" "c = echo (last_demand None es1)"
    by (auto simp: ticked_def)
  with ev show ?thesis unfolding ticked_def by (intro exI [of _ es1] exI [of _ "es2 @ [ev]"]) simp
qed

lemma push_echo:
  assumes "push_inv es a"
  shows "(DemandHash (demand_GetDemands (demandTimeseriesCache (a_edge a))),
      of_nat (length (Timeseries (demand_GetDemands (demandTimeseriesCache (a_edge a)))))) = echo (last_demand None es)"
  using assms by (auto simp: push_inv_def lists_in_force_def echo_def split: option.splits)

definition beat_inv :: "agent_event list \<Rightarrow> agent \<Rightarrow> bool" where
  "beat_inv es a \<longleftrightarrow> (\<forall>p < length (pings a). \<forall>c. carried (pings a ! p) = Some c \<longrightarrow> ticked es p c)"

lemma other_step_pings:
  assumes "agent_step cfg hc lib a ev a'" "\<And>p be. ev \<noteq> Beat p be"
  shows "pings a' = pings a \<or> pings a' = pings a @ [PingWait]"
  using assms(1)
proof cases
  case (step_hello nt)
  then show ?thesis using hello_effect [OF step_hello(3)] by simp
next
  case (step_hello_failed nt)
  then show ?thesis using hello_effect [OF step_hello_failed(3)] by simp
qed (use assms(2) in \<open>auto simp: connect_defs recv_message_def recv_routes_def recv_reply_def with_edge_def
    split: ServerMessage_Body.split\<close>)

lemma beat_inv_step:
  assumes inv: "beat_inv es a" and push: "push_inv es a" and step: "agent_step cfg hc lib a ev a'"
  shows "beat_inv (es @ [ev]) a'"
proof (cases "\<exists>p be. ev = Beat p be")
  case False
  then show ?thesis using inv other_step_pings [OF step] ticked_later
    by (auto simp: beat_inv_def nth_append less_Suc_eq)
next
  case True
  then obtain p be where ev: "ev = Beat p be" by blast
  from step obtain e' pc' where s: "p < length (pings a)" "ping_step lib (ctx_done a p) (a_edge a) (pings a ! p) be e' pc'"
    "pings a' = (pings a)[p := pc']" unfolding ev by cases (auto simp: with_edge_def)
  note c = carried_step [OF s(2)]
  have "ticked (es @ [ev]) q x" if q: "q < length (pings a)" "carried ((pings a)[p := pc'] ! q) = Some x" for q x
  proof (cases "q = p")
    case False
    then have "ticked es q x" using inv q unfolding beat_inv_def by (metis nth_list_update_neq)
    then show ?thesis using False ticked_later by (simp add: ev)
  next
    case True
    show ?thesis
    proof (cases "be = BeatBegun")
      case True
      then have "x = echo (last_demand None es)" using \<open>q = p\<close> c q push_echo [OF push] by simp
      then show ?thesis using True \<open>q = p\<close> ticked_now by (simp add: ev)
    next
      case False
      then have "carried (pings a ! p) = Some x" using \<open>q = p\<close> c q by auto
      then have "ticked es p x" using inv s(1) unfolding beat_inv_def by blast
      then show ?thesis using False \<open>q = p\<close> ticked_later by (simp add: ev)
    qed
  qed
  then show ?thesis by (simp add: beat_inv_def s(3))
qed

lemma run_beat_inv: "agent_run cfg hc lib es a \<Longrightarrow> beat_inv es a"
proof (induction rule: agent_run.induct)
  case (run_start meters a)
  have "pings a = []"
    using run_start by (auto simp: ext_Start_def Let_def registerMetrics_def new_agent_def with_edge_def split: option.splits prod.splits if_splits)
  then show ?case by (simp add: beat_inv_def)
next
  case (run_more es a ev a')
  then show ?case using beat_inv_step run_push_inv by blast
qed

section \<open>Connections\<close>

definition connected :: "agent \<Rightarrow> bool" where
  "connected a \<longleftrightarrow> phase a \<in> {Announcing, Serving}"

definition counted :: "agent_event list \<Rightarrow> agent \<Rightarrow> bool" where
  "counted es a \<longleftrightarrow> (\<forall>m. metrics a = Some m \<longrightarrow>
       connectionAttempts m = count_list es AttemptMade \<and> connectionsEstablished m = count_list es Opened)"

text \<open>What a run keeps of the connection: the stream is set exactly in a session, the counters
  count, every opened stream was an attempt, and a served stream was greeted.\<close>

definition conn_inv :: "agent_event list \<Rightarrow> agent \<Rightarrow> bool" where
  "conn_inv es a \<longleftrightarrow> phase a \<noteq> NotStarted \<and> (stream_up (a_edge a) \<longleftrightarrow> connected a) \<and> counted es a
     \<and> count_list es Opened + (if phase a = Dialing then 1 else 0) \<le> count_list es AttemptMade
     \<and> (phase a = Serving \<longrightarrow> hello (a_edge a) \<in> set (outbox (a_edge a)))"

lemma hello_accepted:
  assumes "connect_hello nt a = (True, a')" "stream_up (a_edge a)"
  shows "phase a' = Serving" "metrics a' = metrics a" "stream_up (a_edge a')" "hello (a_edge a') \<in> set (outbox (a_edge a'))"
  using assms by (auto simp: connect_hello_def sendAgentMessage_def hello_def with_edge_def split: if_splits)

lemma count_list_snoc: "count_list (es @ [ev]) x = count_list es x + (if ev = x then 1 else 0)"
  by (induction es) auto

lemma conn_inv_step:
  assumes "conn_inv es a" "agent_step cfg hc lib a ev a'"
  shows "conn_inv (es @ [ev]) a'"
proof (cases "own_event ev")
  case False
  then have n: "count_list (es @ [ev]) AttemptMade = count_list es AttemptMade" "count_list (es @ [ev]) Opened = count_list es Opened"
    by (auto simp: own_event_def count_list_snoc)
  note o = other_step(1-3) [OF assms(2) False]
  have "same_stream (a_edge a) (a_edge a')" by (rule other_step(5) [OF assms(2) False])
  then obtain ms where f: "stream_up (a_edge a') = stream_up (a_edge a)" "version (a_edge a') = version (a_edge a)"
    "outbox (a_edge a') = outbox (a_edge a) @ ms" by (auto simp: same_stream_def)
  show ?thesis using assms(1) unfolding conn_inv_def connected_def counted_def hello_def n o f by simp
next
  case True
  from assms(2) show ?thesis
  proof cases
    case (step_hello nt)
    then show ?thesis using assms(1) hello_accepted [OF step_hello(3)]
      by (auto simp: conn_inv_def connected_def counted_def count_list_snoc)
  next
    case (step_hello_failed nt)
    then show ?thesis using assms(1) hello_effect [OF step_hello_failed(3)]
      by (auto simp: conn_inv_def connected_def counted_def count_list_snoc)
  qed (use assms(1) True in \<open>auto simp: conn_inv_def own_event_def connected_def counted_def count_list_snoc connect_defs
      split: if_splits\<close>)
qed

lemma run_conn_inv: "agent_run cfg hc lib es a \<Longrightarrow> conn_inv es a"
proof (induction rule: agent_run.induct)
  case (run_start meters a)
  then show ?case using start_fields [OF run_start]
    by (simp add: conn_inv_def connected_def counted_def edge_Start_def newEdgeControllerExtension_def)
qed (rule conn_inv_step)

section \<open>Sessions and shutdown\<close>

text \<open>The events since the last stream was opened, the latest first.\<close>

definition session :: "agent_event list \<Rightarrow> agent_event list" where
  "session es = takeWhile (\<lambda>ev. ev \<noteq> Opened) (rev es)"

lemma session_snoc: "session (es @ [ev]) = (if ev = Opened then [] else ev # session es)"
  by (simp add: session_def)

lemma step_phase:
  assumes "agent_step cfg hc lib a ev a'"
  shows "phase a' = Serving \<Longrightarrow> phase a = Serving \<and> ev \<notin> {Opened, StreamEnded} \<or> phase a = Announcing \<and> ev = HelloSent"
    and "phase a' = Announcing \<Longrightarrow> ev = Opened \<or> phase a = Announcing \<and> ev \<notin> {Opened, StreamEnded}"
    and "ev = AttemptMade \<Longrightarrow> phase a = Connecting"
    and "phase a' = Connecting \<Longrightarrow> phase a = Connecting \<and> ev \<noteq> AttemptMade \<or> ev = LoopChecked \<and> \<not> root_cancelled a"
    and "root_cancelled a \<Longrightarrow> root_cancelled a'"
    and "ev = ShutdownCalled \<Longrightarrow> phase a \<noteq> NotStarted \<Longrightarrow> root_cancelled a'"
  using assms by (cases, auto simp: connect_defs dest: hello_effect split: if_splits)+

definition session_inv :: "agent_event list \<Rightarrow> agent \<Rightarrow> bool" where
  "session_inv es a \<longleftrightarrow> (phase a \<in> {Announcing, Serving} \<longrightarrow> StreamEnded \<notin> set (session es))
     \<and> (phase a = Serving \<longrightarrow> HelloSent \<in> set (session es))"

lemma run_session_inv: "agent_run cfg hc lib es a \<Longrightarrow> session_inv es a"
proof (induction rule: agent_run.induct)
  case (run_start meters a)
  then show ?case using start_fields(2) [OF run_start] by (simp add: session_inv_def)
next
  case (run_more es a ev a')
  then show ?case using step_phase(1,2) [OF run_more.hyps(2)]
    by (auto simp: session_inv_def session_snoc)
qed

text \<open>The events after the first shutdown.\<close>

fun after_shutdown :: "agent_event list \<Rightarrow> agent_event list" where
  "after_shutdown [] = []"
| "after_shutdown (ev # es) = (if ev = ShutdownCalled then es else after_shutdown es)"

lemma after_shutdown_snoc:
  "after_shutdown (es @ [ev]) = (if ShutdownCalled \<in> set es then after_shutdown es @ [ev] else [])"
  by (induction es) auto

lemma after_shutdown_suffix: "\<exists>es3. after_shutdown (es1 @ ShutdownCalled # es2) = es3 @ es2"
  by (induction es1) auto

lemma run_shutdown_inv:
  "agent_run cfg hc lib es a \<Longrightarrow> phase a \<noteq> NotStarted \<and> (ShutdownCalled \<in> set es \<longrightarrow> root_cancelled a
     \<and> count_list (after_shutdown es) AttemptMade + (if phase a = Connecting then 1 else 0) \<le> 1)"
proof (induction rule: agent_run.induct)
  case (run_start meters a)
  then show ?case using start_fields(2) [OF run_start] by simp
next
  case (run_more es a ev a')
  note p = step_phase(3-6) [OF run_more.hyps(2)]
  have "phase a' \<noteq> NotStarted" using run_conn_inv [OF agent_run.run_more [OF run_more.hyps]] by (simp add: conn_inv_def)
  then show ?case using run_more.IH p
    by (auto simp: after_shutdown_snoc count_list_snoc split: if_splits)
qed

lemma gauges_match_heartbeat:
  "buildPing lib visit now e = p \<Longrightarrow> map snd (observe_gauges now visit e) = [k, d, m, q, up] \<Longrightarrow>
     KnownCacheSize p = of_int k \<and> DiscoveredCacheSize p = of_int d \<and> DemandCacheSize p = of_int m
     \<and> PendingBackendUpdates p = of_int q"
  by (auto simp: buildPing_def observe_gauges_def gauge_names_def demand_GetSize_def demand_GetDemands_def Let_def)

section \<open>Requests in runs of the whole agent\<close>

fun ctl_view :: "agent_event \<Rightarrow> ctl_event" where
  "ctl_view (Received msg) = (case sm_Body msg of ServerMessage_DemandSet ds \<Rightarrow> Elsewhere | _ \<Rightarrow> ServerIn msg)"
| "ctl_view (Proc p ev) = call_view ev"
| "ctl_view _ = Elsewhere"

lemma corr_same_refl [simp]: "corr_same e e"
  by (simp add: corr_same_def)

lemma corr_same_send: "sendAgentMessage nt msg e = (r, e') \<Longrightarrow> corr_same e e'"
  by (auto simp: corr_same_def sendAgentMessage_def split: if_splits)

lemma corr_same_reply [simp]:
  "corr_same e (replyCommand nt i b s e)" "corr_same e (sendQueryResponse nt i resp e)"
  by (simp_all add: replyCommand_def sendQueryResponse_def corr_same_send [OF prod.collapse [symmetric]])

lemma corr_same_fields [simp]:
  "corr_same e (e'\<lparr>stream_up := b\<rparr>) = corr_same e e'" "corr_same e (e'\<lparr>outbox := ms\<rparr>) = corr_same e e'"
  "corr_same e (e'\<lparr>knownTimeseriesCache := k\<rparr>) = corr_same e e'"
  "corr_same e (e'\<lparr>discoveredTimeseriesCache := d\<rparr>) = corr_same e e'"
  "corr_same (e\<lparr>jobs := js\<rparr>) e' = corr_same e e'" "corr_same (e\<lparr>knownTimeseriesCache := k\<rparr>) e' = corr_same e e'"
  "corr_same (e\<lparr>discoveredTimeseriesCache := d\<rparr>) e' = corr_same e e'"
  by (simp_all add: corr_same_def)

lemma corr_same_feed: "feed_step e f e' f' \<Longrightarrow> corr_same e e'"
  by (erule feed_stepE) simp_all

lemma same_requests:
  fixes a a' :: agent
  assumes "requests a' = requests a"
  shows "ctl_step (requests a) Elsewhere (requests a')"
  using ctl_step.elsewhere [OF corr_same_refl, of "requests a"] assms by simp

lemma hello_requests:
  assumes "connect_hello nt a = (b, a')"
  shows "\<exists>e'. corr_same (a_edge a) e' \<and> requests a' = (requests a)\<lparr>edge := e'\<rparr>"
proof -
  obtain r e where send: "sendAgentMessage nt (hello (a_edge a)) (a_edge a) = (r, e)" by fastforce
  then have "requests a' = (requests a)\<lparr>edge := e\<lparr>stream_up := stream_up (a_edge a')\<rparr>\<rparr>"
    using assms by (cases r) (auto simp: connect_hello_def with_edge_def connect_close_def)
  then show ?thesis using corr_same_send [OF send] corr_same_fields(1) by blast
qed

text \<open>Every step of the agent is a step of its requests.\<close>

lemma agent_ctl_step:
  assumes "agent_step cfg hc lib a ev a'"
  shows "ctl_step (requests a) (ctl_view ev) (requests a')"
  using assms
proof cases
  case (step_hello nt)
  then show ?thesis using hello_requests [OF step_hello(3)] by (auto intro: ctl_step.elsewhere)
next
  case (step_hello_failed nt)
  then show ?thesis using hello_requests [OF step_hello_failed(3)] by (auto intro: ctl_step.elsewhere)
next
  case (step_received msg nt now snap)
  show ?thesis
  proof (cases "\<exists>ds. sm_Body msg = ServerMessage_DemandSet ds")
    case True
    then obtain ds where "sm_Body msg = ServerMessage_DemandSet ds" by blast
    then show ?thesis using step_received by (simp add: recv_message_def with_edge_def corr_same_def ctl_step.elsewhere)
  next
    case False
    then have "a' = with_edge a (handleServerMessage nt now snap msg (a_edge a))" "ctl_view ev = ServerIn msg"
      using step_received by (auto simp: recv_message_def split: ServerMessage_Body.split)
    then show ?thesis by (simp add: with_edge_def ctl_step.server_in)
  qed
next
  case (step_routes i ds)
  then show ?thesis by (simp add: recv_routes_def with_edge_def corr_same_def ctl_step.elsewhere)
next
  case (step_replied i nt)
  then show ?thesis by (simp add: recv_reply_def with_edge_def ctl_step.elsewhere)
next
  case (step_feed i e' f')
  then show ?thesis by (simp add: with_edge_def corr_same_feed ctl_step.elsewhere)
next
  case (step_beat p ev e' pc')
  then have "corr_same (a_edge a) e'" by (auto dest!: ping_step_send dest: corr_same_send)
  then show ?thesis using step_beat by (simp add: with_edge_def ctl_step.elsewhere)
next
  case (step_proc p ev c' pc')
  then show ?thesis using proc_ctl_step by auto
next
  case (step_query i req u nt n w e' w' reqs)
  from query_replies [OF step_query(4)] have "corr_same ((a_edge a)\<lparr>jobs := remove1 (QueryJob i req) (jobs (a_edge a))\<rparr>) e'" by (metis corr_same_reply(2))
  then show ?thesis using step_query by (simp add: with_edge_def ctl_step.elsewhere)
next
  case (step_config i req os yaml run nt m f e' f' restart)
  from config_replies [OF step_config(4)] have "corr_same ((a_edge a)\<lparr>jobs := remove1 (UpdateConfigJob i req) (jobs (a_edge a))\<rparr>) e'" by (metis corr_same_reply(1))
  then show ?thesis using step_config by (simp add: with_edge_def ctl_step.elsewhere)
qed (auto simp: connect_defs with_edge_def intro: same_requests intro!: ctl_step.elsewhere)

lemma agent_ctl_run: "agent_run cfg hc lib es a \<Longrightarrow> ctl_run (map ctl_view es) (requests a)"
proof (induction rule: agent_run.induct)
  case (run_start meters a)
  have "edge_Start newEdgeControllerExtension = newEdgeControllerExtension"
    by (simp add: edge_Start_def newEdgeControllerExtension_def known_Init_def NewKnownTimeseriesCache_def discovered_Init_def
        NewDiscoveredTimeseriesCache_def demand_Init_def NewDemandTimeseriesCache_def)
  moreover have "requests a = ctl_init (edge_Start newEdgeControllerExtension)"
    using start_requests [OF run_start] .
  ultimately show ?case using ctl_start by simp
next
  case (run_more es a ev a')
  then show ?case using ctl_more [OF run_more.IH agent_ctl_step [OF run_more.hyps(2)]] by simp
qed

end
