(* ===== verification/Control_Stream.thy ===== *)
theory Control_Stream
  imports Agent_Runs
begin

text \<open>
  Properties of the control stream over all runs of the agent, with an example session for their
  witnesses: calls and acknowledgements are matched; the demand in force is that of the last push
  on any stream, apart from the routes while a push is half applied; a heartbeat echoes the demand
  of its tick; the connection metrics count what happened; and messages are handled only on a
  stream that was greeted.
\<close>

section \<open>An example\<close>

text \<open>A session that gets a demand set, and a shutdown in the middle of an attempt.\<close>

definition demo_start :: agent where
  "demo_start = snd (ext_Start (Some (\<lambda>n. None, None)) new_agent)"

definition demo_set :: DemandSet where
  "demo_set = \<lparr>set_Metrics = [''up''], set_Hash = 7, set_LogSelectors = [], set_TraceSelectors = [],
     set_MetricSelectors = [], set_TraceDemands = []\<rparr>"

definition demo_push :: ServerMessage where
  "demo_push = \<lparr>sm_CorrelationId = 1, sm_Body = ServerMessage_DemandSet demo_set\<rparr>"

definition demo_dialing :: agent where
  "demo_dialing = connect_attempt (demo_start\<lparr>phase := Connecting\<rparr>)"

definition demo_serving :: agent where
  "demo_serving = snd (connect_hello (\<lambda>ms m. True) (connect_open demo_dialing))"

definition demo_events :: "agent_event list" where
  "demo_events = [LoopChecked, AttemptMade, Opened, HelloSent]"

lemma demo_started: "ext_Start (Some (\<lambda>n. None, None)) new_agent = (None, demo_start)"
  unfolding demo_start_def
  by (simp add: ext_Start_def registerMetrics_def counter_names_def gauge_names_def Let_def)

lemma demo_start_phase: "phase demo_start = Idle" "\<not> root_cancelled demo_start"
  using start_fields(2,3) [OF demo_started] by simp_all

lemma demo_metrics: "metrics demo_start \<noteq> None"
  by (simp add: demo_start_def ext_Start_def registerMetrics_def counter_names_def gauge_names_def Let_def)

lemma demo_dialing_run: "agent_run cfg hc lib [LoopChecked, AttemptMade] demo_dialing"
proof -
  have "agent_run cfg hc lib ([] @ [LoopChecked]) (demo_start\<lparr>phase := Connecting\<rparr>)"
    by (rule run_more [OF run_start [OF demo_started] step_checked [OF demo_start_phase]])
  from run_more [OF this step_attempt] show ?thesis by (simp add: demo_dialing_def)
qed

lemma session_run: "agent_run cfg hc lib demo_events demo_serving"
proof -
  have d: "phase demo_dialing = Dialing" by (simp add: demo_dialing_def connect_defs)
  have "connect_hello (\<lambda>ms m. True) (connect_open demo_dialing) = (True, demo_serving)"
    by (simp add: demo_serving_def connect_hello_def sendAgentMessage_def connect_defs)
  from run_more [OF run_more [OF demo_dialing_run step_opened [OF d]] step_hello [OF _ this]]
  show ?thesis by (simp add: connect_defs demo_events_def)
qed

lemma demo_serving_phase: "phase demo_serving = Serving" "recv_at demo_serving = Receiving"
  using start_fields(5) [OF demo_started]
  by (simp_all add: demo_serving_def demo_dialing_def connect_hello_def sendAgentMessage_def connect_defs)

text \<open>A call of a timeseries processor that is answered on the stream: the steps the agent can
  take.\<close>

definition sent_trace :: "nat \<Rightarrow> 64 word \<Rightarrow> AgentMessage_Body \<Rightarrow> agent_event list" where
  "sent_trace p i body = [Proc p (Call (Drawn i)), Proc p (Call (Begun i)), Proc p (Call (Sent i body))]"

definition call_trace :: "nat \<Rightarrow> 64 word \<Rightarrow> AgentMessage_Body \<Rightarrow> Ack \<Rightarrow> agent_event list" where
  "call_trace p i body ack = sent_trace p i body
     @ [Received \<lparr>sm_CorrelationId = i, sm_Body = ServerMessage_Ack ack\<rparr>, Proc p (Call (Returned i ack))]"

text \<open>The requests with one more waiting call.\<close>

definition awaiting :: "ctl \<Rightarrow> AgentMessage_Body \<Rightarrow> ctl" where
  "awaiting c body =
     (let i = corrSeq (edge c) + 1; ch = next_chan (edge c) in
      c\<lparr>drawn := drawn c - {i},
        edge := (edge c)\<lparr>corrSeq := i, next_chan := ch + 1, pending := fmupd i ch (pending (edge c)),
            outbox := outbox (edge c) @ [\<lparr>am_CorrelationId = i, am_Body = body\<rparr>]\<rparr>,
        sending := sending c - {(i, ch)}, calls := insert (i, ch) (calls c)\<rparr>)"

lemma run_proc:
  assumes "agent_run cfg hc lib es (a\<lparr>requests := c, procs := (procs a)[p := pc]\<rparr>)" "p < length (procs a)"
    "\<And>done. proc_step done c pc ev c' pc'"
  shows "agent_run cfg hc lib (es @ [Proc p ev]) (a\<lparr>requests := c', procs := (procs a)[p := pc']\<rparr>)"
proof -
  let ?a = "a\<lparr>requests := c, procs := (procs a)[p := pc]\<rparr>"
  have "agent_step cfg hc lib ?a (Proc p ev) (?a\<lparr>requests := c', procs := (procs ?a)[p := pc']\<rparr>)"
    using assms(2,3) by (intro step_proc) simp_all
  from run_more [OF assms(1) this] show ?thesis by simp
qed

lemma sent_run:
  assumes run: "agent_run cfg hc lib es a" and p: "p < length (procs a)" and pc: "procs a ! p = Calling body f"
    and up: "stream_up (a_edge a)"
  shows "agent_run cfg hc lib (es @ sent_trace p (corrSeq (a_edge a) + 1) body)
    (a\<lparr>requests := awaiting (requests a) body, procs := (procs a)[p := AwaitingAck (corrSeq (a_edge a) + 1) f]\<rparr>)"
proof -
  let ?i = "corrSeq (a_edge a) + 1" and ?ch = "next_chan (a_edge a)" and ?c = "requests a"
  let ?c1 = "?c\<lparr>edge := (edge ?c)\<lparr>corrSeq := ?i\<rparr>, drawn := insert ?i (drawn ?c)\<rparr>"
  let ?e2 = "(edge ?c)\<lparr>corrSeq := ?i, next_chan := ?ch + 1, pending := fmupd ?i ?ch (pending (edge ?c))\<rparr>"
  let ?c2 = "?c1\<lparr>edge := ?e2, drawn := drawn ?c1 - {?i}, sending := insert (?i, ?ch) (sending ?c1)\<rparr>"
  let ?e3 = "?e2\<lparr>outbox := outbox ?e2 @ [\<lparr>am_CorrelationId = ?i, am_Body = body\<rparr>]\<rparr>"
  have "(procs a)[p := Calling body f] = procs a" by (simp flip: pc)
  then have 0: "agent_run cfg hc lib es (a\<lparr>requests := ?c, procs := (procs a)[p := Calling body f]\<rparr>)" using run by simp
  have "ctl_step ?c (Drawn ?i) ?c1" by (rule call_drawn) (simp add: nextCorrID_def)
  note 1 = run_proc [OF 0 p p_drawn [OF this]]
  have "ctl_step ?c1 (Begun ?i) ?c2" by (rule call_begun) (simp_all add: ack_register_def Let_def)
  note 2 = run_proc [OF 1 p p_begun [OF this]]
  have "ctl_step ?c2 (Sent ?i body) (?c2\<lparr>edge := ?e3, sending := sending ?c2 - {(?i, ?ch)}, calls := insert (?i, ?ch) (calls ?c2)\<rparr>)"
    by (rule call_sent [where net = "\<lambda>_ _. True"]) (use up in \<open>simp_all add: ack_send_def sendAgentMessage_def\<close>)
  from run_proc [OF 2 p p_sent [OF this]] show ?thesis by (simp add: sent_trace_def awaiting_def Let_def)
qed

definition ready_to_call :: "agent \<Rightarrow> bool" where
  "ready_to_call a \<longleftrightarrow> phase a = Serving \<and> recv_at a = Receiving \<and> stream_up (a_edge a) \<and> (\<forall>ch \<ge> next_chan (a_edge a). chans (a_edge a) ch = [])"

lemma call_run:
  assumes run: "agent_run cfg hc lib es a" and ready: "ready_to_call a" and p: "p < length (procs a)"
    and pc: "procs a ! p = Calling body f" and i: "corrSeq (a_edge a) + 1 = i" "i \<noteq> 0"
  shows "\<exists>c'. agent_run cfg hc lib (es @ call_trace p i body ack) (a\<lparr>requests := c', procs := (procs a)[p := Acked f]\<rparr>)
    \<and> ready_to_call (a\<lparr>requests := c', procs := (procs a)[p := Acked f]\<rparr>) \<and> corrSeq (edge c') = i
    \<and> knownTimeseriesCache (edge c') = knownTimeseriesCache (a_edge a)
    \<and> discoveredTimeseriesCache (edge c') = discoveredTimeseriesCache (a_edge a)"
proof -
  let ?ch = "next_chan (a_edge a)"
  let ?snap = "\<lparr>cs_Files = [], cs_PrimaryPath = '''', cs_WriteEnabled = False, cs_Error = ''''\<rparr>"
  let ?msg = "\<lparr>sm_CorrelationId = i, sm_Body = ServerMessage_Ack ack\<rparr>"
  let ?a3 = "a\<lparr>requests := awaiting (requests a) body, procs := (procs a)[p := AwaitingAck i f]\<rparr>"
  let ?e3 = "a_edge ?a3"
  let ?e4 = "?e3\<lparr>pending := fmdrop i (pending ?e3), chans := (chans ?e3)(?ch := [ack])\<rparr>"
  let ?c4 = "(awaiting (requests a) body)\<lparr>edge := ?e4\<rparr>"
  have r: "phase a = Serving" "stream_up (a_edge a)" "chans (a_edge a) ?ch = []" "recv_at a = Receiving" using ready by (auto simp: ready_to_call_def)
  have "agent_step cfg hc lib ?a3 (Received ?msg) (recv_message (\<lambda>_ _. True) 0 ?snap ?msg ?a3)"
    by (rule step_received) (simp_all add: r)
  moreover have "recv_message (\<lambda>_ _. True) 0 ?snap ?msg ?a3 = a\<lparr>requests := ?c4, procs := (procs a)[p := AwaitingAck i f]\<rparr>"
    using r(3) i by (simp add: recv_message_def with_edge_def handleServerMessage_def resolvePending_def awaiting_def Let_def)
  ultimately have 4: "agent_run cfg hc lib ((es @ sent_trace p i body) @ [Received ?msg])
      (a\<lparr>requests := ?c4, procs := (procs a)[p := AwaitingAck i f]\<rparr>)"
    using run_more [OF sent_run [OF run p pc r(2)]] i by simp
  let ?e5 = "?e4\<lparr>chans := (chans ?e4)(?ch := []), pending := fmdrop i (pending ?e4)\<rparr>"
  have "(i, ?ch) \<in> calls ?c4" using i by (simp add: awaiting_def Let_def)
  then have "ctl_step ?c4 (Returned i ack) (?c4\<lparr>edge := ?e5, calls := calls ?c4 - {(i, ?ch)}\<rparr>)"
    by (rule call_returned) (simp add: ack_receive_def)
  from run_proc [OF 4 p p_returned [OF this]] show ?thesis using ready i
    by (intro exI [of _ "?c4\<lparr>edge := ?e5, calls := calls ?c4 - {(i, ?ch)}\<rparr>"])
      (simp add: call_trace_def awaiting_def ready_to_call_def Let_def)
qed

text \<open>The first batch of a session and its announcement.\<close>

definition first_entry :: TimeseriesEntry where
  "first_entry = \<lparr>MetricName = ''up'', Labels = [], Samples = 1\<rparr>"

definition first_batch :: TimeseriesBatch where
  "first_batch = \<lparr>Data = fmupd ''k'' first_entry fmempty\<rparr>"

definition first_series :: "DiscoveredSeries list" where
  "first_series = [\<lparr>ds_Fingerprint = ''k'', ds_MetricName = ''up'', ds_Labels = []\<rparr>]"

definition first_known :: KnownTimeseriesCache where
  "first_known = \<lparr>known = fmupd ''k'' \<lparr>known_MetricName = ''up'', LastUpdate = 0, LastBackendSync = 0, lastHour = 0,
     head = 0, samples = [1, 0, 0, 0, 0, 0, 0, 0]\<rparr> fmempty\<rparr>"

definition fed_events :: "agent_event list" where
  "fed_events = demo_events @ [BatchIn first_batch, Fed 0, Fed 0, Fed 0]"

definition demo_call_events :: "agent_event list" where
  "demo_call_events = fed_events @ [Proc 0 Scanned, Proc 0 Scanned]
     @ call_trace 0 1 (AgentMessage_IndexCreate first_series) demo_ack"

lemma demo_serving_edge:
  "a_edge demo_serving = newEdgeControllerExtension
     \<lparr>stream_up := True, outbox := [hello newEdgeControllerExtension]\<rparr>"
  "procs demo_serving = [LoopHead]" "receivers demo_serving = [0]" "\<not> ctx_done demo_serving 0" "feeds demo_serving = []" "pings demo_serving = [PingWait]"
proof -
  have "edge_Start newEdgeControllerExtension = newEdgeControllerExtension" "outbox newEdgeControllerExtension = []"
    by (simp_all add: edge_Start_def newEdgeControllerExtension_def known_Init_def NewKnownTimeseriesCache_def discovered_Init_def
        NewDiscoveredTimeseriesCache_def demand_Init_def NewDemandTimeseriesCache_def)
  then show "a_edge demo_serving = newEdgeControllerExtension
     \<lparr>stream_up := True, outbox := [hello newEdgeControllerExtension]\<rparr>"
    by (simp add: demo_serving_def demo_dialing_def connect_hello_def sendAgentMessage_def connect_defs
      start_fields(1) [OF demo_started] hello_def)
  have "procs demo_start = []" "cancelled_upto demo_start = 0" "feeds demo_start = []" "pings demo_start = []"
    by (simp_all add: demo_start_def ext_Start_def registerMetrics_def counter_names_def gauge_names_def new_agent_def
        with_edge_def Let_def)
  then show "procs demo_serving = [LoopHead]" "receivers demo_serving = [0]" "\<not> ctx_done demo_serving 0" "feeds demo_serving = []" "pings demo_serving = [PingWait]"
    using start_fields(3,4) [OF demo_started]
    by (simp_all add: demo_serving_def demo_dialing_def connect_hello_def sendAgentMessage_def connect_defs with_edge_def ctx_done_def)
qed

text \<open>The series of a batch, one critical section at a time.\<close>

lemma run_feed:
  assumes "agent_run cfg hc lib es a" "i < length (feeds a)" "feed_step (a_edge a) (feeds a ! i) e' f'"
  shows "agent_run cfg hc lib (es @ [Fed i]) (with_edge (a\<lparr>feeds := (feeds a)[i := f']\<rparr>) e')"
  by (rule run_more [OF assms(1) step_feed [OF assms(2,3)]])

definition demo_fed :: agent where
  "demo_fed = with_edge (demo_serving\<lparr>feeds := [([], Looking)]\<rparr>) ((a_edge demo_serving)
     \<lparr>discoveredTimeseriesCache := \<lparr>discovered = fmupd ''k'' first_entry fmempty\<rparr>, knownTimeseriesCache := first_known\<rparr>)"

lemma fed_run: "agent_run cfg hc lib fed_events demo_fed"
proof -
  let ?e = "a_edge demo_serving"
  let ?e1 = "?e\<lparr>discoveredTimeseriesCache := discovered_Add ''k'' first_entry (discoveredTimeseriesCache ?e)\<rparr>"
  let ?f = "\<lambda>st. [([(''k'', first_entry)], st)]"
  have "feed_of first_batch [(''k'', first_entry)]" by (simp add: feed_of_def first_batch_def)
  then have 0: "agent_run cfg hc lib (demo_events @ [BatchIn first_batch]) (demo_serving\<lparr>feeds := ?f Looking\<rparr>)"
    using run_more [OF session_run step_batch] by (simp add: demo_serving_edge)
  have "\<not> IsTimeseriesKnown (knownTimeseriesCache ?e) ''k''"
    by (simp add: demo_serving_edge newEdgeControllerExtension_def NewKnownTimeseriesCache_def IsTimeseriesKnown_def)
  then have "feed_step ?e ([(''k'', first_entry)], Looking) ?e ([(''k'', first_entry)], Adding)"
    using f_look [of ?e "''k''" first_entry "[]"] by simp
  from run_feed [OF 0, of 0] this
  have 1: "agent_run cfg hc lib ((demo_events @ [BatchIn first_batch]) @ [Fed 0]) (with_edge (demo_serving\<lparr>feeds := ?f Adding\<rparr>) ?e)"
    by simp
  from run_feed [OF 1, of 0] f_add [of ?e "''k''" first_entry "[]"]
  have 2: "agent_run cfg hc lib (((demo_events @ [BatchIn first_batch]) @ [Fed 0]) @ [Fed 0])
      (with_edge (demo_serving\<lparr>feeds := ?f Updating\<rparr>) ?e1)" by (simp add: with_edge_def)
  have "UpdateTimeseries 0 ''k'' first_entry NewKnownTimeseriesCache = Some first_known" by code_simp
  then have "UpdateTimeseries 0 ''k'' first_entry (knownTimeseriesCache ?e1) = Some first_known"
    by (simp add: demo_serving_edge newEdgeControllerExtension_def)
  from run_feed [OF 2, of 0] f_update [OF this, of "[]"] show ?thesis
    by (simp add: fed_events_def demo_fed_def with_edge_def discovered_Add_def demo_serving_edge
        newEdgeControllerExtension_def NewDiscoveredTimeseriesCache_def)
qed

definition announcing :: agent where
  "announcing = demo_fed\<lparr>procs := [Calling (AgentMessage_IndexCreate first_series) (ToPurge [''k''])]\<rparr>"

lemma announcing_run: "agent_run cfg hc lib (fed_events @ [Proc 0 Scanned, Proc 0 Scanned]) announcing"
proof -
  let ?c = "discoveredTimeseriesCache (a_edge demo_fed)"
  have ps: "procs demo_fed = [LoopHead]" "\<not> ctx_done demo_fed 0"
    using demo_serving_edge by (simp_all add: demo_fed_def with_edge_def ctx_done_def)
  have "agent_step cfg hc lib demo_fed (Proc 0 Scanned) (demo_fed\<lparr>requests := requests demo_fed, procs := (procs demo_fed)[0 := Checked]\<rparr>)"
    by (rule step_proc) (simp_all add: ps p_check)
  note 1 = run_more [OF fed_run this]
  have en: "enumerates [''k''] (discovered ?c)" by (simp add: demo_fed_def enumerates_def)
  have b: "GetBatch [''k''] 5000 ?c = (map (item_of ?c) [''k''], [''k''])" by (simp add: GetBatch_eq [OF en])
  have s: "created_series (map (item_of ?c) [''k'']) = first_series"
    by (simp only: created_series_items) (simp add: first_series_def series_of_def entry_at_def demo_fed_def first_entry_def)
  have "proc_step done (requests demo_fed) Checked Scanned (requests demo_fed)
      (Calling (AgentMessage_IndexCreate (created_series (map (item_of ?c) [''k'']))) (ToPurge [''k'']))" for "done"
    using en b by (rule p_create) simp
  from run_proc [OF 1 _ this [unfolded s]] show ?thesis by (simp add: ps announcing_def)
qed

lemma ready_demo: "ready_to_call announcing" "corrSeq (a_edge announcing) = 0"
  by (simp_all add: ready_to_call_def announcing_def demo_fed_def demo_serving_edge demo_serving_phase newEdgeControllerExtension_def)

lemma demo_call_run:
  "\<exists>c. agent_run cfg hc lib demo_call_events (demo_fed\<lparr>requests := c, procs := [Acked (ToPurge [''k''])]\<rparr>)
     \<and> ready_to_call (demo_fed\<lparr>requests := c, procs := [Acked (ToPurge [''k''])]\<rparr>) \<and> corrSeq (edge c) = 1
     \<and> knownTimeseriesCache (edge c) = first_known
     \<and> discovered (discoveredTimeseriesCache (edge c)) = fmupd ''k'' first_entry fmempty"
proof -
  have pc: "0 < length (procs announcing)"
    "procs announcing ! 0 = Calling (AgentMessage_IndexCreate first_series) (ToPurge [''k''])" by (simp_all add: announcing_def)
  have i: "corrSeq (a_edge announcing) + 1 = 1" "(1 :: 64 word) \<noteq> 0" by (simp_all add: ready_demo(2))
  note call = call_run [OF announcing_run [of cfg hc lib] ready_demo(1) pc i, where ack = demo_ack]
  show ?thesis using call by (rule ex_forward) (simp add: announcing_def demo_call_events_def demo_fed_def)
qed

section \<open>Properties\<close>

text \<open>
  C5: acknowledgements and requests are matched, in every run of the agent.  Over any number of
  sessions, and whatever the interleaving of the critical sections of concurrent
  \<open>sendAndWaitAck\<close> calls, server messages, failed sends, timeouts, heartbeats, batches, jobs and reconnections, as long as fewer than
  \<open>2^64\<close> calls were made: a call that returns an acknowledgement returns one that arrived with the
  call's own correlation identifier after the call was begun; no call ends twice; and the table of
  pending calls holds only calls that have not ended, so it never leaks.
\<close>

theorem calls_matched:
  assumes "agent_run cfg hc lib es a" "begins (map ctl_view es) < 2 ^ 64"
  shows "(\<forall>es1 p i ack es2. es = es1 @ Proc p (Call (Returned i ack)) # es2 \<longrightarrow> answered (map ctl_view es1) i ack)
    \<and> distinct (ended (map ctl_view es))
    \<and> fset (fmdom (pending (a_edge a))) \<subseteq> fst ` live (requests a)"
  using ack_correlation [OF agent_ctl_run [OF assms(1)] assms(2)] by auto

text \<open>Witness of C5, with the answered call of the example.\<close>

theorem calls_matched_witness:
  "answered (map ctl_view (butlast demo_call_events)) 1 demo_ack \<and> distinct (ended (map ctl_view demo_call_events))"
proof -
  obtain a where run: "agent_run store_config echo_http literal_regexp demo_call_events a"
    using demo_call_run by blast
  have few: "begins (map ctl_view demo_call_events) < 2 ^ 64"
    by (simp add: demo_call_events_def fed_events_def demo_events_def call_trace_def sent_trace_def)
  have "demo_call_events = butlast demo_call_events @ Proc 0 (Call (Returned 1 demo_ack)) # []"
    by (simp add: demo_call_events_def call_trace_def butlast_append)
  with calls_matched [OF run few] show ?thesis by blast
qed

text \<open>
  C6: the demand in force is that of the last push, on whatever stream it came.  In every run,
  over any number of sessions, failed attempts and interleaved actions of the other goroutines,
  the lists and the hash the filters and the heartbeat read are exactly those of the last demand
  set received (nothing before the first one), so an outage keeps the demand.  The trace routes
  are those of the last demand set whose second critical section ran: the same set, except while
  the receive loop stands between the two.
\<close>

theorem demand_is_last_pushed:
  assumes "agent_run cfg hc lib es a" "s = demand_GetDemands (demandTimeseriesCache (a_edge a))"
  shows "lists_in_force (last_demand None es) s \<and> routes_in_force (last_routes None es) s
    \<and> (push_settled a \<longrightarrow> last_routes None es = last_demand None es)"
  using run_push_inv [OF assms(1)] assms(2) by (simp add: push_inv_def)

text \<open>A push that is received, applied and answered.\<close>

definition push_trace :: "64 word \<Rightarrow> DemandSet \<Rightarrow> agent_event list" where
  "push_trace i ds = [Received \<lparr>sm_CorrelationId = i, sm_Body = ServerMessage_DemandSet ds\<rparr>, RoutesApplied ds, PushReplied i]"

lemma push_run:
  assumes run: "agent_run cfg hc lib es a" and a: "phase a = Serving" "recv_at a = Receiving"
  shows "agent_run cfg hc lib (es @ push_trace i ds)
    (with_edge a (handleServerMessage nt now snap \<lparr>sm_CorrelationId = i, sm_Body = ServerMessage_DemandSet ds\<rparr> (a_edge a)))"
proof -
  let ?msg = "\<lparr>sm_CorrelationId = i, sm_Body = ServerMessage_DemandSet ds\<rparr>"
  let ?m = "recv_message nt now snap ?msg a"
  have "recv_at ?m = Routing i ds" "recv_at (recv_routes i ds ?m) = Replying i" by (simp_all add: recv_message_def recv_routes_def)
  from run_more [OF run_more [OF run_more [OF run step_received [OF a]] step_routes [OF this(1)]] step_replied [OF this(2)], of nt]
  show ?thesis using push_is_handle [of ?msg ds a nt now snap] a(2) by (simp add: push_trace_def)
qed

text \<open>Witness of C6, with a session whose demand set survives the end of the stream.\<close>

theorem demand_is_last_pushed_witness:
  "\<exists>a. agent_run store_config echo_http literal_regexp ((demo_events @ push_trace 1 demo_set) @ [StreamEnded]) a
     \<and> GetDemands (a_edge a) = [''up''] \<and> \<not> stream_up (a_edge a)"
proof -
  let ?m = "with_edge demo_serving (handleServerMessage (\<lambda>ms m. True) 0 \<lparr>cs_Files = [], cs_PrimaryPath = '''', cs_WriteEnabled = False,
      cs_Error = ''''\<rparr> \<lparr>sm_CorrelationId = 1, sm_Body = ServerMessage_DemandSet demo_set\<rparr> (a_edge demo_serving))"
  have r: "agent_run store_config echo_http literal_regexp ((demo_events @ push_trace 1 demo_set) @ [StreamEnded]) (connect_close ?m)"
    by (rule run_more [OF push_run [OF session_run demo_serving_phase] step_ended]) (simp_all add: demo_serving_phase)
  have "last_demand None ((demo_events @ push_trace 1 demo_set) @ [StreamEnded]) = Some demo_set"
    by (simp add: demo_events_def pushed_def push_trace_def)
  with demand_is_last_pushed [OF r refl] have "GetDemands (a_edge (connect_close ?m)) = [''up'']"
    by (simp add: lists_in_force_def GetDemands_def demo_set_def)
  moreover have "\<not> stream_up (a_edge (connect_close ?m))" by (simp add: connect_close_def)
  ultimately show ?thesis using r by blast
qed

text \<open>
  C21: a heartbeat echoes the demand of its tick.  In every run, the hash and the number of names
  a heartbeat carries are those of the demand set that was the last one received when the tick of
  that heartbeat began (zero before the first), although the heartbeat is put together and sent
  in several critical sections between which further demand sets may arrive and sessions may end.
  This is how the backend notices that a push was lost.
\<close>

theorem heartbeat_echoes:
  assumes "agent_run cfg hc lib (es1 @ Beat p (BeatSent ping) # es2) a"
  shows "ticked es1 p (ping_DemandHash ping, DemandCacheSize ping)"
proof -
  obtain b a' where b: "agent_run cfg hc lib es1 b" "agent_step cfg hc lib b (Beat p (BeatSent ping)) a'"
    using agent_run_split [OF assms] by blast
  from b(2) obtain e' pc' where "p < length (pings b)"
    "ping_step lib (ctx_done b p) (a_edge b) (pings b ! p) (BeatSent ping) e' pc'" by cases auto
  then show ?thesis using carried_step run_beat_inv [OF b(1)] unfolding beat_inv_def by blast
qed

lemma run_beat:
  assumes "agent_run cfg hc lib es (a\<lparr>pings := (pings a)[p := pc]\<rparr>)" "p < length (pings a)"
    "\<And>done. ping_step lib done (a_edge a) pc ev e' pc'"
  shows "agent_run cfg hc lib (es @ [Beat p ev]) (with_edge (a\<lparr>pings := (pings a)[p := pc']\<rparr>) e')"
proof -
  let ?a = "a\<lparr>pings := (pings a)[p := pc]\<rparr>"
  have "agent_step cfg hc lib ?a (Beat p ev) (with_edge (?a\<lparr>pings := (pings ?a)[p := pc']\<rparr>) e')"
    using assms(2,3) by (intro step_beat) simp_all
  from run_more [OF assms(1) this] show ?thesis by simp
qed

lemma at_ping: "p < length (pings a) \<Longrightarrow> pings a ! p = pc \<Longrightarrow> a\<lparr>pings := (pings a)[p := pc]\<rparr> = a"
  by auto

lemma reads_run:
  assumes run: "agent_run cfg hc lib es (a\<lparr>pings := (pings a)[p := PingDemand s]\<rparr>)" and p: "p < length (pings a)"
    and v: "enumerates visit (known (knownTimeseriesCache (a_edge a)))"
  shows "\<exists>ping. agent_run cfg hc lib (es @ replicate 5 (Beat p BeatRead)) (a\<lparr>pings := (pings a)[p := PingReady ping]\<rparr>)"
proof -
  have same: "with_edge (a\<lparr>pings := x\<rparr>) (a_edge a) = a\<lparr>pings := x\<rparr>" for x by (simp add: with_edge_def)
  note beat = run_beat [where e' = "a_edge a" and a = a, unfolded same]
  note beat [OF run p b_known]
  note beat [OF this p b_discovered]
  note beat [OF this p b_pending [OF v]]
  note beat [OF this p b_names [OF v]]
  note beat [OF this p b_count [OF v]]
  then show ?thesis by (auto simp: numeral_eq_Suc)
qed

text \<open>Witness of C21: a demand set arrives while a heartbeat is being put together; the heartbeat
  still says that there was none.\<close>

theorem heartbeat_echoes_witness:
  "\<exists>ping a. agent_run store_config echo_http literal_regexp
       ((((demo_events @ [Beat 0 BeatBegun]) @ push_trace 1 demo_set) @ replicate 5 (Beat 0 BeatRead)) @ Beat 0 (BeatSent ping) # []) a
     \<and> ping_DemandHash ping = 0 \<and> GetDemands (a_edge a) = [''up'']"
proof -
  let ?snap = "\<lparr>cs_Files = [], cs_PrimaryPath = '''', cs_WriteEnabled = False, cs_Error = ''''\<rparr>"
  let ?s = "demand_GetDemands (demandTimeseriesCache (a_edge demo_serving))"
  let ?b = "demo_serving\<lparr>pings := [PingDemand ?s]\<rparr>"
  let ?m = "with_edge ?b (handleServerMessage (\<lambda>ms m. True) 0 ?snap
      \<lparr>sm_CorrelationId = 1, sm_Body = ServerMessage_DemandSet demo_set\<rparr> (a_edge ?b))"
  let ?es = "((demo_events @ [Beat 0 BeatBegun]) @ push_trace 1 demo_set) @ replicate 5 (Beat 0 BeatRead)"
  have p0: "pings demo_serving = [PingWait]" by (rule demo_serving_edge)
  have "agent_run store_config echo_http literal_regexp demo_events (demo_serving\<lparr>pings := (pings demo_serving)[0 := PingWait]\<rparr>)"
    by (subst at_ping) (simp_all add: p0 session_run)
  from run_beat [OF this _ b_demand] have "agent_run store_config echo_http literal_regexp (demo_events @ [Beat 0 BeatBegun]) ?b"
    by (simp add: p0 with_edge_def)
  from push_run [OF this] have "agent_run store_config echo_http literal_regexp ((demo_events @ [Beat 0 BeatBegun]) @ push_trace 1 demo_set) ?m"
    by (simp add: demo_serving_phase)
  then have reading: "agent_run store_config echo_http literal_regexp ((demo_events @ [Beat 0 BeatBegun]) @ push_trace 1 demo_set)
      (?m\<lparr>pings := (pings ?m)[0 := PingDemand ?s]\<rparr>)" by (subst at_ping) simp_all
  have one: "0 < length (pings ?m)" by simp
  have "enumerates [] (known (knownTimeseriesCache (a_edge ?m)))"
    by (simp add: handleServerMessage_def replyCommand_def sendAgentMessage_def demo_serving_edge newEdgeControllerExtension_def
        NewKnownTimeseriesCache_def enumerates_def)
  from reads_run [OF reading one this] obtain ping where
    "agent_run store_config echo_http literal_regexp ?es (?m\<lparr>pings := (pings ?m)[0 := PingReady ping]\<rparr>)" by blast
  from run_beat [OF this one b_sent_stale]
  have run: "agent_run store_config echo_http literal_regexp (?es @ Beat 0 (BeatSent ping) # [])
      (with_edge (?m\<lparr>pings := (pings ?m)[0 := PingWait]\<rparr>) (a_edge (?m)))" .
  from heartbeat_echoes [OF this] have "ticked ?es 0 (ping_DemandHash ping, DemandCacheSize ping)" .
  then have "ping_DemandHash ping = 0"
    by (auto simp: ticked_def demo_events_def push_trace_def echo_def pushed_def numeral_eq_Suc Cons_eq_append_conv)
  moreover have "GetDemands (a_edge (with_edge (?m\<lparr>pings := (pings ?m)[0 := PingWait]\<rparr>) (a_edge (?m)))) = [''up'']"
    by (simp add: handleServerMessage_def GetDemands_def demand_GetDemands_def apply_demands_def apply_routes_def UpdateDemands_def
        UpdateTraceRoutes_def demo_set_def)
  ultimately show ?thesis using run by blast
qed

text \<open>
  C20: the connection metrics tell the truth.  In every run the stream is set exactly while the
  connection loop is in a session, which is what the gauge shows; the two counters are the
  numbers of attempts and of opened streams; and every opened stream was an attempt.
\<close>

theorem connection_metrics:
  assumes "agent_run cfg hc lib es a"
  shows "connectedState (a_edge a) = (if phase a \<in> {Announcing, Serving} then 1 else 0)
    \<and> (\<forall>m. metrics a = Some m \<longrightarrow> connectionAttempts m = count_list es AttemptMade
          \<and> connectionsEstablished m = count_list es Opened)
    \<and> count_list es Opened \<le> count_list es AttemptMade"
  using run_conn_inv [OF assms] by (auto simp: conn_inv_def connected_def counted_def connectedState_def)

text \<open>Witness of C20, for a session.\<close>

theorem connection_metrics_witness:
  "connectedState (a_edge demo_serving) = 1 \<and> map_option connectionAttempts (metrics demo_serving) = Some 1
   \<and> map_option connectionsEstablished (metrics demo_serving) = Some 1"
proof -
  have "metrics demo_serving \<noteq> None"
    by (simp add: demo_serving_def demo_dialing_def connect_hello_def sendAgentMessage_def connect_defs demo_metrics)
  then show ?thesis using connection_metrics [OF session_run [of store_config echo_http literal_regexp]]
    by (auto simp: demo_serving_phase demo_events_def)
qed

text \<open>
  Messages are handled only on a greeted stream.  Whenever the receive loop handles a
  message, the stream it came on has accepted the agent's greeting with its version, since that
  stream was opened, and has not ended.
\<close>

theorem served_after_hello:
  assumes "agent_run cfg hc lib es a" "agent_step cfg hc lib a (Received msg) a'"
  shows "stream_up (a_edge a) \<and> \<lparr>am_CorrelationId = 0, am_Body = AgentMessage_Hello (version (a_edge a))\<rparr> \<in> set (outbox (a_edge a))
    \<and> HelloSent \<in> set (session es) \<and> StreamEnded \<notin> set (session es)"
proof -
  have "phase a = Serving" using assms(2) by (auto elim: agent_stepE)
  then show ?thesis using run_conn_inv [OF assms(1)] run_session_inv [OF assms(1)]
    by (auto simp: conn_inv_def connected_def session_inv_def hello_def)
qed

text \<open>Witness, for the first message of a session.\<close>

theorem served_after_hello_witness:
  "stream_up (a_edge demo_serving) \<and> HelloSent \<in> set (session demo_events)"
  using served_after_hello [OF session_run [of store_config echo_http literal_regexp]
      step_received [OF demo_serving_phase, of store_config echo_http literal_regexp demo_push]] by blast

end
