(* ===== verification/Inventory.thy ===== *)
theory Inventory
  imports Control_Stream
begin

text \<open>
  The inventory of series over runs of the whole agent: what the tracker reports, what the two
  caches hold, and what was announced to the backend and acknowledged.  The properties combine
  the caches, the correlated requests, the timeseries processors and the sessions of the control
  stream (\<open>src/components/edgecontroller\<close>), whatever the interleaving.
\<close>

section \<open>Acknowledged calls\<close>

text \<open>The call of processor \<open>p\<close> with this body was sent and returned an acknowledgement.\<close>

definition acked_call :: "agent_event list \<Rightarrow> nat \<Rightarrow> 64 word \<Rightarrow> Ack \<Rightarrow> AgentMessage_Body \<Rightarrow> bool" where
  "acked_call es p i ack body \<longleftrightarrow>
     (\<exists>es1 es2. es = es1 @ Proc p (Call (Sent i body)) # es2 \<and> Proc p (Call (Returned i ack)) \<in> set es2)"

lemma acked_call_append: "acked_call es p i ack body \<Longrightarrow> acked_call (es @ fs) p i ack body"
  unfolding acked_call_def by (metis Un_iff append.assoc append_Cons set_append)

lemma acked_call_now:
  assumes "Proc p (Call (Sent i body)) \<in> set es"
  shows "acked_call (es @ [Proc p (Call (Returned i ack))]) p i ack body"
proof -
  obtain es1 es2 where "es = es1 @ Proc p (Call (Sent i body)) # es2" using assms by (meson split_list)
  then show ?thesis unfolding acked_call_def by fastforce
qed

definition announced :: "agent_event list \<Rightarrow> HashKey \<Rightarrow> bool" where
  "announced es k \<longleftrightarrow> (\<exists>p i ack ss. acked_call es p i ack (AgentMessage_IndexCreate ss) \<and> k \<in> ds_Fingerprint ` set ss)"

lemma announced_append: "announced es k \<Longrightarrow> announced (es @ fs) k"
  unfolding announced_def using acked_call_append by blast

section \<open>Since the last deletion\<close>

definition deletes :: "HashKey \<Rightarrow> agent_event \<Rightarrow> bool" where
  "deletes k ev \<longleftrightarrow> (\<exists>p ks. ev = Proc p (Deleted ks) \<and> k \<in> set ks)"

text \<open>The whole run, or the part of it after the series was last taken out of the known cache.\<close>

definition recent :: "HashKey option \<Rightarrow> agent_event list \<Rightarrow> agent_event list" where
  "recent x es = rev (takeWhile (\<lambda>ev. \<forall>k. x = Some k \<longrightarrow> \<not> deletes k ev) (rev es))"

lemma recent_None [simp]: "recent None es = es"
  by (simp add: recent_def takeWhile_eq_all_conv [THEN iffD2])

lemma recent_snoc:
  "recent x (es @ [ev]) = (if \<exists>k. x = Some k \<and> deletes k ev then [] else recent x es @ [ev])"
  by (auto simp: recent_def)

lemma recent_Nil [simp]: "recent x [] = []"
  by (simp add: recent_def)

section \<open>What a processor holds\<close>

text \<open>The call of a batch names the series of its follow-up.\<close>

fun matches :: "AgentMessage_Body \<Rightarrow> follow_up \<Rightarrow> bool" where
  "matches body (ToPurge ks) \<longleftrightarrow> (\<exists>ss. body = AgentMessage_IndexCreate ss \<and> set ks \<subseteq> ds_Fingerprint ` set ss)"
| "matches body (ToDelete ks act) \<longleftrightarrow> body = AgentMessage_IndexDelete ks"
| "matches body (ToMark ks) \<longleftrightarrow> (\<exists>us. body = AgentMessage_IndexUpdate us \<and> map as_Fingerprint us = ks)"

definition scope :: "bool \<Rightarrow> HashKey \<Rightarrow> HashKey option" where
  "scope r k = (if r then Some k else None)"

text \<open>The spans of the run a follow-up is about: the run, and for a purge the time since the last
  deletion of each of its series.\<close>

fun spans :: "bool \<Rightarrow> follow_up \<Rightarrow> HashKey option set" where
  "spans r (ToPurge ks) = insert None (scope r ` set ks)"
| "spans r f = {None}"

lemma None_in_spans [simp]: "None \<in> spans r f"
  by (cases f) simp_all

fun proc_ok :: "bool \<Rightarrow> agent_event list \<Rightarrow> nat \<Rightarrow> proc \<Rightarrow> bool" where
  "proc_ok r es p (Calling body f) \<longleftrightarrow> matches body f"
| "proc_ok r es p (Numbered i body f) \<longleftrightarrow> matches body f"
| "proc_ok r es p (Entered i body f) \<longleftrightarrow> matches body f"
| "proc_ok r es p (AwaitingAck i f) \<longleftrightarrow>
     (\<exists>body. matches body f \<and> (\<forall>x \<in> spans r f. Proc p (Call (Sent i body)) \<in> set (recent x es)))"
| "proc_ok r es p (Acked f) \<longleftrightarrow>
     (\<exists>i ack body. matches body f \<and> (\<forall>x \<in> spans r f. acked_call (recent x es) p i ack body))"
| "proc_ok r es p _ \<longleftrightarrow> True"

text \<open>An event that deletes none of the series a processor is about to purge.\<close>

definition spares :: "bool \<Rightarrow> agent_event \<Rightarrow> bool" where
  "spares r ev \<longleftrightarrow> (\<forall>k. r \<longrightarrow> \<not> deletes k ev)"

lemma recent_spared: "spares r ev \<Longrightarrow> x \<in> spans r f \<Longrightarrow> recent x (es @ [ev]) = recent x es @ [ev]"
  by (cases f) (auto simp: recent_snoc spares_def scope_def)

lemma recent_scope: "spares r ev \<Longrightarrow> recent (scope r k) (es @ [ev]) = recent (scope r k) es @ [ev]"
  by (auto simp: recent_snoc spares_def scope_def)

lemma proc_ok_later:
  assumes "proc_ok r es p pc" "spares r ev"
  shows "proc_ok r (es @ [ev]) p pc"
proof (cases pc)
  case (AwaitingAck i f)
  then obtain body where "matches body f" "\<forall>x \<in> spans r f. Proc p (Call (Sent i body)) \<in> set (recent x es)"
    using assms(1) by auto
  then show ?thesis using AwaitingAck recent_spared [OF assms(2)] by fastforce
next
  case (Acked f)
  then obtain i ack body where "matches body f" "\<forall>x \<in> spans r f. acked_call (recent x es) p i ack body"
    using assms(1) by auto
  then show ?thesis using Acked recent_spared [OF assms(2)] acked_call_append
    by (metis (no_types, lifting) proc_ok.simps(5))
qed (use assms in auto)

lemma updated_fingerprints: "map as_Fingerprint (updated_series act) = map item_HashKey act"
  by (simp add: updated_series_def)

text \<open>A step of the processor itself.\<close>

lemma proc_ok_step:
  assumes step: "proc_step done s pc ev s' pc'" and ok: "proc_ok r es p pc"
  shows "proc_ok r (es @ [Proc p ev]) p pc'"
  using step
proof cases
  case (p_create visit items keys)
  then show ?thesis by (simp add: created_fingerprints)
next
  case (p_inactive visit now inactiveKeys c activeItems)
  then show ?thesis by (auto simp: known_call_def update_call_def updated_fingerprints)
next
  case (p_sent i body f)
  then have "matches body f" using ok by simp
  moreover have "recent x (es @ [Proc p (Call (Sent i body))]) = recent x es @ [Proc p (Call (Sent i body))]" for x
    by (simp add: recent_snoc deletes_def)
  ultimately show ?thesis using p_sent by auto
next
  case (p_returned i a f)
  have "recent x (es @ [Proc p (Call (Returned i a))]) = recent x es @ [Proc p (Call (Returned i a))]" for x
    by (simp add: recent_snoc deletes_def)
  then show ?thesis using p_returned ok acked_call_now by fastforce
next
  case (p_update activeItems)
  then show ?thesis by (simp add: update_call_def updated_fingerprints)
qed (use ok in auto)

section \<open>What the steps do to the caches\<close>

definition knows :: "edgeControllerExtension \<Rightarrow> HashKey \<Rightarrow> bool" where
  "knows e k \<longleftrightarrow> IsTimeseriesKnown (knownTimeseriesCache e) k"

definition waits :: "edgeControllerExtension \<Rightarrow> HashKey \<Rightarrow> bool" where
  "waits e k \<longleftrightarrow> k |\<in>| fmdom (discovered (discoveredTimeseriesCache e))"

text \<open>A series a pipeline is about to update in the known cache.\<close>

definition updating :: "agent \<Rightarrow> HashKey \<Rightarrow> bool" where
  "updating a k \<longleftrightarrow> (\<exists>i x ps. i < length (feeds a) \<and> feeds a ! i = ((k, x) # ps, Updating))"

definition held :: "agent \<Rightarrow> HashKey \<Rightarrow> bool" where
  "held a k \<longleftrightarrow> knows (a_edge a) k \<or> updating a k"

definition inventory :: "edgeControllerExtension \<Rightarrow> KnownTimeseriesCache \<times> DiscoveredTimeseriesCache" where
  "inventory e = (knownTimeseriesCache e, discoveredTimeseriesCache e)"

lemma same_inventory:
  "inventory e' = inventory e \<Longrightarrow> knows e' = knows e \<and> waits e' = waits e"
  by (auto simp: knows_def waits_def inventory_def fun_eq_iff)

lemma inventory_fields [simp]:
  "inventory (e\<lparr>pending := p\<rparr>) = inventory e" "inventory (e\<lparr>chans := c\<rparr>) = inventory e"
  "inventory (e\<lparr>corrSeq := i\<rparr>) = inventory e" "inventory (e\<lparr>next_chan := n\<rparr>) = inventory e"
  "inventory (e\<lparr>outbox := ms\<rparr>) = inventory e" "inventory (e\<lparr>stream_up := b\<rparr>) = inventory e"
  "inventory (e\<lparr>jobs := js\<rparr>) = inventory e" "inventory (e\<lparr>demandTimeseriesCache := d\<rparr>) = inventory e"
  by (simp_all add: inventory_def)

lemma inventory_apply [simp]: "inventory (apply_demands now ds e) = inventory e" "inventory (apply_routes ds e) = inventory e"
  by (simp_all add: inventory_def)

lemma inventory_send: "sendAgentMessage nt msg e = (r, e') \<Longrightarrow> inventory e' = inventory e"
  by (auto simp: sendAgentMessage_def split: if_splits)

lemma inventory_replies [simp]:
  "inventory (replyCommand nt i b s e) = inventory e" "inventory (sendConfigSnapshot nt snap i e) = inventory e"
  "inventory (sendQueryResponse nt i resp e) = inventory e"
  by (simp_all add: replyCommand_def sendConfigSnapshot_def sendQueryResponse_def inventory_send [OF prod.collapse [symmetric]])

lemma inventory_server: "inventory (handleServerMessage nt now snap msg e) = inventory e"
  by (simp add: handleServerMessage_def resolvePending_def split: ServerMessage_Body.split option.split)

lemma inventory_call:
  assumes "ctl_step s ev s'" "ev \<noteq> Elsewhere"
  shows "inventory (edge s') = inventory (edge s)"
  using assms(1)
proof cases
  case (call_sent i ch net body e')
  then show ?thesis using inventory_send by (fastforce simp: ack_send_def split: prod.splits option.splits)
next
  case (call_failed i ch net body err e')
  then show ?thesis using inventory_send by (fastforce simp: ack_send_def split: prod.splits option.splits)
qed (use assms(2) in \<open>auto simp: nextCorrID_def ack_register_def ack_receive_def ack_timeout_def inventory_server Let_def
    split: list.splits\<close>)

lemma UpdateTimeseries_known:
  "UpdateTimeseries now key entry c = Some c' \<Longrightarrow> IsTimeseriesKnown c' k \<longleftrightarrow> k = key \<or> IsTimeseriesKnown c k"
  by (auto simp: UpdateTimeseries_def IsTimeseriesKnown_def Let_def split: option.splits)

text \<open>The scans of the known cache keep its series.\<close>

lemma scan_known:
  assumes "enumerates visit (known c)"
  shows "GetActiveTimeseriesBatch now visit old n c = (items, c') \<Longrightarrow> IsTimeseriesKnown c' k = IsTimeseriesKnown c k"
    and "GetInactiveTimeseriesBatch now visit n c = (ks, c') \<Longrightarrow> IsTimeseriesKnown c' k = IsTimeseriesKnown c k"
  using GetActiveTimeseriesBatch_eq [of visit now old n c] GetInactiveTimeseriesBatch_eq [of visit now n c]
    enumerates_distinct [OF assms]
  unfolding same_at_def IsTimeseriesKnown_def by (metis option.map_disc_iff snd_conv)+

lemma proc_keeps:
  assumes "proc_step done s pc ev s' pc'"
  shows "knows (edge s') k \<Longrightarrow> knows (edge s) k \<and> \<not> deletes k (Proc p ev)"
    and "waits (edge s) k \<Longrightarrow> waits (edge s') k \<or> (\<exists>ks. ev = Purged ks \<and> k \<in> set ks \<and> pc = Acked (ToPurge ks))"
proof -
  show "knows (edge s) k \<and> \<not> deletes k (Proc p ev)" if "knows (edge s') k"
    using assms
  proof cases
    case (p_active visit now sync activeItems c)
    then show ?thesis using that scan_known(1) by (simp add: knows_def set_known_def deletes_def)
  next
    case (p_inactive visit now inactiveKeys c activeItems)
    then show ?thesis using that scan_known(2) by (simp add: knows_def set_known_def deletes_def)
  qed (use that inventory_call in \<open>auto simp: knows_def deletes_def set_known_def set_discovered_def
      MarkSyncedBatch_lookup IsTimeseriesKnown_def DeleteBatch_lookup inventory_def split: if_splits\<close>)
  show "waits (edge s') k \<or> (\<exists>ks. ev = Purged ks \<and> k \<in> set ks \<and> pc = Acked (ToPurge ks))" if "waits (edge s) k"
    using assms by cases (use that inventory_call in \<open>auto simp: waits_def set_known_def set_discovered_def inventory_def
      fmlookup_dom_iff PurgeBatch_lookup split: if_splits\<close>)
qed

text \<open>The steps of the rest of the agent leave the caches alone.\<close>

lemma other_step_inventory:
  assumes "agent_step cfg hc lib a ev a'" "\<And>p pe. ev \<noteq> Proc p pe" "\<And>i. ev \<noteq> Fed i"
  shows "inventory (a_edge a') = inventory (a_edge a)
    \<and> (procs a' = procs a \<or> procs a' = procs a @ [LoopHead]) \<and> (feeds a' = feeds a \<or> (\<exists>ps. feeds a' = feeds a @ [(ps, Looking)]))"
  using assms(1)
proof cases
  case (step_hello nt)
  then show ?thesis using hello_effect [OF step_hello(3)] by (simp add: inventory_def)
next
  case (step_hello_failed nt)
  then show ?thesis using hello_effect [OF step_hello_failed(3)] by (simp add: inventory_def)
next
  case (step_beat p be e' pc')
  then show ?thesis by (auto simp: with_edge_def dest!: ping_step_send dest: inventory_send)
next
  case (step_received msg nt now snap)
  then show ?thesis by (simp add: recv_message_def with_edge_def inventory_server split: ServerMessage_Body.split)
next
  case (step_query i req u nt n w e' w' reqs)
  then show ?thesis using query_replies [OF step_query(4)] by (auto simp: with_edge_def)
next
  case (step_config i req os yaml run nt m f e' f' restart)
  then show ?thesis using config_replies [OF step_config(4)] by (auto simp: with_edge_def)
qed (use assms(2,3) in \<open>auto simp: connect_defs with_edge_def recv_routes_def recv_reply_def\<close>)

lemma updating_more:
  assumes "feeds a' = feeds a \<or> (\<exists>ps. feeds a' = feeds a @ [(ps, Looking)])" "updating a' k"
  shows "updating a k"
proof -
  obtain i x ps where "i < length (feeds a')" "feeds a' ! i = ((k, x) # ps, Updating)"
    using assms(2) by (auto simp: updating_def)
  then have "i < length (feeds a)" "feeds a ! i = ((k, x) # ps, Updating)"
    using assms(1) by (auto simp: nth_append less_Suc_eq split: if_splits)
  then show ?thesis by (auto simp: updating_def)
qed

text \<open>A critical section of a batch: a series is held because it was, or it waits now.\<close>

lemma feed_held:
  assumes "i < length (feeds a)" "feed_step (a_edge a) (feeds a ! i) e' f'"
    "held (with_edge (a\<lparr>feeds := (feeds a)[i := f']\<rparr>) e') k"
  shows "held a k \<or> waits e' k"
proof (cases "knows e' k")
  case True
  from assms(2) show ?thesis
  proof cases
    case (f_update now k' x c ps)
    then show ?thesis using True UpdateTimeseries_known [OF f_update(4)] assms(1)
      by (auto simp: held_def knows_def updating_def)
  qed (use True in \<open>auto simp: held_def knows_def\<close>)
next
  case False
  then obtain j x ps where j: "j < length (feeds a)" "(feeds a)[i := f'] ! j = ((k, x) # ps, Updating)"
    using assms(3) by (auto simp: held_def updating_def with_edge_def)
  show ?thesis
  proof (cases "j = i")
    case False
    then show ?thesis using j by (auto simp: held_def updating_def)
  next
    case True
    then have f': "f' = ((k, x) # ps, Updating)" using j by simp
    from assms(2) show ?thesis unfolding f'
      by cases (auto simp: held_def knows_def waits_def discovered_Add_def split: if_splits)
  qed
qed

lemma feed_waits: "feed_step e f e' f' \<Longrightarrow> waits e k \<Longrightarrow> waits e' k"
  by (erule feed_stepE) (auto simp: waits_def discovered_Add_def)

text \<open>When the backend was last told about a known series: only a mark of the processor changes it.\<close>

definition synced :: "edgeControllerExtension \<Rightarrow> HashKey \<Rightarrow> int option" where
  "synced e k = map_option LastBackendSync (fmlookup (known (knownTimeseriesCache e)) k)"

lemma knows_synced: "knows e k \<longleftrightarrow> synced e k \<noteq> None"
  by (simp add: knows_def synced_def IsTimeseriesKnown_def)

lemma same_at_synced:
  assumes "same_at C c c'"
  shows "map_option LastBackendSync (fmlookup (known c') k) = map_option LastBackendSync (fmlookup (known c) k)"
proof -
  have s: "map_option LastBackendSync x = map_option LastBackendSync (map_option (\<lambda>e. advanceRingBuffer e C) x)" for x
    by (cases x) simp_all
  show ?thesis using assms unfolding same_at_def by (metis s)
qed

lemma scan_synced:
  assumes "enumerates visit (known c)"
  shows "GetActiveTimeseriesBatch now visit old n c = (items, c') \<Longrightarrow>
      map_option LastBackendSync (fmlookup (known c') k) = map_option LastBackendSync (fmlookup (known c) k)"
    and "GetInactiveTimeseriesBatch now visit n c = (ks, c') \<Longrightarrow>
      map_option LastBackendSync (fmlookup (known c') k) = map_option LastBackendSync (fmlookup (known c) k)"
  using GetActiveTimeseriesBatch_eq [of visit now old n c] GetInactiveTimeseriesBatch_eq [of visit now n c]
    enumerates_distinct [OF assms] same_at_synced by (metis snd_conv)+

lemma proc_synced:
  assumes "proc_step done s pc ev s' pc'"
  shows "synced (edge s') k = synced (edge s) k
    \<or> (\<exists>ks act. ev = Deleted ks \<and> k \<in> set ks \<and> pc = Acked (ToDelete ks act) \<and> synced (edge s') k = None)
    \<or> (\<exists>ks. ev = Marked ks \<and> k \<in> set ks \<and> pc = Acked (ToMark ks) \<and> (synced (edge s') k = None \<longleftrightarrow> synced (edge s) k = None))"
  using assms
proof cases
  case (p_active visit now sync activeItems c)
  then show ?thesis using scan_synced(1) by (simp add: synced_def set_known_def)
next
  case (p_inactive visit now inactiveKeys c activeItems)
  then show ?thesis using scan_synced(2) by (simp add: synced_def set_known_def)
qed (use inventory_call in \<open>auto simp: synced_def set_known_def set_discovered_def
    MarkSyncedBatch_lookup DeleteBatch_lookup inventory_def option.map_comp comp_def\<close>)

lemma feed_synced: "feed_step e f e' f' \<Longrightarrow> synced e k \<noteq> None \<Longrightarrow> synced e' k = synced e k"
  by (erule feed_stepE) (auto simp: synced_def UpdateTimeseries_def store_slot_def Let_def split: option.splits if_splits)

section \<open>The invariant\<close>

definition inventory_inv :: "bool \<Rightarrow> agent_event list \<Rightarrow> agent \<Rightarrow> bool" where
  "inventory_inv r es a \<longleftrightarrow>
     (\<forall>k. held a k \<longrightarrow> waits (a_edge a) k \<or> announced (recent (scope r k) es) k)
     \<and> (\<forall>p < length (procs a). proc_ok r es p (procs a ! p))"

lemma purged_announced:
  assumes "proc_ok r es p (Acked (ToPurge ks))" "k \<in> set ks"
  shows "announced (recent (scope r k) es) k"
proof -
  obtain i ack body where b: "matches body (ToPurge ks)" "\<forall>x \<in> spans r (ToPurge ks). acked_call (recent x es) p i ack body"
    using assms(1) by auto
  then obtain ss where "body = AgentMessage_IndexCreate ss" "k \<in> ds_Fingerprint ` set ss" using assms(2) by auto
  moreover have "acked_call (recent (scope r k) es) p i ack body" using b(2) assms(2) by simp
  ultimately show ?thesis unfolding announced_def by blast
qed

text \<open>A deletion that meets nothing half done: no other processor is running, and no pipeline is
  about to update a deleted series it found known.\<close>

definition calm :: "agent \<Rightarrow> agent_event \<Rightarrow> bool" where
  "calm a ev \<longleftrightarrow> (\<forall>p ks. ev = Proc p (Deleted ks) \<longrightarrow>
     (\<forall>q < length (procs a). q \<noteq> p \<longrightarrow> procs a ! q = Ended) \<and> (\<forall>k \<in> set ks. \<not> updating a k))"

lemma spares_or_deletes: "spares r ev \<or> r \<and> (\<exists>p ks. ev = Proc p (Deleted ks))"
  by (auto simp: spares_def deletes_def)

lemma inv_proc_step:
  assumes inv: "inventory_inv r es a" and p: "p < length (procs a)"
    and step: "proc_step done (requests a) (procs a ! p) pe c' pc'" and al: "r \<Longrightarrow> calm a (Proc p pe)"
  shows "inventory_inv r (es @ [Proc p pe]) (a\<lparr>requests := c', procs := (procs a)[p := pc']\<rparr>)"
proof -
  let ?ev = "Proc p pe" and ?a' = "a\<lparr>requests := c', procs := (procs a)[p := pc']\<rparr>"
  have okp: "proc_ok r es p (procs a ! p)" using inv p by (simp add: inventory_inv_def)
  have "proc_ok r (es @ [?ev]) q ((procs a)[p := pc'] ! q)" if "q < length (procs a)" for q
  proof (cases "q = p")
    case True
    then show ?thesis using proc_ok_step [OF step okp] p by simp
  next
    case False
    have "spares r ?ev \<or> procs a ! q = Ended" using spares_or_deletes [of r ?ev] al that False by (auto simp: calm_def)
    then show ?thesis using False that inv proc_ok_later by (auto simp: inventory_inv_def)
  qed
  moreover have "waits (edge c') k \<or> announced (recent (scope r k) (es @ [?ev])) k" if "held ?a' k" for k
  proof -
    have k: "held a k" "r \<Longrightarrow> \<not> deletes k ?ev"
      using that proc_keeps(1) [OF step, of k p] al by (auto simp: held_def updating_def calm_def deletes_def)
    have rec: "recent (scope r k) (es @ [?ev]) = recent (scope r k) es @ [?ev]"
      using k(2) by (auto simp: recent_snoc scope_def)
    have "waits (a_edge a) k \<or> announced (recent (scope r k) es) k" using inv k(1) by (simp add: inventory_inv_def)
    then have "waits (edge c') k \<or> announced (recent (scope r k) es) k"
      using proc_keeps(2) [OF step, of k] purged_announced okp by metis
    then show ?thesis unfolding rec using announced_append by blast
  qed
  ultimately show ?thesis by (simp add: inventory_inv_def)
qed

lemma inv_feed_step:
  assumes inv: "inventory_inv r es a" and i: "i < length (feeds a)" and step: "feed_step (a_edge a) (feeds a ! i) e' f'"
  shows "inventory_inv r (es @ [Fed i]) (with_edge (a\<lparr>feeds := (feeds a)[i := f']\<rparr>) e')"
proof -
  let ?a' = "with_edge (a\<lparr>feeds := (feeds a)[i := f']\<rparr>) e'"
  have sp: "spares r (Fed i)" by (simp add: spares_def deletes_def)
  have "waits e' k \<or> announced (recent (scope r k) (es @ [Fed i])) k" if "held ?a' k" for k
    using feed_held [OF i step that] feed_waits [OF step] inv announced_append
    unfolding recent_scope [OF sp] inventory_inv_def by blast
  moreover have "proc_ok r (es @ [Fed i]) p (procs a ! p)" if "p < length (procs a)" for p
    using that inv proc_ok_later [OF _ sp] by (simp add: inventory_inv_def)
  ultimately show ?thesis by (simp add: inventory_inv_def with_edge_def)
qed

lemma inventory_inv_step:
  assumes inv: "inventory_inv r es a" and step: "agent_step cfg hc lib a ev a'" and al: "r \<Longrightarrow> calm a ev"
  shows "inventory_inv r (es @ [ev]) a'"
proof -
  consider (proc) p pe where "ev = Proc p pe" | (feed) i where "ev = Fed i" | (other) "\<And>p pe. ev \<noteq> Proc p pe" "\<And>i. ev \<noteq> Fed i"
    by blast
  then show ?thesis
  proof cases
    case proc
    from step show ?thesis unfolding proc by cases (use inv_proc_step [OF inv] al proc in auto)
  next
    case feed
    from step show ?thesis unfolding feed by cases (use inv_feed_step [OF inv] in auto)
  next
    case other
    note o = other_step_inventory [OF step other]
    have sp: "spares r ev" using other by (auto simp: spares_def deletes_def)
    have "proc_ok r (es @ [ev]) q (procs a' ! q)" if "q < length (procs a')" for q
      using o that inv proc_ok_later [OF _ sp] by (auto simp: inventory_inv_def nth_append)
    moreover have w: "knows (a_edge a') = knows (a_edge a)" "waits (a_edge a') = waits (a_edge a)"
      using o same_inventory [of "a_edge a'" "a_edge a"] by auto
    have h: "held a' k \<Longrightarrow> held a k" for k using updating_more [of a' a] o unfolding held_def w by blast
    have "waits (a_edge a') k \<or> announced (recent (scope r k) (es @ [ev])) k" if "held a' k" for k
      using h [OF that] inv announced_append unfolding recent_scope [OF sp] inventory_inv_def w by blast
    ultimately show ?thesis by (simp add: inventory_inv_def)
  qed
qed

text \<open>Runs whose deletions are all calm.\<close>

inductive calm_run ::
    "Config \<Rightarrow> ('u, 'w) store_http \<Rightarrow> 're regexp_lib \<Rightarrow> agent_event list \<Rightarrow> agent \<Rightarrow> bool"
  for cfg hc lib where
  calm_start: "ext_Start meters new_agent = (None, a) \<Longrightarrow> calm_run cfg hc lib [] a"
| calm_more: "calm_run cfg hc lib es a \<Longrightarrow> agent_step cfg hc lib a ev a' \<Longrightarrow> calm a ev \<Longrightarrow>
    calm_run cfg hc lib (es @ [ev]) a'"

lemma start_inventory:
  assumes "ext_Start meters new_agent = (None, a)"
  shows "inventory_inv r [] a"
proof -
  have "procs a = []" "feeds a = []" using assms
    by (auto simp: ext_Start_def Let_def registerMetrics_def new_agent_def with_edge_def split: option.splits prod.splits if_splits)
  then show ?thesis using start_fields(1) [OF assms]
    by (simp add: inventory_inv_def held_def updating_def knows_def IsTimeseriesKnown_def edge_Start_def
        newEdgeControllerExtension_def known_Init_def NewKnownTimeseriesCache_def)
qed

lemma run_inventory: "agent_run cfg hc lib es a \<Longrightarrow> inventory_inv False es a"
  by (induction rule: agent_run.induct) (use start_inventory inventory_inv_step in blast)+

lemma calm_run_inventory: "calm_run cfg hc lib es a \<Longrightarrow> inventory_inv True es a"
  by (induction rule: calm_run.induct) (use start_inventory inventory_inv_step in blast)+

text \<open>What a processor acts on was acknowledged, with the identifier of its own call.\<close>

definition answered_call :: "agent_event list \<Rightarrow> nat \<Rightarrow> AgentMessage_Body \<Rightarrow> bool" where
  "answered_call es p body \<longleftrightarrow> (\<exists>i ack. acked_call es p i ack body \<and> answered (map ctl_view es) i ack)"

lemma acted_after_ack:
  assumes run: "agent_run cfg hc lib es a" and few: "begins (map ctl_view es) < 2 ^ 64"
    and p: "p < length (procs a)" "procs a ! p = Acked f"
  shows "\<exists>body. matches body f \<and> answered_call es p body"
proof -
  have "proc_ok False es p (Acked f)" using run_inventory [OF run] p unfolding inventory_inv_def by metis
  then obtain i ack body where b: "matches body f" "acked_call (recent None es) p i ack body"
    unfolding proc_ok.simps using None_in_spans by blast
  then obtain u v where "es = u @ Proc p (Call (Returned i ack)) # v"
    unfolding acked_call_def by (metis Un_iff list.set_intros(2) recent_None set_append split_list)
  then have "answered (map ctl_view es) i ack"
    using ack_correlation [OF agent_ctl_run [OF run] few] answered_append [of "map ctl_view u" i ack] by simp
  then show ?thesis using b unfolding answered_call_def by auto
qed

text \<open>A step that is not a processor's takes nothing from the caches and marks nothing.\<close>

lemma taken_by_proc:
  assumes "agent_step cfg hc lib a ev a'"
    "waits (a_edge a) k \<and> \<not> waits (a_edge a') k \<or> synced (a_edge a) k \<noteq> None \<and> synced (a_edge a') k \<noteq> synced (a_edge a) k"
  shows "\<exists>p pe d. ev = Proc p pe \<and> p < length (procs a) \<and> (\<exists>pc'. proc_step d (requests a) (procs a ! p) pe (requests a') pc')"
proof -
  consider (proc) p pe where "ev = Proc p pe" | (feed) i where "ev = Fed i" | (other) "\<And>p pe. ev \<noteq> Proc p pe" "\<And>i. ev \<noteq> Fed i"
    by blast
  then show ?thesis
  proof cases
    case proc
    from assms(1) show ?thesis unfolding proc by cases auto
  next
    case feed
    have "\<exists>f'. feed_step (a_edge a) (feeds a ! i) (a_edge a') f'" using assms(1) unfolding feed by cases auto
    then show ?thesis using assms(2) feed_waits feed_synced by metis
  next
    case other
    from other_step_inventory [OF assms(1) other] assms(2) show ?thesis
      by (auto simp: inventory_def waits_def synced_def)
  qed
qed

section \<open>Properties\<close>

text \<open>
  C7: no series is lost on its way to the backend.  In every run of the agent, over any number of
  sessions, overlapping processors and pipelines, lost acknowledgements and reconnects: a series
  the agent knows either still waits to be announced, or was in an announcement the backend
  acknowledged.  When moreover every deletion is calm, the acknowledged announcement came after the
  series was last taken out of the known cache, so a series that comes back is announced again.
\<close>

theorem known_series_announced:
  assumes "agent_run cfg hc lib es a" "IsTimeseriesKnown (knownTimeseriesCache (a_edge a)) k"
  shows "(k |\<in>| fmdom (discovered (discoveredTimeseriesCache (a_edge a))) \<or> announced es k)
    \<and> (calm_run cfg hc lib es a \<longrightarrow>
        k |\<in>| fmdom (discovered (discoveredTimeseriesCache (a_edge a))) \<or> announced (recent (Some k) es) k)"
  using run_inventory [OF assms(1)] calm_run_inventory [of cfg hc lib es a] assms(2)
  by (auto simp: inventory_inv_def scope_def knows_def held_def waits_def)

text \<open>
  C15: the caches give up and mark series only on an acknowledgement.  Take any run with fewer than
  \<open>2^64\<close> calls and any step that follows it.  If a known series is no longer known after the step,
  then a message that deletes it was acknowledged, and the step is the deletion of exactly
  the series of that message; if a series no longer waits to be announced, then an announcement of
  it was acknowledged; and if the time of the last synchronisation of a series changed, then an update of
  it was acknowledged: by an acknowledgement that arrived under the identifier of that very call.
\<close>

theorem changes_acknowledged:
  assumes "agent_run cfg hc lib es a" "begins (map ctl_view es) < 2 ^ 64" "agent_step cfg hc lib a ev a'"
  shows "(IsTimeseriesKnown (knownTimeseriesCache (a_edge a)) k \<and> \<not> IsTimeseriesKnown (knownTimeseriesCache (a_edge a')) k \<longrightarrow>
        (\<exists>p ks. ev = Proc p (Deleted ks) \<and> k \<in> set ks \<and> answered_call es p (AgentMessage_IndexDelete ks)))
    \<and> (k |\<in>| fmdom (discovered (discoveredTimeseriesCache (a_edge a)))
       \<and> k |\<notin>| fmdom (discovered (discoveredTimeseriesCache (a_edge a'))) \<longrightarrow>
        (\<exists>p ss. answered_call es p (AgentMessage_IndexCreate ss) \<and> k \<in> ds_Fingerprint ` set ss))
    \<and> (\<forall>x x'. fmlookup (known (knownTimeseriesCache (a_edge a))) k = Some x \<and>
          fmlookup (known (knownTimeseriesCache (a_edge a'))) k = Some x' \<and> LastBackendSync x' \<noteq> LastBackendSync x \<longrightarrow>
        (\<exists>p us. answered_call es p (AgentMessage_IndexUpdate us) \<and> k \<in> as_Fingerprint ` set us))"
proof -
  note acted = acted_after_ack [OF assms(1,2)] and taken = taken_by_proc [OF assms(3), of k]
  have "\<exists>p ks. ev = Proc p (Deleted ks) \<and> k \<in> set ks \<and> answered_call es p (AgentMessage_IndexDelete ks)"
    if h: "synced (a_edge a) k \<noteq> None" "synced (a_edge a') k = None"
  proof -
    obtain p pe d pc' where p: "ev = Proc p pe" "p < length (procs a)" "proc_step d (requests a) (procs a ! p) pe (requests a') pc'"
      using taken h by auto
    then show ?thesis using proc_synced [OF p(3), of k] h acted [OF p(2)] by fastforce
  qed
  moreover have "\<exists>p ss. answered_call es p (AgentMessage_IndexCreate ss) \<and> k \<in> ds_Fingerprint ` set ss"
    if h: "waits (a_edge a) k" "\<not> waits (a_edge a') k"
  proof -
    obtain p pe d pc' where p: "ev = Proc p pe" "p < length (procs a)" "proc_step d (requests a) (procs a ! p) pe (requests a') pc'"
      using taken h by auto
    then obtain ks where "k \<in> set ks" "procs a ! p = Acked (ToPurge ks)" using proc_keeps(2) [OF p(3), of k] h by blast
    then show ?thesis using acted [OF p(2)] by fastforce
  qed
  moreover have "\<exists>p us. answered_call es p (AgentMessage_IndexUpdate us) \<and> k \<in> as_Fingerprint ` set us"
    if h: "synced (a_edge a) k = Some x" "synced (a_edge a') k = Some x'" "x' \<noteq> x" for x x'
  proof -
    obtain p pe d pc' where p: "ev = Proc p pe" "p < length (procs a)" "proc_step d (requests a) (procs a ! p) pe (requests a') pc'"
      using taken h by auto
    then obtain ks where "k \<in> set ks" "procs a ! p = Acked (ToMark ks)" using proc_synced [OF p(3), of k] h by auto
    then show ?thesis using acted [OF p(2)] by fastforce
  qed
  ultimately show ?thesis by (auto simp: synced_def IsTimeseriesKnown_def waits_def)
qed

section \<open>Examples\<close>

text \<open>The steps of the only processor of a session.\<close>

lemma run_proc0:
  assumes "agent_run cfg hc lib es (a\<lparr>requests := c, procs := [pc]\<rparr>)" "proc_step (ctx_done a 0) c pc ev c' pc'"
  shows "agent_run cfg hc lib (es @ [Proc 0 ev]) (a\<lparr>requests := c', procs := [pc']\<rparr>)"
proof -
  let ?a = "a\<lparr>requests := c, procs := [pc]\<rparr>"
  have "agent_step cfg hc lib ?a (Proc 0 ev) (?a\<lparr>requests := c', procs := (procs ?a)[0 := pc']\<rparr>)"
    using assms(2) by (intro step_proc) (simp_all add: ctx_done_def)
  from run_more [OF assms(1) this] show ?thesis by simp
qed

text \<open>The first batch of a session, announced and purged.\<close>

definition purged_events :: "agent_event list" where
  "purged_events = demo_call_events @ [Proc 0 (Purged [''k''])]"

definition no_discovered :: DiscoveredTimeseriesCache where
  "no_discovered = \<lparr>discovered = fmempty\<rparr>"

lemma purged_run:
  "\<exists>c. agent_run cfg hc lib purged_events (demo_fed\<lparr>requests := c, procs := [LoopHead]\<rparr>)
     \<and> ready_to_call (demo_fed\<lparr>requests := c\<rparr>) \<and> corrSeq (edge c) = 1
     \<and> knownTimeseriesCache (edge c) = first_known \<and> discoveredTimeseriesCache (edge c) = no_discovered"
proof -
  obtain c where c: "agent_run cfg hc lib demo_call_events (demo_fed\<lparr>requests := c, procs := [Acked (ToPurge [''k''])]\<rparr>)"
    "ready_to_call (demo_fed\<lparr>requests := c, procs := [Acked (ToPurge [''k''])]\<rparr>)" "corrSeq (edge c) = 1"
    "knownTimeseriesCache (edge c) = first_known"
    "discovered (discoveredTimeseriesCache (edge c)) = fmupd ''k'' first_entry fmempty"
    using demo_call_run by blast
  have "PurgeBatch [''k''] (discoveredTimeseriesCache (edge c)) = no_discovered"
    using c(5) by (cases "discoveredTimeseriesCache (edge c)") (auto simp: PurgeBatch_def no_discovered_def intro: fmap_ext)
  with run_proc0 [OF c(1) p_purge] c(2-4) show ?thesis
    by (intro exI [of _ "set_discovered c no_discovered"])
      (simp add: purged_events_def set_discovered_def ready_to_call_def)
qed

lemma undeleted_calm:
  "agent_run cfg hc lib es a \<Longrightarrow> \<forall>ev \<in> set es. \<forall>p ks. ev \<noteq> Proc p (Deleted ks) \<Longrightarrow> calm_run cfg hc lib es a"
proof (induction rule: agent_run.induct)
  case (run_more es a ev a')
  then show ?case using calm_more [of cfg hc lib es a ev a'] by (simp add: calm_def)
qed (rule calm_start)

lemmas example_events = purged_events_def demo_call_events_def fed_events_def demo_events_def call_trace_def sent_trace_def

text \<open>Witness of C7.\<close>

theorem known_series_announced_witness: "announced purged_events ''k'' \<and> announced (recent (Some ''k'') purged_events) ''k''"
proof -
  obtain c where c: "agent_run store_config echo_http literal_regexp purged_events (demo_fed\<lparr>requests := c, procs := [LoopHead]\<rparr>)"
    "knownTimeseriesCache (edge c) = first_known" "discoveredTimeseriesCache (edge c) = no_discovered"
    using purged_run by blast
  have "calm_run store_config echo_http literal_regexp purged_events (demo_fed\<lparr>requests := c, procs := [LoopHead]\<rparr>)"
    by (rule undeleted_calm [OF c(1)]) (simp add: example_events)
  moreover have "IsTimeseriesKnown first_known ''k''" by (simp add: IsTimeseriesKnown_def first_known_def)
  ultimately show ?thesis using known_series_announced [OF c(1), of "''k''"] c(2,3) by (simp add: no_discovered_def)
qed

text \<open>Witness of C15: the purge after the first announcement.\<close>

theorem changes_acknowledged_witness:
  "\<exists>p ss. answered_call demo_call_events p (AgentMessage_IndexCreate ss) \<and> ''k'' \<in> ds_Fingerprint ` set ss"
proof -
  obtain c where c: "agent_run store_config echo_http literal_regexp demo_call_events
      (demo_fed\<lparr>requests := c, procs := [Acked (ToPurge [''k''])]\<rparr>)" (is "agent_run _ _ _ _ ?a")
    "discovered (discoveredTimeseriesCache (edge c)) = fmupd ''k'' first_entry fmempty"
    using demo_call_run by blast
  let ?c' = "set_discovered c (PurgeBatch [''k''] (discoveredTimeseriesCache (edge c)))"
  have step: "agent_step store_config echo_http literal_regexp ?a (Proc 0 (Purged [''k'']))
    (?a\<lparr>requests := ?c', procs := (procs ?a)[0 := LoopHead]\<rparr>)"
    by (rule step_proc) (simp_all add: p_purge)
  have few: "begins (map ctl_view demo_call_events) < 2 ^ 64" by (simp add: example_events)
  from changes_acknowledged [OF c(1) few step, of "''k''"] show ?thesis
    using c(2) by (simp add: set_discovered_def fmlookup_dom_iff PurgeBatch_lookup)
qed

section \<open>A series that comes back too late\<close>

text \<open>Eight hours later the series is idle.  While the processor deletes it, its next sample
  arrives: the pipeline has looked it up before the deletion and updates it after.\<close>

definition idle_known :: KnownTimeseriesCache where
  "idle_known = snd (GetActiveTimeseriesBatch 28800 [''k''] 28740 30000 first_known)"

definition scanned_known :: KnownTimeseriesCache where
  "scanned_known = snd (GetInactiveTimeseriesBatch 28800 [''k''] 30000 idle_known)"

definition comeback_events :: "agent_event list" where
  "comeback_events = purged_events @ [BatchIn first_batch, Fed 1]
     @ [Proc 0 Scanned, Proc 0 Scanned, Proc 0 Scanned, Proc 0 Scanned]
     @ call_trace 0 2 (AgentMessage_IndexDelete [''k'']) demo_ack @ [Proc 0 (Deleted [''k'']), Fed 1]"

lemma idle_scans:
  "GetActiveTimeseriesBatch 28800 [''k''] 28740 30000 first_known = ([], idle_known)"
  "fst (GetInactiveTimeseriesBatch 28800 [''k''] 30000 idle_known) = [''k'']"
  "fmdom (known first_known) = {|''k''|}" "fmdom (known idle_known) = {|''k''|}"
  by code_simp+

lemma scanning_run:
  assumes run: "agent_run cfg hc lib es (a\<lparr>requests := c, procs := [LoopHead]\<rparr>)" and live: "\<not> ctx_done a 0"
    and c: "knownTimeseriesCache (edge c) = first_known" "discoveredTimeseriesCache (edge c) = no_discovered"
  shows "agent_run cfg hc lib (es @ [Proc 0 Scanned, Proc 0 Scanned, Proc 0 Scanned, Proc 0 Scanned])
    (a\<lparr>requests := set_known c scanned_known, procs := [Calling (AgentMessage_IndexDelete [''k'']) (ToDelete [''k''] [])]\<rparr>)"
proof -
  note 1 = run_proc0 [OF run p_check [OF live]]
  have d: "enumerates [] (discovered (discoveredTimeseriesCache (edge c)))"
    "GetBatch [] 5000 (discoveredTimeseriesCache (edge c)) = ([], [])"
    by (simp_all add: c no_discovered_def enumerates_def GetBatch_def map_len_def Let_def)
  note 2 = run_proc0 [OF 1 p_none [OF d]]
  have "enumerates [''k''] (known (knownTimeseriesCache (edge c)))" by (simp add: c enumerates_def idle_scans)
  from run_proc0 [OF 2 p_active [OF this, of 28800 28800]]
  have 3: "agent_run cfg hc lib (((es @ [Proc 0 Scanned]) @ [Proc 0 Scanned]) @ [Proc 0 Scanned])
      (a\<lparr>requests := set_known c idle_known, procs := [GotActive []]\<rparr>)" by (simp add: c idle_scans)
  have k: "GetInactiveTimeseriesBatch 28800 [''k''] 30000 idle_known = ([''k''], scanned_known)"
    using idle_scans(2) unfolding scanned_known_def by (metis prod.collapse)
  have "enumerates [''k''] (known (knownTimeseriesCache (edge (set_known c idle_known))))"
    by (simp add: set_known_def enumerates_def idle_scans)
  from run_proc0 [OF 3 p_inactive [OF this, of 28800]] k
  have "agent_run cfg hc lib ((((es @ [Proc 0 Scanned]) @ [Proc 0 Scanned]) @ [Proc 0 Scanned]) @ [Proc 0 Scanned])
      (a\<lparr>requests := set_known (set_known c idle_known) scanned_known, procs := [known_call [] [''k'']]\<rparr>)"
    by (simp add: set_known_def)
  then show ?thesis by (simp add: set_known_def known_call_def)
qed

lemma field_order:
  "feeds_update f (procs_update g a) = procs_update g (feeds_update f a)"
  "feeds_update f (requests_update h a) = requests_update h (feeds_update f a)"
  "requests_update h (procs_update g a) = procs_update g (requests_update h a)"
  for a :: agent
  by (cases a, simp)+

definition returning :: "feed_stage \<Rightarrow> agent" where
  "returning st = demo_fed\<lparr>feeds := [([], Looking), ([(''k'', first_entry)], st)]\<rparr>"

lemma looked_run:
  "\<exists>c. agent_run cfg hc lib (purged_events @ [BatchIn first_batch, Fed 1])
        ((returning Updating)\<lparr>requests := c, procs := [LoopHead]\<rparr>)
     \<and> ready_to_call (demo_fed\<lparr>requests := c\<rparr>) \<and> corrSeq (edge c) = 1
     \<and> knownTimeseriesCache (edge c) = first_known \<and> discoveredTimeseriesCache (edge c) = no_discovered"
proof -
  obtain c where c: "agent_run cfg hc lib purged_events (demo_fed\<lparr>requests := c, procs := [LoopHead]\<rparr>)"
    "ready_to_call (demo_fed\<lparr>requests := c\<rparr>)" "corrSeq (edge c) = 1"
    "knownTimeseriesCache (edge c) = first_known" "discoveredTimeseriesCache (edge c) = no_discovered"
    using purged_run by blast
  have fed: "feeds demo_fed = [([], Looking)]" "receivers demo_fed = [0]"
    using demo_serving_edge by (simp_all add: demo_fed_def with_edge_def)
  have "feed_of first_batch [(''k'', first_entry)]" by (simp add: feed_of_def first_batch_def)
  from run_more [OF c(1) step_batch [OF _ this]]
  have 1: "agent_run cfg hc lib (purged_events @ [BatchIn first_batch])
      ((returning Looking)\<lparr>requests := c, procs := [LoopHead]\<rparr>)" by (simp add: fed field_order returning_def)
  have "IsTimeseriesKnown (knownTimeseriesCache (edge c)) ''k''" by (simp add: c IsTimeseriesKnown_def first_known_def)
  with run_feed [OF 1, of 1 "edge c" "([(''k'', first_entry)], Updating)"] f_look [of "edge c" "''k''" first_entry "[]"]
  have "agent_run cfg hc lib (purged_events @ [BatchIn first_batch, Fed 1])
      ((returning Updating)\<lparr>requests := c, procs := [LoopHead]\<rparr>)"
    by (simp add: with_edge_def field_order returning_def)
  then show ?thesis using c(2-5) by blast
qed

lemma comeback_run:
  "\<exists>a. agent_run cfg hc lib comeback_events a \<and> IsTimeseriesKnown (knownTimeseriesCache (a_edge a)) ''k''
     \<and> ''k'' |\<notin>| fmdom (discovered (discoveredTimeseriesCache (a_edge a)))"
proof -
  let ?es = "purged_events @ [BatchIn first_batch, Fed 1]" and ?a = "returning Updating"
    and ?scans = "[Proc 0 Scanned, Proc 0 Scanned, Proc 0 Scanned, Proc 0 Scanned]"
    and ?pc = "Calling (AgentMessage_IndexDelete [''k'']) (ToDelete [''k''] [])"
  obtain c where c: "agent_run cfg hc lib ?es (?a\<lparr>requests := c, procs := [LoopHead]\<rparr>)"
    "ready_to_call (demo_fed\<lparr>requests := c\<rparr>)" "corrSeq (edge c) = 1"
    "knownTimeseriesCache (edge c) = first_known" "discoveredTimeseriesCache (edge c) = no_discovered"
    using looked_run by blast
  have "\<not> ctx_done ?a 0" using demo_serving_edge(4) by (simp add: returning_def demo_fed_def with_edge_def ctx_done_def)
  note 3 = scanning_run [OF c(1) this c(4,5)]
  let ?a3 = "?a\<lparr>requests := set_known c scanned_known, procs := [?pc]\<rparr>"
  have r: "ready_to_call ?a3" "0 < length (procs ?a3)" "procs ?a3 ! 0 = ?pc"
    "corrSeq (a_edge ?a3) + 1 = 2" "(2 :: 64 word) \<noteq> 0" using c(2,3) by (simp_all add: ready_to_call_def set_known_def returning_def)
  from call_run [OF 3 r, where ack = demo_ack] obtain c' where
    4: "agent_run cfg hc lib ((?es @ ?scans) @ call_trace 0 2 (AgentMessage_IndexDelete [''k'']) demo_ack)
      (?a\<lparr>requests := c', procs := [Acked (ToDelete [''k''] [])]\<rparr>)"
    and c': "discoveredTimeseriesCache (edge c') = no_discovered" using c(5) by (auto simp: set_known_def)
  let ?kn = "DeleteBatch [''k''] (knownTimeseriesCache (edge c'))"
  note 5 = run_proc0 [OF 4 p_delete]
  have none: "fmlookup (known ?kn) ''k'' = None" by simp
  have slot: "unat (head_of (hour_of 28800)) < 8" by code_simp
  obtain kn where kn: "UpdateTimeseries 28800 ''k'' first_entry ?kn = Some kn"
    using none by (simp add: UpdateTimeseries_def store_slot_def slot Let_def)
  from run_feed [OF 5, of 1] f_update [of 28800 "''k''" first_entry "edge (set_known c' ?kn)" kn "[]"] kn
  have "\<exists>fs. agent_run cfg hc lib comeback_events
      (with_edge (?a\<lparr>feeds := fs, requests := set_known c' ?kn, procs := [LoopHead]\<rparr>)
        ((edge (set_known c' ?kn))\<lparr>knownTimeseriesCache := kn\<rparr>))"
    by (intro exI [of _ "[([], Looking), ([], Looking)]"])
      (simp add: comeback_events_def set_known_def with_edge_def field_order returning_def)
  then show ?thesis using UpdateTimeseries_known [OF kn, of "''k''"] c'
    by (auto simp: set_known_def no_discovered_def)
qed

text \<open>
  C38: the deletion of an idle series races with its return.  There is a run of the agent, with one
  session and one processor, at the end of which a series is known and not waiting, although it
  was not announced since the backend acknowledged its deletion: the pipeline found it known, the
  processor deleted it, and the pipeline's update made it known again without adding it to the
  discovered ones.  It stays out of the backend's index until it has been idle once more.
\<close>

theorem comeback_not_announced:
  "\<exists>a. agent_run store_config echo_http literal_regexp comeback_events a
     \<and> IsTimeseriesKnown (knownTimeseriesCache (a_edge a)) ''k''
     \<and> ''k'' |\<notin>| fmdom (discovered (discoveredTimeseriesCache (a_edge a)))
     \<and> \<not> announced (recent (Some ''k'') comeback_events) ''k'' \<and> count_list comeback_events HelloSent = 1"
proof -
  have "recent (Some ''k'') comeback_events = [Fed 1]"
    by (simp add: recent_def comeback_events_def deletes_def)
  then have "\<not> announced (recent (Some ''k'') comeback_events) ''k''"
    by (auto simp: announced_def acked_call_def Cons_eq_append_conv)
  moreover have "count_list comeback_events HelloSent = 1" by (simp add: comeback_events_def example_events)
  ultimately show ?thesis using comeback_run [of store_config echo_http literal_regexp] by blast
qed

end
