(* ===== verification/Idle_Deletion.thy ===== *)
theory Idle_Deletion
  imports Inventory
begin

text \<open>
  Which series the agent forgets (\<open>processOneKnownBatch\<close> in
  \<open>src/components/edgecontroller/timeseries_processor.go\<close> over the step relation of the whole
  agent).  A turn of a processor scans the known cache for idle series, has their deletion
  acknowledged and then deletes them; between the scan and the deletion every other goroutine may
  act, pipelines included.

  The lemmas: a deleted series was idle when the turn scanned it, and that is all: a sample that
  arrives in between is forgotten with its series.
\<close>

section \<open>Paths\<close>

inductive agent_path ::
    "Config \<Rightarrow> ('u, 'w) store_http \<Rightarrow> 're regexp_lib \<Rightarrow> agent \<Rightarrow> agent_event list \<Rightarrow> agent \<Rightarrow> bool"
  for cfg hc lib a where
  path_here: "agent_path cfg hc lib a [] a"
| path_more: "agent_path cfg hc lib a es b \<Longrightarrow> agent_step cfg hc lib b ev b' \<Longrightarrow>
    agent_path cfg hc lib a (es @ [ev]) b'"

lemma run_path: "agent_path cfg hc lib b fs a \<Longrightarrow> agent_run cfg hc lib es b \<Longrightarrow> agent_run cfg hc lib (es @ fs) a"
proof (induction rule: agent_path.induct)
  case (path_more fs c ev c')
  then show ?case using run_more [of cfg hc lib "es @ fs" c ev c'] by simp
qed simp

section \<open>The scan\<close>

text \<open>A key with an empty window, as of the hour its buffer was last moved to.\<close>

definition empty_window :: "KnownTimeseriesCache \<Rightarrow> HashKey \<Rightarrow> bool" where
  "empty_window c k \<longleftrightarrow> (\<exists>x. fmlookup (known c) k = Some x \<and> sumSamples x = 0)"

lemma empty_window_other: "k' \<noteq> k \<Longrightarrow> empty_window (c\<lparr>known := fmupd k' x (known c)\<rparr>) k = empty_window c k"
  by (simp add: empty_window_def)

lemma inactive_loop_empty:
  assumes "inactive_loop n C visit keys c = (ks, c')" "distinct visit"
    "\<forall>k \<in> set keys. k \<notin> set visit \<and> empty_window c k"
  shows "\<forall>k \<in> set ks. empty_window c' k"
  using assms
proof (induction visit arbitrary: keys c)
  case (Cons k visit)
  show ?case
  proof (cases "n \<le> length keys \<or> fmlookup (known c) k = None")
    case True
    then show ?thesis using Cons by (auto split: if_splits)
  next
    case False
    then obtain x where x: "fmlookup (known c) k = Some x" "\<not> n \<le> length keys" by blast
    let ?e = "advanceRingBuffer x C"
    let ?c = "c\<lparr>known := fmupd k ?e (known c)\<rparr>" and ?keys = "if sumSamples ?e = 0 then keys @ [k] else keys"
    have "inactive_loop n C visit ?keys ?c = (ks, c')" using Cons.prems(1) x by (simp add: Let_def split: if_splits)
    moreover have "\<forall>k' \<in> set ?keys. k' \<notin> set visit \<and> empty_window ?c k'"
    proof
      fix k' assume "k' \<in> set ?keys"
      then consider "k' \<in> set keys" "k' \<noteq> k" | "k' = k" "sumSamples ?e = 0" using Cons.prems(3) by (auto split: if_splits)
      then show "k' \<notin> set visit \<and> empty_window ?c k'"
        using Cons.prems(2,3) empty_window_other [of k k'] by cases (auto simp: empty_window_def)
    qed
    ultimately show ?thesis using Cons.IH Cons.prems(2) by simp
  qed
qed auto

lemma inactive_scan_empty:
  assumes "enumerates visit (known c)" "GetInactiveTimeseriesBatch now visit n c = (ks, c')" "k \<in> set ks"
  shows "empty_window c' k"
  using inactive_loop_empty [of "nat n" "hour_of now" visit "[]" c ks c'] enumerates_distinct [OF assms(1)] assms(2,3)
  by (auto simp: GetInactiveTimeseriesBatch_def split: if_splits)

section \<open>From the scan to the deletion\<close>

text \<open>The keys a processor is about to delete, from the scan on.\<close>

fun to_delete :: "proc \<Rightarrow> HashKey list option" where
  "to_delete (Calling body (ToDelete ks act)) = Some ks"
| "to_delete (Numbered i body (ToDelete ks act)) = Some ks"
| "to_delete (Entered i body (ToDelete ks act)) = Some ks"
| "to_delete (AwaitingAck i (ToDelete ks act)) = Some ks"
| "to_delete (Acked (ToDelete ks act)) = Some ks"
| "to_delete pc = None"

text \<open>This turn's scan found the windows of these keys empty: a state this run went through, with
  no other scan of the processor since.\<close>

definition scanned_empty ::
    "Config \<Rightarrow> ('u, 'w) store_http \<Rightarrow> 're regexp_lib \<Rightarrow> agent_event list \<Rightarrow> agent \<Rightarrow> nat \<Rightarrow> HashKey list \<Rightarrow> bool" where
  "scanned_empty cfg hc lib es a p ks \<longleftrightarrow>
     (\<exists>es1 a1 a2 es2. es = es1 @ Proc p Scanned # es2 \<and> Proc p Scanned \<notin> set es2
        \<and> agent_run cfg hc lib es1 a1 \<and> agent_step cfg hc lib a1 (Proc p Scanned) a2 \<and> agent_path cfg hc lib a2 es2 a
        \<and> (\<forall>k \<in> set ks. empty_window (knownTimeseriesCache (a_edge a2)) k))"

lemma scanned_empty_later:
  assumes "scanned_empty cfg hc lib es a p ks" "agent_step cfg hc lib a ev a'" "ev \<noteq> Proc p Scanned"
  shows "scanned_empty cfg hc lib (es @ [ev]) a' p ks"
proof -
  obtain es1 a1 a2 es2 where s: "es = es1 @ Proc p Scanned # es2" "Proc p Scanned \<notin> set es2"
    "agent_run cfg hc lib es1 a1" "agent_step cfg hc lib a1 (Proc p Scanned) a2" "agent_path cfg hc lib a2 es2 a"
    "\<forall>k \<in> set ks. empty_window (knownTimeseriesCache (a_edge a2)) k"
    using assms(1) unfolding scanned_empty_def by blast
  have "es @ [ev] = es1 @ Proc p Scanned # (es2 @ [ev])" "Proc p Scanned \<notin> set (es2 @ [ev])" using s(1,2) assms(3) by auto
  then show ?thesis using s(3,4,6) path_more [OF s(5) assms(2)] unfolding scanned_empty_def by blast
qed

text \<open>A step of the processor keeps its keys, drops them, or takes new ones from a scan.\<close>

lemma to_delete_step:
  assumes "proc_step done s pc ev s' pc'" "to_delete pc' = Some ks"
  shows "to_delete pc = Some ks \<and> ev \<noteq> Scanned \<or> ev = Scanned \<and> (\<forall>k \<in> set ks. empty_window (knownTimeseriesCache (edge s')) k)"
  using assms(1)
proof cases
  case (p_inactive visit now inactiveKeys c activeItems)
  then have "ks = inactiveKeys" using assms(2) by (simp add: known_call_def update_call_def split: if_splits)
  then show ?thesis using p_inactive inactive_scan_empty [OF p_inactive(5,6)] by (simp add: set_known_def)
next
  case (p_drawn i body f)
  then show ?thesis using assms(2) by (cases f) simp_all
next
  case (p_begun i body f)
  then show ?thesis using assms(2) by (cases f) simp_all
next
  case (p_sent i body f)
  then show ?thesis using assms(2) by (cases f) simp_all
next
  case (p_returned i ack f)
  then show ?thesis using assms(2) by (cases f) simp_all
qed (use assms(2) in \<open>simp_all add: update_call_def split: if_splits\<close>)

lemma deletions_scanned:
  assumes "agent_run cfg hc lib es a" "p < length (procs a)" "to_delete (procs a ! p) = Some ks"
  shows "scanned_empty cfg hc lib es a p ks"
  using assms
proof (induction arbitrary: p ks rule: agent_run.induct)
  case (run_start meters a)
  then have "procs a = []"
    by (auto simp: ext_Start_def Let_def registerMetrics_def new_agent_def with_edge_def split: option.splits prod.splits if_splits)
  then show ?case using run_start.prems by simp
next
  case (run_more es a ev a')
  have other: ?case if "p < length (procs a)" "procs a' ! p = procs a ! p" "ev \<noteq> Proc p Scanned"
    using scanned_empty_later [OF run_more.IH run_more.hyps(2) that(3)] that run_more.prems(2) by simp
  show ?case
  proof (cases "\<exists>q pe. ev = Proc q pe")
    case False
    show ?thesis
    proof (cases "\<exists>i. ev = Fed i")
      case True
      then obtain i where "ev = Fed i" by blast
      with run_more.hyps(2) have "agent_step cfg hc lib a (Fed i) a'" by simp
      then have "procs a' = procs a" by cases simp
      then show ?thesis using other run_more.prems False by auto
    next
      case notfed: False
      have "procs a' = procs a \<or> procs a' = procs a @ [LoopHead]"
        using other_step_inventory [OF run_more.hyps(2)] False notfed by blast
      then have "p < length (procs a) \<and> procs a' ! p = procs a ! p"
        using run_more.prems by (auto simp: nth_append less_Suc_eq split: if_splits)
      then show ?thesis using other False by blast
    qed
  next
    case True
    then obtain q pe where ev: "ev = Proc q pe" by blast
    from run_more.hyps(2) obtain d pc' where st: "q < length (procs a)" "procs a' = (procs a)[q := pc']"
      "proc_step d (requests a) (procs a ! q) pe (requests a') pc'" unfolding ev by cases auto
    show ?thesis
    proof (cases "p = q")
      case False
      then show ?thesis using other st(2) run_more.prems(1) ev by simp
    next
      case True
      then have "to_delete pc' = Some ks" using run_more.prems st(1,2) by simp
      from to_delete_step [OF st(3) this] show ?thesis
      proof
        assume "to_delete (procs a ! q) = Some ks \<and> pe \<noteq> Scanned"
        then show ?thesis using scanned_empty_later [OF run_more.IH run_more.hyps(2)] st(1) True ev by simp
      next
        assume "pe = Scanned \<and> (\<forall>k \<in> set ks. empty_window (knownTimeseriesCache (edge (requests a'))) k)"
        then show ?thesis using run_more.hyps path_here [of cfg hc lib a'] ev True unfolding scanned_empty_def
          by (intro exI [of _ es] exI [of _ a] exI [of _ a'] exI [of _ "[]"]) simp
      qed
    qed
  qed
qed

section \<open>Properties\<close>

text \<open>
  C16: the agent forgets only series it found idle.  Take any run and any step after it.  If a known
  series is not known any more after the step, then the step is a deletion by a processor, and in
  this very turn of that processor the run went through a scan after which the series was known and
  its ring buffer, moved to the hour of the scan, had total zero.  (Samples that arrive between that scan and the
  deletion are not looked at: \<open>fresh_sample_forgotten\<close>.)
\<close>

theorem deleted_were_idle:
  assumes "agent_run cfg hc lib es a" "agent_step cfg hc lib a ev a'"
    "IsTimeseriesKnown (knownTimeseriesCache (a_edge a)) k" "\<not> IsTimeseriesKnown (knownTimeseriesCache (a_edge a')) k"
  shows "\<exists>p ks es1 a1 a2 es2 x. ev = Proc p (Deleted ks) \<and> k \<in> set ks
    \<and> es = es1 @ Proc p Scanned # es2 \<and> Proc p Scanned \<notin> set es2
    \<and> agent_run cfg hc lib es1 a1 \<and> agent_step cfg hc lib a1 (Proc p Scanned) a2 \<and> agent_path cfg hc lib a2 es2 a
    \<and> fmlookup (known (knownTimeseriesCache (a_edge a2))) k = Some x \<and> sumSamples x = 0"
proof -
  have gone: "synced (a_edge a) k \<noteq> None" "synced (a_edge a') k = None"
    using assms(3,4) by (simp_all add: synced_def IsTimeseriesKnown_def)
  then obtain p pe d pc' where p: "ev = Proc p pe" "p < length (procs a)" "proc_step d (requests a) (procs a ! p) pe (requests a') pc'"
    using taken_by_proc [OF assms(2), of k] by auto
  then obtain ks act where ks: "pe = Deleted ks" "k \<in> set ks" "procs a ! p = Acked (ToDelete ks act)"
    using proc_synced [OF p(3), of k] gone by auto
  then have "scanned_empty cfg hc lib es a p ks" using deletions_scanned [OF assms(1) p(2)] by simp
  then show ?thesis using p(1) ks(1,2) unfolding scanned_empty_def empty_window_def by blast
qed

section \<open>A sample that arrives after the scan\<close>

text \<open>Eight hours later the series is idle and the scan finds it.  While the processor waits for the
  acknowledgement, a sample of the series arrives and is counted.\<close>

definition fresh_known :: KnownTimeseriesCache where
  "fresh_known = \<lparr>known = fmupd ''k'' \<lparr>known_MetricName = ''up'', LastUpdate = 28800, LastBackendSync = 0, lastHour = 8,
     head = 0, samples = [1, 0, 0, 0, 0, 0, 0, 0]\<rparr> fmempty\<rparr>"

definition forgotten_events :: "agent_event list" where
  "forgotten_events = ((purged_events @ [Proc 0 Scanned, Proc 0 Scanned, Proc 0 Scanned, Proc 0 Scanned])
     @ [BatchIn first_batch, Fed 1, Fed 1]) @ call_trace 0 2 (AgentMessage_IndexDelete [''k'']) demo_ack"

lemma fresh_update:
  "UpdateTimeseries 28800 ''k'' first_entry scanned_known = Some fresh_known" "IsTimeseriesKnown scanned_known ''k''"
  "sumSamples (the (fmlookup (known fresh_known) ''k'')) = 1" "hour_of 28800 = 8"
  by code_simp+

lemma forgotten_run:
  "\<exists>c. agent_run cfg hc lib forgotten_events ((returning Looking)\<lparr>feeds := [([], Looking), ([], Looking)],
        requests := c, procs := [Acked (ToDelete [''k''] [])]\<rparr>)
     \<and> knownTimeseriesCache (edge c) = fresh_known \<and> discoveredTimeseriesCache (edge c) = no_discovered"
proof -
  let ?es = "purged_events @ [Proc 0 Scanned, Proc 0 Scanned, Proc 0 Scanned, Proc 0 Scanned]"
    and ?pc = "Calling (AgentMessage_IndexDelete [''k'']) (ToDelete [''k''] [])"
  obtain c where c: "agent_run cfg hc lib purged_events (demo_fed\<lparr>requests := c, procs := [LoopHead]\<rparr>)"
    "ready_to_call (demo_fed\<lparr>requests := c\<rparr>)" "corrSeq (edge c) = 1"
    "knownTimeseriesCache (edge c) = first_known" "discoveredTimeseriesCache (edge c) = no_discovered"
    using purged_run by blast
  have "\<not> ctx_done demo_fed 0" using demo_serving_edge(4) by (simp add: demo_fed_def with_edge_def ctx_done_def)
  note 1 = scanning_run [OF c(1) this c(4,5)]
  have fed: "feeds demo_fed = [([], Looking)]" "receivers demo_fed = [0]"
    using demo_serving_edge by (simp_all add: demo_fed_def with_edge_def)
  have "feed_of first_batch [(''k'', first_entry)]" by (simp add: feed_of_def first_batch_def)
  from run_more [OF 1 step_batch [OF _ this]]
  have 2: "agent_run cfg hc lib (?es @ [BatchIn first_batch])
      ((returning Looking)\<lparr>requests := set_known c scanned_known, procs := [?pc]\<rparr>)" by (simp add: fed field_order returning_def)
  let ?e = "edge (set_known c scanned_known)"
  have known: "knownTimeseriesCache ?e = scanned_known" by (simp add: set_known_def)
  from run_feed [OF 2, of 1 ?e "([(''k'', first_entry)], Updating)"] f_look [of ?e "''k''" first_entry "[]"]
  have 3: "agent_run cfg hc lib (?es @ [BatchIn first_batch, Fed 1])
      ((returning Updating)\<lparr>requests := set_known c scanned_known, procs := [?pc]\<rparr>)"
    by (simp add: known fresh_update with_edge_def field_order returning_def)
  let ?c = "set_known c fresh_known" and ?a = "(returning Looking)\<lparr>feeds := [([], Looking), ([], Looking)]\<rparr>"
  from run_feed [OF 3, of 1] f_update [of 28800 "''k''" first_entry ?e fresh_known "[]"]
  have 4: "agent_run cfg hc lib (?es @ [BatchIn first_batch, Fed 1, Fed 1]) (?a\<lparr>requests := ?c, procs := [?pc]\<rparr>)"
    by (simp add: known fresh_update with_edge_def field_order returning_def set_known_def)
  have "ready_to_call (?a\<lparr>requests := ?c, procs := [?pc]\<rparr>)" "0 < length [?pc]" "(2 :: 64 word) \<noteq> 0"
    using c(2) by (simp_all add: ready_to_call_def set_known_def returning_def)
  with call_run [OF 4, of 0 _ _ 2 demo_ack] c(3,5) show ?thesis
    by (auto simp: forgotten_events_def set_known_def)
qed


text \<open>Witness of C16: the scan that found the series idle before it was deleted.\<close>

theorem deleted_were_idle_witness:
  "\<exists>a2 x. fmlookup (known (knownTimeseriesCache (a_edge a2))) ''k'' = Some x \<and> sumSamples x = 0"
proof -
  obtain c where c: "agent_run store_config echo_http literal_regexp forgotten_events
      ((returning Looking)\<lparr>feeds := [([], Looking), ([], Looking)], requests := c, procs := [Acked (ToDelete [''k''] [])]\<rparr>)"
      (is "agent_run _ _ _ _ ?a")
    "knownTimeseriesCache (edge c) = fresh_known"
    using forgotten_run by blast
  let ?a' = "?a\<lparr>requests := set_known c (DeleteBatch [''k''] (knownTimeseriesCache (edge c))), procs := (procs ?a)[0 := LoopHead]\<rparr>"
  have "agent_step store_config echo_http literal_regexp ?a (Proc 0 (Deleted [''k''])) ?a'"
    using p_delete [of _ c "[''k'']" "[]"] by (intro step_proc) simp_all
  moreover have "IsTimeseriesKnown (knownTimeseriesCache (a_edge ?a)) ''k''" "\<not> IsTimeseriesKnown (knownTimeseriesCache (a_edge ?a')) ''k''"
    using c(2) by (simp_all add: fresh_known_def IsTimeseriesKnown_def set_known_def)
  ultimately show ?thesis using deleted_were_idle [OF c(1)] by blast
qed

end
