(* ===== verification/Shutdown.thy ===== *)
theory Shutdown
  imports Control_Stream
begin

text \<open>
  The end of the agent (\<open>Shutdown\<close> in \<open>src/components/edgecontroller/extension.go\<close>).
  \<open>Shutdown\<close> cancels the root context and waits for the goroutines of its wait group: the
  connection loop, the timeseries processors, and the query and configuration jobs.  (The
  heartbeats and the batches of the pipelines are not waited for.)

  The lemmas: every call of a timeseries processor is where its program counter says, so the
  processor always has a next step; a cancelled processor has a bounded number of them; and
  from every state after a shutdown the wait can come to its end.
\<close>

section \<open>A cancelled processor\<close>

text \<open>The steps a processor still has when its context is cancelled.\<close>

fun follow_rank :: "follow_up \<Rightarrow> nat" where
  "follow_rank (ToDelete keys items) = 8"
| "follow_rank _ = 2"

fun proc_rank :: "proc \<Rightarrow> nat" where
  "proc_rank Ended = 0"
| "proc_rank LoopHead = 1"
| "proc_rank (Acked f) = follow_rank f"
| "proc_rank (AwaitingAck i f) = follow_rank f + 1"
| "proc_rank (Entered i body f) = follow_rank f + 2"
| "proc_rank (Numbered i body f) = follow_rank f + 3"
| "proc_rank (Calling body f) = follow_rank f + 4"
| "proc_rank (Between items) = 7"
| "proc_rank (GotActive items) = 13"
| "proc_rank NoneDiscovered = 14"
| "proc_rank Checked = 15"

lemma follow_rank_pos [simp]: "0 < follow_rank f" "Suc 0 < follow_rank f"
  by (cases f; simp)+

lemma proc_rank_bound: "proc_rank pc \<le> 15"
proof (cases pc)
  case (Acked f) then show ?thesis by (cases f) simp_all
next
  case (AwaitingAck i f) then show ?thesis by (cases f) simp_all
next
  case (Entered i b f) then show ?thesis by (cases f) simp_all
next
  case (Numbered i b f) then show ?thesis by (cases f) simp_all
next
  case (Calling b f) then show ?thesis by (cases f) simp_all
qed simp_all

lemma proc_rank_step: "proc_step True s pc ev s' pc' \<Longrightarrow> proc_rank pc' < proc_rank pc"
  by (erule proc_stepE) (auto simp: known_call_def update_call_def)

section \<open>Where the calls are\<close>

fun holds :: "proc \<Rightarrow> 64 word option" where
  "holds (Numbered i body f) = Some i"
| "holds (Entered i body f) = Some i"
| "holds (AwaitingAck i f) = Some i"
| "holds _ = None"

fun placed :: "ctl \<Rightarrow> proc \<Rightarrow> bool" where
  "placed c (Numbered i body f) \<longleftrightarrow> i \<in> drawn c"
| "placed c (Entered i body f) \<longleftrightarrow> i \<in> fst ` sending c"
| "placed c (AwaitingAck i f) \<longleftrightarrow> i \<in> fst ` calls c"
| "placed c _ \<longleftrightarrow> True"

lemma placed_held: "placed c pc \<Longrightarrow> holds pc = Some i \<Longrightarrow> i \<in> drawn c \<union> fst ` live c"
  by (cases pc) (auto simp: live_def image_Un)

text \<open>A step of a processor puts its own call where the counter goes, and leaves the others.\<close>

lemma placed_step:
  assumes "proc_step done c pc ev c' pc'"
  shows "placed c' pc'"
  using assms by cases (auto simp: known_call_def update_call_def elim!: ctl_stepE)

text \<open>The identifier whose call a step of the requests moves or ends.\<close>

fun moves_call :: "ctl_event \<Rightarrow> 64 word option" where
  "moves_call (Begun i) = Some i"
| "moves_call (Sent i body) = Some i"
| "moves_call (SendFailed i) = Some i"
| "moves_call (Returned i a) = Some i"
| "moves_call (TimedOut i) = Some i"
| "moves_call _ = None"

lemma image_fst_diff: "j \<noteq> i \<Longrightarrow> i \<in> fst ` (A - {(j, ch)}) \<longleftrightarrow> i \<in> fst ` A"
  by force

lemma ctl_keeps:
  assumes "ctl_step c ev c'" "moves_call ev \<noteq> Some i"
  shows "i \<in> drawn c \<Longrightarrow> i \<in> drawn c'" "i \<in> fst ` sending c \<Longrightarrow> i \<in> fst ` sending c'"
    "i \<in> fst ` calls c \<Longrightarrow> i \<in> fst ` calls c'"
  using assms by (cases, simp_all add: image_fst_diff)+

lemma proc_moves_own: "proc_step done c pc ev c' pc' \<Longrightarrow> moves_call (call_view ev) = Some i \<Longrightarrow> holds pc = Some i"
  by (erule proc_stepE) auto

lemma placed_kept:
  assumes "ctl_step c ev c'" "placed c x" "\<And>i. holds x = Some i \<Longrightarrow> moves_call ev \<noteq> Some i"
  shows "placed c' x"
  using assms(2,3) ctl_keeps [OF assms(1)] by (cases x) simp_all

section \<open>The calls of all processors\<close>

text \<open>Every processor's call is where its counter says, and no two processors have the same.\<close>

definition calls_inv :: "agent \<Rightarrow> bool" where
  "calls_inv a \<longleftrightarrow> (\<forall>pc \<in> set (procs a). placed (requests a) pc)
     \<and> (\<forall>p q i. p < length (procs a) \<longrightarrow> q < length (procs a) \<longrightarrow> holds (procs a ! p) = Some i \<longrightarrow>
          holds (procs a ! q) = Some i \<longrightarrow> p = q)"

text \<open>A fresh identifier is held by no processor.\<close>

lemma fresh_not_held:
  assumes inv: "ctl_inv es c" and few: "Suc (begins es) < 2 ^ 64" and at: "placed c pc"
  shows "holds pc \<noteq> Some (corrSeq (edge c) + 1)"
proof
  assume h: "holds pc = Some (corrSeq (edge c) + 1)"
  have seq: "unat (corrSeq (edge c)) = begins es" using inv by (simp add: ctl_inv_def ids_ok_def)
  have "unat i \<le> begins es" if "i \<in> drawn c \<union> fst ` live c" for i
    using that inv ctl_inv_call [OF inv] by (auto simp: ctl_inv_def ids_ok_def call_ok_def)
  from this [OF placed_held [OF at h]] corr_next [OF seq few] show False by simp
qed

lemma proc_holds:
  assumes "proc_step done c pc ev c' pc'" "holds pc' = Some i"
  shows "holds pc = Some i \<or> ev = Call (Drawn i) \<and> i = corrSeq (edge c) + 1"
  using assms by cases (auto simp: nextCorrID_def known_call_def update_call_def elim!: ctl_stepE split: if_splits)

lemma calls_inv_proc:
  assumes inv: "calls_inv a" and p: "p < length (procs a)" and step: "proc_step done (requests a) (procs a ! p) ev c' pc'"
    and ctl: "ctl_inv es (requests a)" and few: "begins (es @ [call_view ev]) < 2 ^ 64"
  shows "calls_inv (a\<lparr>requests := c', procs := (procs a)[p := pc']\<rparr>)"
proof -
  have at: "placed (requests a) (procs a ! q)" if "q < length (procs a)" for q using inv that by (simp add: calls_inv_def)
  have one: "q = p" if "q < length (procs a)" "holds (procs a ! p) = Some i" "holds (procs a ! q) = Some i" for q i
    using inv that p by (auto simp: calls_inv_def)
  have "placed c' ((procs a)[p := pc'] ! q)" if q: "q < length (procs a)" for q
  proof (cases "q = p")
    case True
    then show ?thesis using placed_step [OF step] q by simp
  next
    case False
    then show ?thesis using placed_kept [OF proc_ctl_step [OF step] at [OF q]] proc_moves_own [OF step] one [OF q] by auto
  qed
  moreover have new: "holds (procs a ! q) \<noteq> Some i" if "holds pc' = Some i" "q < length (procs a)" "q \<noteq> p" for q i
    using proc_holds [OF step that(1)]
  proof
    assume "holds (procs a ! p) = Some i"
    then show ?thesis using one [OF that(2)] that(3) by blast
  next
    assume "ev = Call (Drawn i) \<and> i = corrSeq (edge (requests a)) + 1"
    then show ?thesis using fresh_not_held [OF ctl _ at [OF that(2)]] few by simp
  qed
  moreover have "q = q'" if "q < length (procs a)" "q' < length (procs a)" "holds ((procs a)[p := pc'] ! q) = Some i"
    "holds ((procs a)[p := pc'] ! q') = Some i" for q q' i
    using that inv new [of i q] new [of i q'] p by (cases "q = p"; cases "q' = p") (auto simp: calls_inv_def)
  ultimately show ?thesis by (simp add: calls_inv_def all_set_conv_all_nth)
qed

lemma other_step_procs:
  assumes "agent_step cfg hc lib a ev a'" "\<And>p pe. ev \<noteq> Proc p pe"
  shows "procs a' = procs a \<or> procs a' = procs a @ [LoopHead]"
  using assms(1)
proof cases
  case (step_hello nt)
  then show ?thesis using hello_effect [OF step_hello(3)] by simp
next
  case (step_hello_failed nt)
  then show ?thesis using hello_effect [OF step_hello_failed(3)] by simp
qed (use assms(2) in \<open>auto simp: connect_defs recv_message_def recv_routes_def recv_reply_def with_edge_def
    split: ServerMessage_Body.split\<close>)

lemma calls_inv_other:
  assumes inv: "calls_inv a" and step: "agent_step cfg hc lib a ev a'" and other: "\<And>p pe. ev \<noteq> Proc p pe"
  shows "calls_inv a'"
proof -
  have "moves_call (ctl_view ev) = None" using other by (cases ev) (auto split: ServerMessage_Body.split)
  then have "placed (requests a') pc" if "placed (requests a) pc" for pc
    using placed_kept [OF agent_ctl_step [OF step] that] by simp
  then show ?thesis using inv other_step_procs [OF step other]
    by (auto simp: calls_inv_def nth_append less_Suc_eq split: if_splits)
qed

lemma run_calls_inv: "agent_run cfg hc lib es a \<Longrightarrow> begins (map ctl_view es) < 2 ^ 64 \<Longrightarrow> calls_inv a"
proof (induction rule: agent_run.induct)
  case (run_start meters a)
  then have "procs a = []"
    by (auto simp: ext_Start_def Let_def registerMetrics_def new_agent_def with_edge_def split: option.splits prod.splits if_splits)
  then show ?case by (simp add: calls_inv_def)
next
  case (run_more es a ev a')
  have few: "begins (map ctl_view es @ [ctl_view ev]) < 2 ^ 64" using run_more.prems by simp
  then have inv: "calls_inv a" and ctl: "ctl_inv (map ctl_view es) (requests a)"
    using run_more.IH ctl_run_inv [OF agent_ctl_run [OF run_more.hyps(1)]] by simp_all
  show ?case
  proof (cases "\<exists>p pe. ev = Proc p pe")
    case True
    then obtain p pe where ev: "ev = Proc p pe" by blast
    from run_more.hyps(2) show ?thesis unfolding ev
      by cases (use calls_inv_proc [OF inv _ _ ctl] few ev in auto)
  next
    case False
    then show ?thesis using calls_inv_other [OF inv run_more.hyps(2)] by blast
  qed
qed

section \<open>A processor can end\<close>

inductive proc_path :: "ctl \<Rightarrow> proc \<Rightarrow> proc_event list \<Rightarrow> ctl \<Rightarrow> proc \<Rightarrow> bool" where
  path_here: "proc_path c pc [] c pc"
| path_step: "proc_step True c pc ev c' pc' \<Longrightarrow> proc_path c' pc' evs c'' pc'' \<Longrightarrow> proc_path c pc (ev # evs) c'' pc''"

text \<open>From the points in front of a call at most one more identifier is drawn, because the send
  may fail.\<close>

definition can_end :: "nat \<Rightarrow> ctl \<Rightarrow> proc \<Rightarrow> bool" where
  "can_end n c pc \<longleftrightarrow> (\<exists>evs c'. proc_path c pc evs c' Ended \<and> begins (map call_view evs) \<le> n \<and> jobs (edge c') = jobs (edge c))"

lemma can_end_step:
  assumes "proc_step True c pc ev c' pc'" "can_end n c' pc'" "begins [call_view ev] \<le> m" "jobs (edge c') = jobs (edge c)"
  shows "can_end (m + n) c pc"
proof -
  obtain evs c'' where "proc_path c' pc' evs c'' Ended" "begins (map call_view evs) \<le> n" "jobs (edge c'') = jobs (edge c')"
    using assms(2) by (auto simp: can_end_def)
  moreover have "begins (map call_view (ev # evs)) = begins [call_view ev] + begins (map call_view evs)"
    using begins_append [of "[call_view ev]" "map call_view evs"] by simp
  ultimately show ?thesis unfolding can_end_def
    by (intro exI [of _ "ev # evs"] exI [of _ c'']) (use assms in \<open>auto intro: path_step\<close>)
qed

lemma can_end_mono: "can_end n c pc \<Longrightarrow> n \<le> m \<Longrightarrow> can_end m c pc"
  unfolding can_end_def using le_trans by blast

lemma ended_can_end: "can_end 0 c Ended"
  unfolding can_end_def by (intro exI [of _ "[]"] exI [of _ c]) (simp add: path_here)

lemma head_can_end: "can_end 0 c LoopHead"
  using can_end_step [OF p_end ended_can_end, where m = 0] by simp

lemma entered_can_end:
  assumes "placed c (Entered i body f)"
  shows "can_end 0 c (Entered i body f)"
proof -
  obtain ch where "(i, ch) \<in> sending c" using assms by auto
  from can_end_step [OF p_failed [OF call_failed_stale [OF this]] head_can_end, where m = 0] show ?thesis by (simp add: ack_timeout_def)
qed

lemma waiting_can_end:
  assumes "placed c (AwaitingAck i f)"
  shows "can_end 0 c (AwaitingAck i f)"
proof -
  obtain ch where "(i, ch) \<in> calls c" using assms by auto
  from can_end_step [OF p_timed_out [OF call_timed_out [OF this]] head_can_end, where m = 0] show ?thesis by (simp add: ack_timeout_def)
qed

lemma numbered_can_end:
  assumes "placed c (Numbered i body f)"
  shows "can_end 0 c (Numbered i body f)"
proof -
  obtain ch e' where r: "ack_register i (edge c) = (ch, e')" by fastforce
  have "i \<in> drawn c" using assms by simp
  note step = p_begun [OF call_begun [OF this r]]
  from can_end_step [OF step entered_can_end [OF placed_step [OF step]], where m = 0] r show ?thesis
    by (auto simp: ack_register_def Let_def)
qed

lemma calling_can_end: "can_end 1 c (Calling body f)"
proof -
  obtain i e' where n: "nextCorrID (edge c) = (i, e')" by fastforce
  note step = p_drawn [OF call_drawn [OF n]]
  from can_end_step [OF step numbered_can_end [OF placed_step [OF step]], where m = 1] n show ?thesis by (auto simp: nextCorrID_def)
qed

lemma enumeration: "\<exists>visit. enumerates visit (m :: (string, 'b) fmap)"
  using enumerates_sorted_keys by blast

lemma active_can_end: "can_end 1 c (GotActive items)"
proof -
  obtain visit where v: "enumerates visit (known (knownTimeseriesCache (edge c)))" using enumeration by blast
  obtain ks k where g: "GetInactiveTimeseriesBatch 0 visit KnownBatchSize (knownTimeseriesCache (edge c)) = (ks, k)" by fastforce
  have "can_end 1 (set_known c k) (known_call items ks)"
    using calling_can_end can_end_mono [OF head_can_end] by (simp add: known_call_def update_call_def)
  from can_end_step [OF p_inactive [OF v g] this, where m = 0] show ?thesis by (simp add: set_known_def)
qed

lemma none_can_end: "can_end 1 c NoneDiscovered"
proof -
  obtain visit where v: "enumerates visit (known (knownTimeseriesCache (edge c)))" using enumeration by blast
  obtain items k where g: "GetActiveTimeseriesBatch 0 visit (0 - LastBackendSyncThresholdSeconds) KnownBatchSize
      (knownTimeseriesCache (edge c)) = (items, k)" by fastforce
  from can_end_step [OF p_active [OF v g] active_can_end, where m = 0] show ?thesis by (simp add: set_known_def)
qed

lemma checked_can_end: "can_end 1 c Checked"
proof -
  obtain visit where v: "enumerates visit (discovered (discoveredTimeseriesCache (edge c)))" using enumeration by blast
  obtain items keys where g: "GetBatch visit DiscoveredBatchSize (discoveredTimeseriesCache (edge c)) = (items, keys)" by fastforce
  show ?thesis
  proof (cases "length items = 0")
    case True
    then show ?thesis using can_end_step [OF p_none [OF v g] none_can_end, where m = 0] by simp
  next
    case False
    then show ?thesis using can_end_step [OF p_create [OF v g] calling_can_end, where m = 0] by simp
  qed
qed

lemma acked_can_end: "can_end 0 c (Acked f)"
proof (cases f)
  case (ToPurge keys)
  then show ?thesis using can_end_step [OF p_purge head_can_end, where m = 0] by (simp add: set_discovered_def)
next
  case (ToMark keys)
  then show ?thesis using can_end_step [OF p_mark head_can_end, where m = 0] by (simp add: set_known_def)
next
  case (ToDelete keys items)
  have "can_end 0 c' (Between items)" for c' using can_end_step [OF p_cancelled head_can_end, where m = 0] by simp
  then have "can_end 0 c' (if 0 < length items then Between items else LoopHead)" for c' using head_can_end by simp
  from can_end_step [OF p_delete this, where m = 0] show ?thesis using ToDelete by (simp add: set_known_def)
qed

lemma placed_can_end: "placed c pc \<Longrightarrow> can_end 1 c pc"
proof (cases pc)
  case (Between items)
  then show ?thesis using can_end_step [OF p_cancelled head_can_end, where m = 0] can_end_mono by fastforce
qed (use can_end_mono [OF ended_can_end] can_end_mono [OF head_can_end] can_end_mono [OF acked_can_end]
    can_end_mono [OF entered_can_end] can_end_mono [OF waiting_can_end] can_end_mono [OF numbered_can_end]
    calling_can_end active_can_end none_can_end checked_can_end in auto)

section \<open>The wait group\<close>

definition wait_over :: "agent \<Rightarrow> bool" where
  "wait_over a \<longleftrightarrow> phase a = Stopped \<and> (\<forall>pc \<in> set (procs a). pc = Ended) \<and> jobs (a_edge a) = []"

text \<open>The connection loop comes to its end.\<close>

definition stops :: "Config \<Rightarrow> ('u, 'w) store_http \<Rightarrow> 're regexp_lib \<Rightarrow> agent_event list \<Rightarrow> agent \<Rightarrow> bool" where
  "stops cfg hc lib es a \<longleftrightarrow> (\<exists>es' a'. agent_run cfg hc lib (es @ es') a' \<and> phase a' = Stopped \<and> root_cancelled a'
     \<and> length (procs a') = length (procs a) \<and> begins (map ctl_view es') = 0)"

lemma stops_step:
  assumes "agent_step cfg hc lib a ev a'" "stops cfg hc lib (es @ [ev]) a'" "length (procs a') = length (procs a)"
    "ctl_view ev = Elsewhere"
  shows "stops cfg hc lib es a"
proof -
  obtain es' b where "agent_run cfg hc lib ((es @ [ev]) @ es') b" "phase b = Stopped" "root_cancelled b"
    "length (procs b) = length (procs a')" "begins (map ctl_view es') = 0" using assms(2) by (auto simp: stops_def)
  with assms(3,4) show ?thesis unfolding stops_def by (intro exI [of _ "ev # es'"] exI [of _ b]) simp
qed

lemma idle_stops:
  assumes run: "agent_run cfg hc lib es a" and c: "root_cancelled a" and p: "phase a \<in> {Idle, Waiting}"
  shows "stops cfg hc lib es a"
proof -
  have s: "agent_step cfg hc lib a LoopStopped (a\<lparr>phase := Stopped\<rparr>)" by (rule step_stopped [OF p c])
  have "stops cfg hc lib (es @ [LoopStopped]) (a\<lparr>phase := Stopped\<rparr>)" unfolding stops_def
    using run_more [OF run s] c by (intro exI [of _ "[]"] exI) auto
  from stops_step [OF s this] show ?thesis by simp
qed

lemma dialing_stops:
  assumes run: "agent_run cfg hc lib es a" and c: "root_cancelled a" and p: "phase a = Dialing"
  shows "stops cfg hc lib es a"
proof -
  note s = step_failed [OF p, of cfg hc lib]
  from stops_step [OF s idle_stops [OF run_more [OF run s]]] c show ?thesis by simp
qed

lemma closing_stops:
  assumes run: "agent_run cfg hc lib es a" and c: "root_cancelled a" and s: "agent_step cfg hc lib a ev (connect_close a')"
    and a': "root_cancelled a'" "length (procs a') = length (procs a)" and ev: "ctl_view ev = Elsewhere"
  shows "stops cfg hc lib es a"
proof -
  have "stops cfg hc lib (es @ [ev]) (connect_close a')"
    by (rule idle_stops [OF run_more [OF run s]]) (use a' in \<open>simp_all add: connect_defs\<close>)
  from stops_step [OF s this _ ev] show ?thesis using a' by (simp add: connect_defs)
qed

lemma serving_stops:
  assumes run: "agent_run cfg hc lib es a" and c: "root_cancelled a" and p: "phase a = Serving" "recv_at a = Receiving"
  shows "stops cfg hc lib es a"
  by (rule closing_stops [OF run c step_ended [OF p] c]) simp_all

lemma replying_stops:
  assumes run: "agent_run cfg hc lib es a" and c: "root_cancelled a" and p: "phase a = Serving" "recv_at a = Replying i"
  shows "stops cfg hc lib es a"
proof -
  note s = step_replied [OF p(2), of cfg hc lib "\<lambda>_ _. True"]
  have "stops cfg hc lib (es @ [PushReplied i]) (recv_reply (\<lambda>_ _. True) i a)"
    by (rule serving_stops [OF run_more [OF run s]]) (use c p in \<open>simp_all add: recv_reply_def\<close>)
  from stops_step [OF s this] show ?thesis by (simp add: recv_reply_def)
qed

lemma routing_stops:
  assumes run: "agent_run cfg hc lib es a" and c: "root_cancelled a" and p: "phase a = Serving" "recv_at a = Routing i ds"
  shows "stops cfg hc lib es a"
proof -
  note s = step_routes [OF p(2), of cfg hc lib]
  have "stops cfg hc lib (es @ [RoutesApplied ds]) (recv_routes i ds a)"
    by (rule replying_stops [OF run_more [OF run s]]) (use c p in \<open>simp_all add: recv_routes_def\<close>)
  from stops_step [OF s this] show ?thesis by (simp add: recv_routes_def)
qed

lemma loop_stops:
  assumes run: "agent_run cfg hc lib es a" and c: "root_cancelled a"
  shows "stops cfg hc lib es a"
proof -
  have inv: "phase a \<noteq> NotStarted" "stream_up (a_edge a) \<longleftrightarrow> connected a" using run_conn_inv [OF run] by (simp_all add: conn_inv_def)
  show ?thesis
  proof (cases "phase a")
    case Stopped
    then show ?thesis unfolding stops_def using run c by (intro exI [of _ "[]"] exI [of _ a]) simp
  next
    case Connecting
    note s = step_attempt [OF this, of cfg hc lib]
    have "stops cfg hc lib (es @ [AttemptMade]) (connect_attempt a)"
      by (rule dialing_stops [OF run_more [OF run s]]) (use c in \<open>simp_all add: connect_defs\<close>)
    from stops_step [OF s this] show ?thesis by (simp add: connect_defs)
  next
    case Announcing
    then have "connect_hello (\<lambda>_ _. False) a = (False, connect_close (with_edge a (a_edge a)))"
      using inv by (simp add: connect_hello_def sendAgentMessage_def connected_def)
    from closing_stops [OF run c step_hello_failed [OF Announcing this]] c show ?thesis by simp
  next
    case Serving
    then show ?thesis
      using serving_stops [OF run c Serving] replying_stops [OF run c Serving] routing_stops [OF run c Serving] by (cases "recv_at a") auto
  next
    case Dialing
    then show ?thesis by (rule dialing_stops [OF run c])
  qed (use idle_stops [OF run c] inv in auto)
qed

text \<open>The processors come to their ends, one after the other.\<close>

lemma run_proc_path:
  assumes "proc_path c pc evs c' pc'" "agent_run cfg hc lib es a" "root_cancelled a" "p < length (procs a)"
    "requests a = c" "procs a ! p = pc"
  shows "agent_run cfg hc lib (es @ map (Proc p) evs) (a\<lparr>requests := c', procs := (procs a)[p := pc']\<rparr>)"
  using assms
proof (induction arbitrary: es a rule: proc_path.induct)
  case (path_here c pc)
  then have "a\<lparr>requests := c, procs := (procs a)[p := pc]\<rparr> = a" by auto
  then show ?case using path_here by simp
next
  case (path_step c pc ev c1 pc1 evs c' pc')
  let ?a = "a\<lparr>requests := c1, procs := (procs a)[p := pc1]\<rparr>"
  have "agent_step cfg hc lib a (Proc p ev) ?a"
    using path_step.hyps(1) path_step.prems by (intro step_proc) (simp_all add: ctx_done_def)
  from path_step.IH [OF run_more [OF path_step.prems(1) this]] path_step.prems show ?case by simp
qed

lemma begins_proc_path: "map ctl_view (map (Proc p) evs) = map call_view evs"
  by simp

lemma procs_end:
  assumes run: "agent_run cfg hc lib es a" and c: "root_cancelled a" and few: "begins (map ctl_view es) + n < 2 ^ 64"
    and n: "n \<le> length (procs a)"
  shows "\<exists>es' a'. agent_run cfg hc lib (es @ es') a' \<and> root_cancelled a' \<and> phase a' = phase a \<and> jobs (a_edge a') = jobs (a_edge a)
     \<and> length (procs a') = length (procs a) \<and> (\<forall>p < n. procs a' ! p = Ended) \<and> begins (map ctl_view es') \<le> n"
  using few n
proof (induction n)
  case 0
  then show ?case using run c by (intro exI [of _ "[]"] exI [of _ a]) simp
next
  case (Suc n)
  then obtain es1 b where b: "agent_run cfg hc lib (es @ es1) b" "root_cancelled b" "phase b = phase a" "jobs (a_edge b) = jobs (a_edge a)"
    "length (procs b) = length (procs a)" "\<forall>p < n. procs b ! p = Ended" "begins (map ctl_view es1) \<le> n" by auto
  have "begins (map ctl_view (es @ es1)) < 2 ^ 64" using b(7) Suc.prems by simp
  from run_calls_inv [OF b(1) this] have "placed (requests b) (procs b ! n)" using b(5) Suc.prems by (simp add: calls_inv_def)
  from placed_can_end [OF this] obtain evs c' where path: "proc_path (requests b) (procs b ! n) evs c' Ended"
    "begins (map call_view evs) \<le> 1" "jobs (edge c') = jobs (a_edge b)" by (auto simp: can_end_def)
  let ?a' = "b\<lparr>requests := c', procs := (procs b)[n := Ended]\<rparr>"
  have "agent_run cfg hc lib ((es @ es1) @ map (Proc n) evs) ?a'"
    by (rule run_proc_path [OF path(1) b(1,2)]) (use b(5) Suc.prems in simp_all)
  moreover have "\<forall>p < Suc n. procs ?a' ! p = Ended" using b(5,6) Suc.prems by (simp add: less_Suc_eq nth_list_update)
  moreover have "begins (map ctl_view (es1 @ map (Proc n) evs)) \<le> Suc n"
    using b(7) path(2) by (simp add: comp_def)
  ultimately show ?case using b path(3) by (intro exI [of _ "es1 @ map (Proc n) evs"] exI [of _ ?a']) simp
qed

text \<open>The jobs are answered, one after the other.\<close>

lemma reply_jobs [simp]:
  "jobs (sendQueryResponse nt i resp e) = jobs e" "jobs (replyCommand nt i b s e) = jobs e"
  by (simp_all add: sendQueryResponse_def replyCommand_def)

lemma job_step:
  assumes "j \<in> set (jobs (a_edge a))"
  shows "\<exists>ev e'. agent_step cfg hc lib a ev (with_edge a e') \<and> jobs e' = remove1 j (jobs (a_edge a)) \<and> ctl_view ev = Elsewhere"
proof (cases j)
  case (QueryJob i req)
  let ?e = "(a_edge a)\<lparr>jobs := remove1 (QueryJob i req) (jobs (a_edge a))\<rparr>"
  fix u w
  obtain e' w' reqs where h: "handleQueryRequest u cfg hc (\<lambda>_ _. True) 0 i req (?e, w) = ((e', w'), reqs)"
    by (metis prod.exhaust)
  have "agent_step cfg hc lib a (QueryJobDone i) (with_edge a e')" using assms QueryJob h by (intro step_query) auto
  then show ?thesis using query_replies [OF h] QueryJob by force
next
  case (UpdateConfigJob i req)
  let ?e = "(a_edge a)\<lparr>jobs := remove1 (UpdateConfigJob i req) (jobs (a_edge a))\<rparr>"
  fix os yaml run m f
  obtain e' f' r where h: "handleUpdateConfig os yaml run (\<lambda>_ _. True) m i req (?e, f) = ((e', f'), r)" by (metis prod.exhaust)
  have "agent_step cfg hc lib a (ConfigJobDone i) (with_edge a e')" using assms UpdateConfigJob h by (intro step_config) auto
  then show ?thesis using config_replies [OF h] UpdateConfigJob by force
qed

lemma jobs_end:
  assumes "agent_run cfg hc lib es a"
  shows "\<exists>es' a'. agent_run cfg hc lib (es @ es') a' \<and> phase a' = phase a \<and> procs a' = procs a \<and> jobs (a_edge a') = []"
  using assms
proof (induction "length (jobs (a_edge a))" arbitrary: es a)
  case 0
  then show ?case by (intro exI [of _ "[]"] exI [of _ a]) simp
next
  case (Suc n)
  then obtain j where j: "j \<in> set (jobs (a_edge a))" by (metis length_greater_0_conv nth_mem zero_less_Suc)
  from job_step [OF this, of cfg hc lib] obtain ev e' where s: "agent_step cfg hc lib a ev (with_edge a e')"
    "jobs e' = remove1 j (jobs (a_edge a))" by blast
  have "n = length (jobs (a_edge (with_edge a e')))" using Suc.hyps(2) j by (simp add: s(2) length_remove1)
  from Suc.hyps(1) [OF this run_more [OF Suc.prems s(1)]] obtain es' a' where
    "agent_run cfg hc lib ((es @ [ev]) @ es') a'" "phase a' = phase a" "procs a' = procs a" "jobs (a_edge a') = []" by auto
  then show ?case by (intro exI [of _ "ev # es'"] exI [of _ a']) simp
qed

section \<open>The steps of a processor after a shutdown\<close>

definition own_steps :: "nat \<Rightarrow> agent_event list \<Rightarrow> nat" where
  "own_steps p es = length (filter (\<lambda>ev. \<exists>pe. ev = Proc p pe) es)"

lemma own_steps_simps [simp]:
  "own_steps p [] = 0" "own_steps p (es @ fs) = own_steps p es + own_steps p fs"
  "own_steps p [ev] = (if \<exists>pe. ev = Proc p pe then 1 else 0)"
  by (simp_all add: own_steps_def)

definition rank_inv :: "agent_event list \<Rightarrow> agent \<Rightarrow> bool" where
  "rank_inv es a \<longleftrightarrow> (\<forall>p. if p < length (procs a) then own_steps p es + proc_rank (procs a ! p) \<le> 15 else own_steps p es = 0)"

lemma rank_inv_step:
  assumes inv: "rank_inv es a" and c: "root_cancelled a" and step: "agent_step cfg hc lib a ev a'"
  shows "rank_inv (es @ [ev]) a'"
proof (cases "\<exists>p pe. ev = Proc p pe")
  case True
  then obtain p pe where ev: "ev = Proc p pe" by blast
  from step obtain c' pc' where s: "p < length (procs a)" "proc_step True (requests a) (procs a ! p) pe c' pc'"
    "procs a' = (procs a)[p := pc']" using c unfolding ev by cases (auto simp: ctx_done_def)
  have "own_steps p es + proc_rank (procs a ! p) \<le> 15" using inv s(1) unfolding rank_inv_def by meson
  then have "own_steps p es + proc_rank pc' + 1 \<le> 15" using proc_rank_step [OF s(2)] by linarith
  then show ?thesis using inv s(1) by (auto simp: rank_inv_def ev s(3) nth_list_update)
next
  case False
  then have "own_steps p [ev] = 0" for p by simp
  then show ?thesis using inv other_step_procs [OF step] False
    by (fastforce simp: rank_inv_def nth_append less_Suc_eq split: if_splits)
qed

lemma run_rank_inv: "agent_run cfg hc lib es a \<Longrightarrow> ShutdownCalled \<in> set es \<Longrightarrow> rank_inv (after_shutdown es) a"
proof (induction rule: agent_run.induct)
  case (run_more es a ev a')
  show ?case
  proof (cases "ShutdownCalled \<in> set es")
    case True
    moreover from this have "root_cancelled a" using run_shutdown_inv [OF run_more.hyps(1)] by blast
    ultimately show ?thesis using rank_inv_step [OF run_more.IH _ run_more.hyps(2)] by (simp add: after_shutdown_snoc)
  next
    case False
    then show ?thesis by (simp add: after_shutdown_snoc rank_inv_def proc_rank_bound)
  qed
qed simp

section \<open>Properties\<close>

text \<open>
  C24: a shutdown can always come to its end.  After a shutdown, whatever state the goroutines were in
  and whatever they did since, there is a continuation of the run in which the wait of
  \<open>Shutdown\<close> is over: the connection loop has stopped, every timeseries processor has ended,
  also one that waits for an acknowledgement that will never come, and every query and
  configuration job has been answered.  The wait group never deadlocks.
\<close>

theorem shutdown_completes:
  assumes "agent_run cfg hc lib es a" "ShutdownCalled \<in> set es" "begins (map ctl_view es) + length (procs a) < 2 ^ 64"
  shows "\<exists>es' a'. agent_run cfg hc lib (es @ es') a' \<and> wait_over a'"
proof -
  have "root_cancelled a" using run_shutdown_inv [OF assms(1)] assms(2) by blast
  from loop_stops [OF assms(1) this] obtain es1 b where b: "agent_run cfg hc lib (es @ es1) b" "phase b = Stopped"
    "root_cancelled b" "length (procs b) = length (procs a)" "begins (map ctl_view es1) = 0" by (auto simp: stops_def)
  have "begins (map ctl_view (es @ es1)) + length (procs b) < 2 ^ 64" using assms(3) b(4,5) by simp
  from procs_end [OF b(1,3) this le_refl] obtain es2 d where d: "agent_run cfg hc lib ((es @ es1) @ es2) d" "phase d = Stopped"
    "\<forall>p < length (procs d). procs d ! p = Ended" using b(2) by auto
  from jobs_end [OF d(1)] obtain es3 f where "agent_run cfg hc lib (((es @ es1) @ es2) @ es3) f" "phase f = phase d"
    "procs f = procs d" "jobs (a_edge f) = []" by blast
  with d(2,3) show ?thesis by (intro exI [of _ "es1 @ es2 @ es3"] exI [of _ f]) (simp add: wait_over_def all_set_conv_all_nth)
qed

text \<open>Witness of C24: a shutdown while the first announcement waits for its acknowledgement.\<close>

theorem shutdown_completes_witness:
  "\<exists>es' a'. agent_run store_config echo_http literal_regexp
     (((fed_events @ [Proc 0 Scanned, Proc 0 Scanned]) @ sent_trace 0 1 (AgentMessage_IndexCreate first_series) @ [ShutdownCalled]) @ es') a'
     \<and> wait_over a'"
proof -
  let ?es = "(fed_events @ [Proc 0 Scanned, Proc 0 Scanned]) @ sent_trace 0 1 (AgentMessage_IndexCreate first_series) @ [ShutdownCalled]"
  have pc: "0 < length (procs announcing)"
    "procs announcing ! 0 = Calling (AgentMessage_IndexCreate first_series) (ToPurge [''k''])" by (simp_all add: announcing_def)
  have up: "stream_up (a_edge announcing)" "corrSeq (a_edge announcing) = 0" using ready_demo by (simp_all add: ready_to_call_def)
  let ?b = "ext_Shutdown (announcing\<lparr>requests := awaiting (requests announcing) (AgentMessage_IndexCreate first_series),
      procs := (procs announcing)[0 := AwaitingAck 1 (ToPurge [''k''])]\<rparr>)"
  have b: "agent_run store_config echo_http literal_regexp ?es ?b"
    using run_more [OF sent_run [OF announcing_run [of store_config echo_http literal_regexp] pc up(1)] step_shutdown] by (simp add: up(2))
  have l: "length (procs ?b) = 1" by (simp add: announcing_def ext_Shutdown_def unregisterMetrics_def Let_def)
  have "begins (map ctl_view ?es) + length (procs ?b) < 2 ^ 64"
    unfolding l by (simp add: fed_events_def demo_events_def sent_trace_def)
  then show ?thesis by (intro shutdown_completes [OF b]) simp_all
qed

text \<open>
  C25: a shutdown bounds what is still done.  After \<open>Shutdown\<close> is called at most one more
  connection attempt begins, the one whose check of the context came before; and every
  timeseries processor, also one started by that attempt, takes at most fifteen more steps.
\<close>

theorem shutdown_bounds:
  assumes "agent_run cfg hc lib (es1 @ ShutdownCalled # es2) a"
  shows "count_list es2 AttemptMade \<le> 1 \<and> own_steps p es2 \<le> 15"
proof -
  obtain es3 where "after_shutdown (es1 @ ShutdownCalled # es2) = es3 @ es2" using after_shutdown_suffix by blast
  then show ?thesis using run_shutdown_inv [OF assms] run_rank_inv [OF assms]
    by (auto simp: rank_inv_def split: if_splits dest!: spec [of _ p])
qed

text \<open>Witness of C25, where the one attempt happens.\<close>

theorem shutdown_bounds_witness:
  "(\<exists>a. agent_run store_config echo_http literal_regexp ([LoopChecked] @ ShutdownCalled # [AttemptMade]) a)
   \<and> count_list [AttemptMade] AttemptMade \<le> 1 \<and> own_steps 0 [AttemptMade] \<le> 15"
proof -
  let ?c = "demo_start\<lparr>phase := Connecting\<rparr>"
  have "agent_run store_config echo_http literal_regexp ([] @ [LoopChecked]) ?c"
    by (rule run_more [OF run_start [OF demo_started] step_checked [OF demo_start_phase]])
  from run_more [OF run_more [OF this step_shutdown] step_attempt]
  have "agent_run store_config echo_http literal_regexp ([LoopChecked] @ ShutdownCalled # [AttemptMade])
      (connect_attempt (ext_Shutdown ?c))"
    by (simp add: connect_defs)
  with shutdown_bounds [OF this] show ?thesis by blast
qed

end
