(* ===== verification/Diagnostics.thy ===== *)
theory Diagnostics
  imports Edge_Controller Edge_Config Go_Os
begin

text \<open>
  The files a diagnosis request leaves behind
  (\<open>src/components/edgecontroller/diagnostics.go\<close>): one document per cache, written into the
  diagnostics directory.  The YAML encoder is the argument \<open>marshalYAML\<close>; the orders in which
  the caches are visited are arguments too.

  The lemmas: only the directory and the three files are touched, a file reported as written
  holds the document of its cache whatever happened to the others, and without faults all three
  are written.
\<close>

section \<open>Directories\<close>

text \<open>\<open>filepath.Join\<close> of a directory and a name.\<close>

definition Join2 :: "string \<Rightarrow> string \<Rightarrow> string" where
  "Join2 dir name = (if dir = '''' then Clean name else Clean (dir @ ''/'' @ name))"

text \<open>The directories \<open>os.MkdirAll\<close> makes sure of: the path and everything above it.\<close>

definition ancestors :: "string \<Rightarrow> string list" where
  "ancestors p = p # map (\<lambda>n. take n p) (filter (\<lambda>n. p ! n = slash) [1..<length p])"

fun make_dirs :: "string list \<Rightarrow> fs \<Rightarrow> fs" where
  "make_dirs [] m = m"
| "make_dirs (p # ps) m = make_dirs ps (case fmlookup m p of None \<Rightarrow> fmupd p Directory m | Some _ \<Rightarrow> m)"

definition is_file :: "node option \<Rightarrow> bool" where
  "is_file n \<longleftrightarrow> (case n of Some (File _ _) \<Rightarrow> True | _ \<Rightarrow> False)"

text \<open>A call that fails may have made some of the directories.\<close>

definition MkdirAll :: "os \<Rightarrow> string \<Rightarrow> fs \<Rightarrow> string option \<times> fs" where
  "MkdirAll os p m =
     (case os_fails os (OsMkdirAll p) m of
        Some err \<Rightarrow> (Some err, fold (failed_write os) (ancestors p) m)
      | None \<Rightarrow>
          if list_ex (\<lambda>q. is_file (fmlookup m q)) (ancestors p) then (Some (''mkdir '' @ p @ '': not a directory''), m)
          else (None, make_dirs (ancestors p) m))"

section \<open>The documents\<close>

definition knownCacheFile :: string where "knownCacheFile = ''KnownTimeseriesCache.yaml''"
definition discoveredCacheFile :: string where "discoveredCacheFile = ''DiscoveredTimeseriesCache.yaml''"
definition demandCacheFile :: string where "demandCacheFile = ''DemandTimeseriesCache.yaml''"
definition defaultDiagnosticsDir :: string where "defaultDiagnosticsDir = ''/tmp/leansignal-agent''"
definition mode0644 :: nat where "mode0644 = 6 * 64 + 4 * 8 + 4"

datatype cache_doc =
    knownCacheDoc nat "KnownEntryView list"
  | discoveredCacheDoc nat "DiscoveredEntryView list"
  | demandCacheDoc nat "64 word" int "string list"

definition cache_docs ::
    "HashKey list \<Rightarrow> HashKey list \<Rightarrow> edgeControllerExtension \<Rightarrow> (string \<times> cache_doc) list" where
  "cache_docs known_visit disc_visit e =
     (let k = Snapshot known_visit (knownTimeseriesCache e);
          d = discovered_Snapshot disc_visit (discoveredTimeseriesCache e);
          demand = demand_GetDemands (demandTimeseriesCache e)
      in [(knownCacheFile, knownCacheDoc (length k) k),
          (discoveredCacheFile, discoveredCacheDoc (length d) d),
          (demandCacheFile, demandCacheDoc (length (Timeseries demand)) (DemandHash demand)
             (snap_LastUpdate demand) (Timeseries demand))])"

fun write_docs ::
    "os \<Rightarrow> (cache_doc \<Rightarrow> string + string) \<Rightarrow> string \<Rightarrow> (string \<times> cache_doc) list \<Rightarrow> fs \<Rightarrow> string list \<times> fs" where
  "write_docs os marshalYAML dir [] m = ([], m)"
| "write_docs os marshalYAML dir ((name, doc) # docs) m =
     (case marshalYAML doc of
        Inl err \<Rightarrow> write_docs os marshalYAML dir docs m
      | Inr data \<Rightarrow>
          (case WriteFile os (Join2 dir name) data mode0644 m of
             (Some err, m1) \<Rightarrow> write_docs os marshalYAML dir docs m1
           | (None, m1) \<Rightarrow>
               (let (written, m2) = write_docs os marshalYAML dir docs m1 in (Join2 dir name # written, m2))))"

definition diagnostics_dir :: "Config \<Rightarrow> string" where
  "diagnostics_dir cfg = (if DiagnosticsDir cfg = '''' then defaultDiagnosticsDir else DiagnosticsDir cfg)"

definition writeCacheFiles ::
    "os \<Rightarrow> (cache_doc \<Rightarrow> string + string) \<Rightarrow> Config \<Rightarrow> HashKey list \<Rightarrow> HashKey list \<Rightarrow> edgeControllerExtension \<Rightarrow> fs
     \<Rightarrow> string list \<times> fs" where
  "writeCacheFiles os marshalYAML cfg known_visit disc_visit e m =
     (let dir = diagnostics_dir cfg in
      case MkdirAll os dir m of
        (Some err, m1) \<Rightarrow> ([], m1)
      | (None, m1) \<Rightarrow> write_docs os marshalYAML dir (cache_docs known_visit disc_visit e) m1)"

text \<open>The answer to \<open>get_diagnosis\<close>: the summary that is logged, the files written and the
  file system.\<close>

definition handleGetDiagnosis ::
    "'re regexp_lib \<Rightarrow> os \<Rightarrow> (cache_doc \<Rightarrow> string + string) \<Rightarrow> Config \<Rightarrow> HashKey list \<Rightarrow> HashKey list
     \<Rightarrow> edgeControllerExtension \<Rightarrow> fs \<Rightarrow> diagnosis \<times> string list \<times> fs" where
  "handleGetDiagnosis lib os marshalYAML cfg known_visit disc_visit e m =
     (buildDiagnosis lib known_visit e, writeCacheFiles os marshalYAML cfg known_visit disc_visit e m)"

section \<open>Names of files\<close>

definition last_part :: "string \<Rightarrow> string" where
  "last_part p = rev (takeWhile (\<lambda>c. c \<noteq> slash) (rev p))"

lemma last_part_name:
  assumes "slash \<notin> set n" "p = n \<or> (\<exists>s. p = s @ slash # n)"
  shows "last_part p = n"
proof -
  have all: "takeWhile (\<lambda>c. c \<noteq> slash) (rev n) = rev n" using assms(1) by (subst takeWhile_eq_all_conv) auto
  have "takeWhile (\<lambda>c. c \<noteq> slash) (rev n @ slash # t) = rev n" for t
    using all takeWhile_tail [of "\<lambda>c. c \<noteq> slash" slash "rev n" t] by simp
  then have "last_part (s @ slash # n) = n" for s by (simp add: last_part_def)
  moreover have "last_part n = n" unfolding last_part_def by (simp only: all rev_rev_ident)
  ultimately show ?thesis using assms(2) by metis
qed

lemma Join_snoc: "segs \<noteq> [] \<Longrightarrow> Join (segs @ [n]) sep = Join segs sep @ sep @ n"
  by (induction segs sep rule: Join.induct) auto

text \<open>The cleaned name of a file in a directory ends in the file's name.\<close>

lemma last_part_Join2:
  assumes "proper_segment n"
  shows "last_part (Join2 dir n) = n"
proof -
  have seg: "clean_segments b (s @ slash # n) = clean_segments b s @ [n]" "clean_segments b n = [n]" for b s
    using assms by (simp_all add: clean_segments_def split_slash_join split_slash_whole proper_segment_def clean_step_def)
  have "HasPrefix n ''/'' \<Longrightarrow> False" using assms by (auto simp: HasPrefix_def proper_segment_def prefix_def)
  then have "Join2 dir n = n \<or> (\<exists>s. Join2 dir n = s @ slash # n)"
    by (cases "clean_segments (HasPrefix (dir @ slash # n) ''/'') dir = []")
      (auto simp: Join2_def Clean_def Let_def seg Join_snoc)
  moreover have "slash \<notin> set n" using assms by (simp add: proper_segment_def)
  ultimately show ?thesis by (rule last_part_name [rotated])
qed

lemma Join2_inject: "proper_segment n \<Longrightarrow> proper_segment n' \<Longrightarrow> Join2 dir n = Join2 dir n' \<Longrightarrow> n = n'"
  by (metis last_part_Join2)

section \<open>Frames\<close>

lemma fold_failed_frame: "same_but (set ps) m (fold (failed_write os) ps m)"
proof (induction ps arbitrary: m)
  case (Cons p ps)
  have "same_but {p} m (failed_write os p m)" by (simp add: same_but_def failed_write_def split: option.split)
  from same_but_trans [OF this Cons, of "set (p # ps)"] show ?case by simp
qed simp

lemma make_dirs_frame: "same_but (set ps) m (make_dirs ps m)"
proof (induction ps arbitrary: m)
  case (Cons p ps)
  have "same_but {p} m (case fmlookup m p of None \<Rightarrow> fmupd p Directory m | Some _ \<Rightarrow> m)"
    by (simp add: same_but_def split: option.split)
  from same_but_trans [OF this Cons, of "set (p # ps)"] show ?case by simp
qed simp

lemma MkdirAll_frame: "same_but (set (ancestors p)) m (snd (MkdirAll os p m))"
  by (simp add: MkdirAll_def fold_failed_frame make_dirs_frame split: option.split)

lemma write_docs_frame:
  "set (fst (write_docs os y dir docs m)) \<subseteq> (\<lambda>(n, d). Join2 dir n) ` set docs
   \<and> same_but ((\<lambda>(n, d). Join2 dir n) ` set docs) m (snd (write_docs os y dir docs m))"
proof (induction docs arbitrary: m)
  case (Cons nd docs)
  obtain n d where nd: "nd = (n, d)" by fastforce
  let ?S = "(\<lambda>(n, d). Join2 dir n) ` set docs" and ?T = "(\<lambda>(n, d). Join2 dir n) ` set (nd # docs)"
  have T: "?T = insert (Join2 dir n) ?S" by (simp add: nd)
  have skip: "same_but ?T m (snd (write_docs os y dir docs m))" using Cons [of m] same_but_mono T by blast
  have go: "same_but ?T m (snd (write_docs os y dir docs m1))"
    if "WriteFile os (Join2 dir n) data mode0644 m = (r, m1)" for data r m1
  proof -
    have "same_but {Join2 dir n} m m1" using frames(7) that by (metis snd_conv)
    from same_but_trans [OF this Cons [of m1, THEN conjunct2], of ?T] show ?thesis unfolding T by simp
  qed
  show ?case
  proof (cases "y d")
    case (Inl err)
    then show ?thesis using Cons [of m] skip by (auto simp: nd)
  next
    case (Inr data)
    obtain r m1 where w: "WriteFile os (Join2 dir n) data mode0644 m = (r, m1)" by fastforce
    then show ?thesis using Cons [of m1] go [OF w] Inr
      by (cases r) (auto simp: nd case_prod_unfold Let_def)
  qed
qed simp

lemma write_docs_content:
  assumes "distinct (map fst docs)" "list_all (proper_segment \<circ> fst) docs"
    and "(n, d) \<in> set docs" "Join2 dir n \<in> set (fst (write_docs os y dir docs m))"
  shows "\<exists>data perm. y d = Inr data \<and> fmlookup (snd (write_docs os y dir docs m)) (Join2 dir n) = Some (File data perm)"
  using assms
proof (induction docs arbitrary: m)
  case (Cons nd docs)
  obtain n0 d0 where nd: "nd = (n0, d0)" by fastforce
  let ?p = "Join2 dir n0" and ?S = "(\<lambda>(n, d). Join2 dir n) ` set docs"
  have fresh: "?p \<notin> ?S"
  proof
    assume "?p \<in> ?S"
    then obtain n' d' where n': "(n', d') \<in> set docs" "?p = Join2 dir n'" by auto
    moreover have "proper_segment n0" "proper_segment n'" using Cons.prems(2) n'(1) by (auto simp: nd list_all_iff)
    ultimately have "(n0, d') \<in> set docs" using Join2_inject by metis
    then show False using Cons.prems(1) by (force simp: nd)
  qed
  have keep: "?p \<notin> set (fst (write_docs os y dir docs g))"
    "fmlookup (snd (write_docs os y dir docs g)) ?p = fmlookup g ?p" for g
    using write_docs_frame [of os y dir docs g] fresh unfolding same_but_def by blast+
  have rest: "distinct (map fst docs)" "list_all (proper_segment \<circ> fst) docs" using Cons.prems by (simp_all add: comp_def)
  show ?case
  proof (cases "(n, d) \<in> set docs")
    case True
    then have ne: "Join2 dir n \<noteq> ?p" using fresh by force
    show ?thesis
    proof (cases "y d0")
      case (Inl err)
      then show ?thesis using Cons.prems(4) Cons.IH [OF rest True, of m] by (simp add: nd)
    next
      case (Inr data)
      obtain r m1 where w: "WriteFile os ?p data mode0644 m = (r, m1)" by fastforce
      then show ?thesis using Cons.prems(4) Cons.IH [OF rest True, of m1] Inr ne
        by (cases r) (auto simp: nd case_prod_unfold Let_def)
    qed
  next
    case False
    then have nd': "n = n0" "d = d0" using Cons.prems(3) by (simp_all add: nd)
    then obtain data where y: "y d0 = Inr data" using Cons.prems(4) keep(1) by (cases "y d0") (simp_all add: nd)
    obtain r m1 where w: "WriteFile os ?p data mode0644 m = (r, m1)" by fastforce
    have "r = None" using Cons.prems(4) keep(1) nd' y w by (cases r) (simp_all add: nd)
    moreover from this have "fmlookup m1 ?p = Some (File data (perm_of ?p mode0644 m))"
      using w by (auto simp: WriteFile_def split: option.splits)
    ultimately show ?thesis using nd' y w keep(2) [of m1] by (simp add: nd case_prod_unfold Let_def)
  qed
qed simp

lemma write_docs_all:
  assumes "\<forall>nd \<in> set docs. \<exists>data. y (snd nd) = Inr data" "\<forall>p g. os_fails os (OsWriteFile p) g = None"
  shows "fst (write_docs os y dir docs m) = map (\<lambda>nd. Join2 dir (fst nd)) docs"
  using assms(1)
proof (induction docs arbitrary: m)
  case (Cons nd docs)
  obtain n d where nd: "nd = (n, d)" by fastforce
  obtain data where "y d = Inr data" using Cons.prems by (auto simp: nd)
  then show ?case using Cons assms(2) by (simp add: nd WriteFile_def case_prod_unfold Let_def)
qed simp

lemma cache_docs_names:
  "map fst (cache_docs kv dv e) = [knownCacheFile, discoveredCacheFile, demandCacheFile]"
  "distinct (map fst (cache_docs kv dv e))" "list_all (proper_segment \<circ> fst) (cache_docs kv dv e)"
  by (simp_all add: cache_docs_def Let_def knownCacheFile_def discoveredCacheFile_def demandCacheFile_def proper_segment_def)

section \<open>Counts\<close>

lemma concat_some_length:
  assumes "\<forall>k \<in> set ks. f k \<noteq> None"
  shows "length (concat (map (\<lambda>k. case f k of None \<Rightarrow> [] | Some x \<Rightarrow> [g k x]) ks)) = length ks"
  using assms by (induction ks) auto

lemma snapshot_lengths:
  assumes "enumerates kv (known (knownTimeseriesCache e))" "enumerates dv (discovered (discoveredTimeseriesCache e))"
  shows "length (Snapshot kv (knownTimeseriesCache e)) = known_GetSize (knownTimeseriesCache e)"
    and "length (discovered_Snapshot dv (discoveredTimeseriesCache e)) = discovered_GetSize (discoveredTimeseriesCache e)"
proof -
  show "length (Snapshot kv (knownTimeseriesCache e)) = known_GetSize (knownTimeseriesCache e)"
    using concat_some_length [of kv "fmlookup (known (knownTimeseriesCache e))"] enumerates_length [OF assms(1)]
      enumerates_set [OF assms(1)]
    by (simp add: Snapshot_def known_GetSize_def)
  show "length (discovered_Snapshot dv (discoveredTimeseriesCache e)) = discovered_GetSize (discoveredTimeseriesCache e)"
    using concat_some_length [of dv "fmlookup (discovered (discoveredTimeseriesCache e))"] enumerates_length [OF assms(2)]
      enumerates_set [OF assms(2)]
    by (simp add: discovered_Snapshot_def discovered_GetSize_def)
qed

section \<open>Properties\<close>

text \<open>
  A diagnosis writes its three files and nothing else.  Whatever fails, only the diagnostics
  directory with the directories above it and the three cache files can change; a file that is
  reported as written holds exactly the document of its cache, also when the other files failed;
  and when no call fails and the documents can be encoded, all three are written.  The counts of
  the documents are the sizes of the caches.
\<close>

theorem diagnosis_files:
  assumes "writeCacheFiles os y cfg kv dv e m = (written, m')" and "dir = diagnostics_dir cfg"
    and "enumerates kv (known (knownTimeseriesCache e))" "enumerates dv (discovered (discoveredTimeseriesCache e))"
  shows "same_but (set (ancestors dir) \<union> {Join2 dir knownCacheFile, Join2 dir discoveredCacheFile, Join2 dir demandCacheFile}) m m'
    \<and> (\<forall>(n, d) \<in> set (cache_docs kv dv e). Join2 dir n \<in> set written \<longrightarrow>
         (\<exists>data perm. y d = Inr data \<and> fmlookup m' (Join2 dir n) = Some (File data perm)))
    \<and> ((\<forall>c g. os_fails os c g = None) \<longrightarrow> \<not> list_ex (\<lambda>q. is_file (fmlookup m q)) (ancestors dir) \<longrightarrow>
        (\<forall>d. \<exists>data. y d = Inr data) \<longrightarrow>
        written = [Join2 dir knownCacheFile, Join2 dir discoveredCacheFile, Join2 dir demandCacheFile])
    \<and> (\<exists>k d s h u. cache_docs kv dv e =
        [(knownCacheFile, knownCacheDoc (known_GetSize (knownTimeseriesCache e)) k),
         (discoveredCacheFile, discoveredCacheDoc (discovered_GetSize (discoveredTimeseriesCache e)) d),
         (demandCacheFile, demandCacheDoc (length s) h u s)])"
proof -
  let ?docs = "cache_docs kv dv e"
  have S: "(\<lambda>(n, d). Join2 dir n) ` set ?docs = {Join2 dir knownCacheFile, Join2 dir discoveredCacheFile, Join2 dir demandCacheFile}"
    by (simp add: cache_docs_def Let_def)
  have names: "map (\<lambda>nd. Join2 dir (fst nd)) ?docs = [Join2 dir knownCacheFile, Join2 dir discoveredCacheFile, Join2 dir demandCacheFile]"
    by (simp add: cache_docs_def Let_def)
  obtain r m1 where mk: "MkdirAll os dir m = (r, m1)" by fastforce
  have f1: "same_but (set (ancestors dir)) m m1" using MkdirAll_frame mk by (metis snd_conv)
  have w: "(written, m') = (if r = None then write_docs os y dir ?docs m1 else ([], m1))"
    using assms(1) mk by (cases r) (simp_all add: writeCacheFiles_def flip: assms(2))
  have frame: "same_but (set (ancestors dir) \<union> (\<lambda>(n, d). Join2 dir n) ` set ?docs) m m'"
  proof (cases r)
    case None
    then have "same_but ((\<lambda>(n, d). Join2 dir n) ` set ?docs) m1 m'"
      using w write_docs_frame [of os y dir ?docs m1] by (metis snd_conv)
    then show ?thesis by (rule same_but_trans [OF f1]) simp
  next
    case (Some err)
    then show ?thesis using w f1 by (auto intro: same_but_mono)
  qed
  have content: "\<exists>data perm. y d = Inr data \<and> fmlookup m' (Join2 dir n) = Some (File data perm)"
    if "(n, d) \<in> set ?docs" "Join2 dir n \<in> set written" for n d
    using write_docs_content [OF cache_docs_names(2,3) that(1), of dir os y m1] that(2) w
    by (cases r) (auto simp: prod_eq_iff)
  have all: "written = map (\<lambda>nd. Join2 dir (fst nd)) ?docs"
    if "\<forall>c g. os_fails os c g = None" "\<not> list_ex (\<lambda>q. is_file (fmlookup m q)) (ancestors dir)" "\<forall>d. \<exists>data. y d = Inr data"
  proof -
    have "r = None" using mk that(1,2) by (auto simp: MkdirAll_def)
    then show ?thesis using w write_docs_all [of ?docs y os dir m1] that(1,3) by (auto simp: prod_eq_iff)
  qed
  show ?thesis
    using frame content all unfolding S names
    by (auto simp: cache_docs_def Let_def snapshot_lengths [OF assms(3,4)])
qed

text \<open>Witness, for a new extension and an encoder that writes a constant.\<close>

theorem diagnosis_files_witness:
  "fst (writeCacheFiles plain_os (\<lambda>d. Inr ''doc'') createDefaultConfig [] [] newEdgeControllerExtension fmempty)
   = [Join2 ''/tmp/leansignal-agent'' knownCacheFile, Join2 ''/tmp/leansignal-agent'' discoveredCacheFile,
      Join2 ''/tmp/leansignal-agent'' demandCacheFile]"
proof -
  let ?w = "writeCacheFiles plain_os (\<lambda>d. Inr ''doc'') createDefaultConfig [] [] newEdgeControllerExtension fmempty"
  have w: "?w = (fst ?w, snd ?w)" by simp
  have dir: "''/tmp/leansignal-agent'' = diagnostics_dir createDefaultConfig" by code_simp
  have en: "enumerates [] (known (knownTimeseriesCache newEdgeControllerExtension))"
    "enumerates [] (discovered (discoveredTimeseriesCache newEdgeControllerExtension))"
    by (simp_all add: newEdgeControllerExtension_def NewKnownTimeseriesCache_def NewDiscoveredTimeseriesCache_def enumerates_def)
  have ok: "\<forall>c g. os_fails plain_os c g = None" "\<not> list_ex (\<lambda>q. is_file (fmlookup fmempty q)) (ancestors ''/tmp/leansignal-agent'')"
    "\<forall>d. \<exists>data. (Inr ''doc'' :: string + string) = Inr data"
    by (simp_all add: plain_os_def is_file_def list_ex_iff)
  from diagnosis_files [OF w dir en] ok show ?thesis by blast
qed

end
