(* ===== verification/Go_Url.thy ===== *)
theory Go_Url
  imports Go_Strings
begin

text \<open>
  What the agent uses of Go's \<open>net/url\<close>: the escaping of query components and the
  encoding of \<open>url.Values\<close>, with the reading side of the package.  The lemmas: reading back
  an encoded query gives the keys and values that were encoded.
\<close>

section \<open>Escaping\<close>

definition upperhex :: "nat \<Rightarrow> char" where
  "upperhex n = ''0123456789ABCDEF'' ! n"

text \<open>\<open>shouldEscape\<close> for a query component: letters, digits and four marks stand for
  themselves.\<close>

definition plain_query_byte :: "char \<Rightarrow> bool" where
  "plain_query_byte c \<longleftrightarrow>
     (let n = ord c in 0x61 \<le> n \<and> n \<le> 0x7A \<or> 0x41 \<le> n \<and> n \<le> 0x5A \<or> 0x30 \<le> n \<and> n \<le> 0x39)
     \<or> c \<in> set ''-_.~''"

fun QueryEscape :: "string \<Rightarrow> string" where
  "QueryEscape [] = []"
| "QueryEscape (c # s) =
     (if plain_query_byte c then c # QueryEscape s
      else if c = CHR '' '' then CHR ''+'' # QueryEscape s
      else CHR 0x25 # upperhex (ord c div 16) # upperhex (ord c mod 16) # QueryEscape s)"

fun QueryUnescape :: "string \<Rightarrow> string option" where
  "QueryUnescape [] = Some []"
| "QueryUnescape (c # s) =
     (if c = CHR 0x25 then
        (case s of
           h # l # t \<Rightarrow>
             (case (unhex h, unhex l) of
                (Some a, Some b) \<Rightarrow> map_option (\<lambda>r. byte (16 * a + b) # r) (QueryUnescape t)
              | _ \<Rightarrow> None)
         | _ \<Rightarrow> None)
      else map_option (\<lambda>r. (if c = CHR ''+'' then CHR '' '' else c) # r) (QueryUnescape s))"

section \<open>Values\<close>

text \<open>\<open>Values.Encode\<close> writes the keys in order; here with one value per key.\<close>

definition encode_pair :: "string \<times> string \<Rightarrow> string" where
  "encode_pair kv = QueryEscape (fst kv) @ ''='' @ QueryEscape (snd kv)"

definition Values_Encode :: "label_map \<Rightarrow> string" where
  "Values_Encode q = Join (map (\<lambda>k. encode_pair (k, go_get q k)) (sorted_keys q)) ''&''"

fun split_amp :: "string \<Rightarrow> string list" where
  "split_amp [] = [[]]"
| "split_amp (c # s) = (if c = CHR ''&'' then [] # split_amp s else (c # hd (split_amp s)) # tl (split_amp s))"

definition parse_pair :: "string \<Rightarrow> (string \<times> string) option" where
  "parse_pair s =
     (let (k, v, found) = Cut s (CHR ''='') in
      case (QueryUnescape k, QueryUnescape v) of (Some a, Some b) \<Rightarrow> Some (a, b) | _ \<Rightarrow> None)"

fun parse_pairs :: "string list \<Rightarrow> (string \<times> string) list option" where
  "parse_pairs [] = Some []"
| "parse_pairs (s # ss) =
     (if s = [] then parse_pairs ss
      else if CHR '';'' \<in> set s then None
      else case (parse_pair s, parse_pairs ss) of (Some kv, Some kvs) \<Rightarrow> Some (kv # kvs) | _ \<Rightarrow> None)"

definition ParseQuery :: "string \<Rightarrow> (string \<times> string) list option" where
  "ParseQuery s = parse_pairs (split_amp s)"

section \<open>Reading back\<close>

lemma upperhex_facts:
  assumes "n < 16"
  shows "unhex (upperhex n) = Some n" "plain_query_byte (upperhex n)"
proof -
  have "n \<in> set [0..<16]" using assms by simp
  moreover have "\<forall>n \<in> set [0..<16]. unhex (upperhex n) = Some n \<and> plain_query_byte (upperhex n)" by code_simp
  ultimately show "unhex (upperhex n) = Some n" "plain_query_byte (upperhex n)" by blast+
qed

lemma hex_digits: "ord (c::char) div 16 < 16" "16 * (ord c div 16) + ord c mod 16 = ord c"
  using nat_of_char_less_256 [of c] by (simp_all add: div_less_iff_less_mult)

text \<open>The bytes of an escaped string: never a separator.\<close>

definition query_byte :: "char \<Rightarrow> bool" where
  "query_byte c \<longleftrightarrow> plain_query_byte c \<or> c \<in> set ''%+''"

lemma QueryEscape_bytes: "list_all query_byte (QueryEscape s)"
  by (induction s) (simp_all add: query_byte_def upperhex_facts hex_digits)

lemma query_byte_separators [simp]:
  "\<not> query_byte (CHR ''&'')" "\<not> query_byte (CHR ''='')" "\<not> query_byte (CHR '';'')"
  "\<not> plain_query_byte (CHR 0x25)" "\<not> plain_query_byte (CHR ''+'')" "\<not> plain_query_byte (CHR '' '')"
  by code_simp+

lemma QueryEscape_separators [simp]:
  "CHR ''&'' \<notin> set (QueryEscape s)" "CHR ''='' \<notin> set (QueryEscape s)" "CHR '';'' \<notin> set (QueryEscape s)"
  using QueryEscape_bytes [of s] by (auto simp: list_all_iff)

lemma QueryUnescape_QueryEscape [simp]: "QueryUnescape (QueryEscape s) = Some s"
proof (induction s)
  case (Cons c s)
  consider (plain) "plain_query_byte c" | (space) "c = CHR '' ''" | (hex) "\<not> plain_query_byte c" "c \<noteq> CHR '' ''"
    by blast
  then show ?case
  proof cases
    case plain
    then have "c \<noteq> CHR 0x25" "c \<noteq> CHR ''+''" using query_byte_separators(4,5) by blast+
    then show ?thesis using Cons plain by simp
  next
    case space
    then show ?thesis using Cons by simp
  next
    case hex
    then show ?thesis using Cons upperhex_facts(1) hex_digits [of c] by simp
  qed
qed simp

lemma split_amp_nonempty [simp]: "split_amp s \<noteq> []"
  by (cases s) simp_all

lemma split_amp_plain: "CHR ''&'' \<notin> set s \<Longrightarrow> split_amp s = [s]"
  by (induction s) auto

lemma split_amp_append: "CHR ''&'' \<notin> set s \<Longrightarrow> split_amp (s @ CHR ''&'' # t) = s # split_amp t"
  by (induction s) auto

lemma split_amp_Join: "list_all (\<lambda>s. CHR ''&'' \<notin> set s) ss \<Longrightarrow> ss \<noteq> [] \<Longrightarrow> split_amp (Join ss ''&'') = ss"
proof (induction ss rule: induct_list012)
  case (3 s t ss)
  then show ?case by (simp add: split_amp_append)
qed (simp_all add: split_amp_plain)

lemma parse_pairs_encoded: "parse_pairs (map encode_pair kvs) = Some kvs"
  by (induction kvs) (auto simp: parse_pair_def encode_pair_def)

lemma ParseQuery_Encode [simp]: "ParseQuery (Values_Encode q) = Some (map (\<lambda>k. (k, go_get q k)) (sorted_keys q))"
proof (cases "sorted_keys q")
  case Nil
  then show ?thesis by (simp add: ParseQuery_def Values_Encode_def)
next
  case (Cons k ks)
  have "split_amp (Values_Encode q) = map (\<lambda>k. encode_pair (k, go_get q k)) (sorted_keys q)"
    unfolding Values_Encode_def by (rule split_amp_Join) (simp_all add: list_all_iff Cons encode_pair_def)
  then show ?thesis using parse_pairs_encoded [of "map (\<lambda>k. (k, go_get q k)) (sorted_keys q)"]
    by (simp add: ParseQuery_def comp_def)
qed

end
