(* ===== verification/Resolve_Provider.thy ===== *)
theory Resolve_Provider
  imports Go_Url Go_Http
begin

text \<open>
  The configuration provider for \<open>${leansignal:...}\<close> references
  (\<open>src/components/resolveprovider/provider.go\<close>): explicit endpoints from the environment, or
  one lookup of the tenant's region at the control centre from which every endpoint is derived.

  \<open>env\<close> is \<open>os.Getenv\<close>.  The control centre and the HTTP client are the argument
  \<open>resolve_client\<close>: what it answers depends on the requests made so far, whose list is
  threaded through the definitions.  \<open>yaml\<close> is \<open>confmap.NewRetrievedFromYAML\<close>.

  The lemmas: whatever the references are, at most three requests leave the process and every
  reference gets the answer of one lookup; a good answer of the control centre gives endpoints
  under exactly the host it named.
\<close>

section \<open>Data\<close>

datatype resolve_error =
    UnsupportedScheme string
  | TenantUnset
  | RequestError string
  | TransportError string
  | ResolveHTTP nat
  | DecodeError string
  | NoSuchTenant string bool
  | UnexpectedApiUrl string string
  | ContextDone
  | ResolveFailed string string "resolve_error option"
  | UnknownKey string "string list"
  | YamlError string

record 'b resolve_client =
  rc_new :: "string \<Rightarrow> string option"
  rc_do :: "string list \<Rightarrow> string \<Rightarrow> string + nat \<times> 'b"
  rc_decode :: "'b \<Rightarrow> string + string \<times> bool"
  rc_cancelled :: "string list \<Rightarrow> bool"

record provider =
  once :: bool
  vals :: label_map
  p_err :: "resolve_error option"

definition schemeName :: string where "schemeName = ''leansignal''"
definition defaultCCURL :: string where "defaultCCURL = ''https://cc.leansignal.io''"
definition defaultResolveAAT :: string where "defaultResolveAAT = ''fad77809-e6c4-49b0-a508-0e1e469e6553''"
definition envTenant :: string where "envTenant = ''LEANSIGNAL_TENANT''"
definition envCCURL :: string where "envCCURL = ''LEANSIGNAL_CC_URL''"
definition envAAT :: string where "envAAT = ''LEANSIGNAL_RESOLVE_AAT''"
definition envDomain :: string where "envDomain = ''LEANSIGNAL_DOMAIN''"
definition resolveRetries :: nat where "resolveRetries = 3"

definition overrideEnvByKey :: "string \<rightharpoonup> string" where
  "overrideEnvByKey = map_of
     [(''region'', envDomain), (''api'', ''LEANSIGNAL_API_ENDPOINT''), (''grpc'', ''LEANSIGNAL_ENDPOINT''),
      (''dataplane'', ''LEANSIGNAL_DATAPLANE_ENDPOINT''), (''loki'', ''LEANSIGNAL_LOKI_ENDPOINT''),
      (''tempo'', ''LEANSIGNAL_TEMPO_ENDPOINT'')]"

definition newProvider :: provider where
  "newProvider = \<lparr>once = False, vals = fmempty, p_err = None\<rparr>"

section \<open>Resolving\<close>

definition envOr :: "(string \<Rightarrow> string) \<Rightarrow> string \<Rightarrow> string \<Rightarrow> string" where
  "envOr env name def = (let v = TrimSpace (env name) in if v \<noteq> '''' then v else def)"

definition deriveEndpoints :: "string \<Rightarrow> string \<Rightarrow> label_map" where
  "deriveEndpoints slug region = put_all fmempty
     [(''region'', region),
      (''api'', ''https://'' @ slug @ ''-api.'' @ region),
      (''grpc'', slug @ ''-grpc.'' @ region @ '':443''),
      (''dataplane'', ''https://'' @ slug @ ''-metrics-ingest.'' @ region),
      (''loki'', ''https://'' @ slug @ ''-logs-ingest.'' @ region),
      (''tempo'', ''https://'' @ slug @ ''-traces-ingest.'' @ region)]"

definition doResolve ::
    "'b resolve_client \<Rightarrow> string \<Rightarrow> string \<Rightarrow> string list \<Rightarrow> (resolve_error + string) \<times> string list" where
  "doResolve cl endpoint slug reqs =
     (case rc_new cl endpoint of
        Some err \<Rightarrow> (Inl (RequestError err), reqs)
      | None \<Rightarrow>
          (let reqs1 = reqs @ [endpoint] in
           case rc_do cl reqs endpoint of
             Inl err \<Rightarrow> (Inl (TransportError err), reqs1)
           | Inr (status, body) \<Rightarrow>
               if status \<noteq> 200 then (Inl (ResolveHTTP status), reqs1)
               else case rc_decode cl body of
                 Inl err \<Rightarrow> (Inl (DecodeError err), reqs1)
               | Inr (apiURL, tenant) \<Rightarrow>
                   if \<not> tenant \<or> apiURL = '''' then (Inl (NoSuchTenant slug tenant), reqs1)
                   else (Inr apiURL, reqs1)))"

text \<open>The loop over the attempts; the wait between two attempts ends early when the context is
  cancelled.\<close>

function resolve_loop ::
    "'b resolve_client \<Rightarrow> string \<Rightarrow> string \<Rightarrow> string \<Rightarrow> nat \<Rightarrow> resolve_error option \<Rightarrow> string list
     \<Rightarrow> (resolve_error + string) \<times> string list" where
  "resolve_loop cl base endpoint slug attempt lastErr reqs =
     (if attempt > resolveRetries then (Inl (ResolveFailed slug base lastErr), reqs)
      else case doResolve cl endpoint slug reqs of
        (Inr apiURL, reqs1) \<Rightarrow>
          (let region = TrimPrefix apiURL (slug @ ''-api.'') in
           if region = apiURL \<or> region = '''' then (Inl (UnexpectedApiUrl apiURL slug), reqs1)
           else (Inr region, reqs1))
      | (Inl err, reqs1) \<Rightarrow>
          if attempt < resolveRetries \<and> rc_cancelled cl reqs1 then (Inl ContextDone, reqs1)
          else resolve_loop cl base endpoint slug (attempt + 1) (Some err) reqs1)"
  by pat_completeness auto
termination by (relation "measure (\<lambda>(cl, base, endpoint, slug, attempt, e, reqs). Suc resolveRetries - attempt)") auto

declare resolve_loop.simps [simp del]

definition resolve_endpoint :: "string \<Rightarrow> string \<Rightarrow> string \<Rightarrow> string" where
  "resolve_endpoint ccURL slug aat =
     TrimRight1 ccURL slash @ ''/resolve_tenant?'' @ Values_Encode (fmupd ''aat'' aat (fmupd ''tenant'' slug fmempty))"

definition resolveRegion ::
    "'b resolve_client \<Rightarrow> string \<Rightarrow> string \<Rightarrow> string \<Rightarrow> string list \<Rightarrow> (resolve_error + string) \<times> string list" where
  "resolveRegion cl ccURL slug aat reqs =
     resolve_loop cl (TrimRight1 ccURL slash) (resolve_endpoint ccURL slug aat) slug 1 None reqs"

definition resolve ::
    "(string \<Rightarrow> string) \<Rightarrow> 'b resolve_client \<Rightarrow> string list \<Rightarrow> (resolve_error + label_map) \<times> string list" where
  "resolve env cl reqs =
     (let slug = TrimSpace (env envTenant) in
      if slug = '''' then (Inl TenantUnset, reqs)
      else
        (let domain = TrimSpace (env envDomain) in
         if domain = '''' then
           (case resolveRegion cl (envOr env envCCURL defaultCCURL) slug (envOr env envAAT defaultResolveAAT) reqs of
              (Inl err, reqs1) \<Rightarrow> (Inl err, reqs1)
            | (Inr d, reqs1) \<Rightarrow> (Inr (deriveEndpoints slug d), reqs1))
         else (Inr (deriveEndpoints slug domain), reqs)))"

section \<open>Retrieving\<close>

definition uri_key :: "string \<Rightarrow> string" where
  "uri_key uri = TrimSpace (drop (length schemeName + 1) uri)"

definition override :: "(string \<Rightarrow> string) \<Rightarrow> string \<Rightarrow> string option" where
  "override env key =
     (case overrideEnvByKey key of
        None \<Rightarrow> None
      | Some envName \<Rightarrow> (let v = TrimSpace (env envName) in if v \<noteq> '''' then Some v else None))"

definition from_yaml :: "(string \<Rightarrow> string + 'r) \<Rightarrow> string \<Rightarrow> resolve_error + 'r" where
  "from_yaml yaml v = (case yaml v of Inl err \<Rightarrow> Inl (YamlError err) | Inr r \<Rightarrow> Inr r)"

definition once_Do ::
    "(string \<Rightarrow> string) \<Rightarrow> 'b resolve_client \<Rightarrow> provider \<times> string list \<Rightarrow> provider \<times> string list" where
  "once_Do env cl s =
     (case s of (p, reqs) \<Rightarrow>
        if once p then (p, reqs)
        else case resolve env cl reqs of
          (Inl err, reqs1) \<Rightarrow> (\<lparr>once = True, vals = fmempty, p_err = Some err\<rparr>, reqs1)
        | (Inr vs, reqs1) \<Rightarrow> (\<lparr>once = True, vals = vs, p_err = None\<rparr>, reqs1))"

definition Retrieve ::
    "(string \<Rightarrow> string) \<Rightarrow> 'b resolve_client \<Rightarrow> (string \<Rightarrow> string + 'r) \<Rightarrow> string \<Rightarrow> provider \<times> string list
     \<Rightarrow> (resolve_error + 'r) \<times> provider \<times> string list" where
  "Retrieve env cl yaml uri s =
     (if \<not> HasPrefix uri (schemeName @ '':'') then (Inl (UnsupportedScheme uri), s)
      else
        (let key = uri_key uri in
         case override env key of
           Some v \<Rightarrow> (from_yaml yaml v, s)
         | None \<Rightarrow>
             (let (p, reqs) = once_Do env cl s in
              case p_err p of
                Some err \<Rightarrow> (Inl err, (p, reqs))
              | None \<Rightarrow>
                  (case fmlookup (vals p) key of
                     None \<Rightarrow> (Inl (UnknownKey key (sorted_keys (vals p))), (p, reqs))
                   | Some val \<Rightarrow> (from_yaml yaml val, (p, reqs))))))"

text \<open>A run of references, in the order the configuration is expanded.\<close>

fun retrieve_all ::
    "(string \<Rightarrow> string) \<Rightarrow> 'b resolve_client \<Rightarrow> (string \<Rightarrow> string + 'r) \<Rightarrow> string list \<Rightarrow> provider \<times> string list
     \<Rightarrow> (resolve_error + 'r) list \<times> provider \<times> string list" where
  "retrieve_all env cl yaml [] s = ([], s)"
| "retrieve_all env cl yaml (uri # uris) s =
     (let (r, s1) = Retrieve env cl yaml uri s; (rs, s2) = retrieve_all env cl yaml uris s1 in (r # rs, s2))"

section \<open>The answer of one lookup\<close>

definition needs_lookup :: "(string \<Rightarrow> string) \<Rightarrow> string \<Rightarrow> bool" where
  "needs_lookup env uri \<longleftrightarrow> HasPrefix uri (schemeName @ '':'') \<and> override env (uri_key uri) = None"

text \<open>What a reference means, given the outcome of the lookup.\<close>

definition reply ::
    "(string \<Rightarrow> string) \<Rightarrow> (string \<Rightarrow> string + 'r) \<Rightarrow> resolve_error + label_map \<Rightarrow> string \<Rightarrow> resolve_error + 'r" where
  "reply env yaml r uri =
     (if \<not> HasPrefix uri (schemeName @ '':'') then Inl (UnsupportedScheme uri)
      else case override env (uri_key uri) of
        Some v \<Rightarrow> from_yaml yaml v
      | None \<Rightarrow>
          (case r of
             Inl err \<Rightarrow> Inl err
           | Inr vs \<Rightarrow>
               (case fmlookup vs (uri_key uri) of
                  None \<Rightarrow> Inl (UnknownKey (uri_key uri) (sorted_keys vs))
                | Some val \<Rightarrow> from_yaml yaml val)))"

definition settled :: "resolve_error + label_map \<Rightarrow> provider" where
  "settled r = (case r of Inl err \<Rightarrow> \<lparr>once = True, vals = fmempty, p_err = Some err\<rparr>
                | Inr vs \<Rightarrow> \<lparr>once = True, vals = vs, p_err = None\<rparr>)"

lemma once_Do_new: "once_Do env cl (newProvider, reqs) = (settled (fst (resolve env cl reqs)), snd (resolve env cl reqs))"
  by (simp add: once_Do_def newProvider_def settled_def split: prod.split sum.split)

lemma once_Do_settled: "once_Do env cl (settled r, reqs) = (settled r, reqs)"
  by (simp add: once_Do_def settled_def split: sum.split)

lemma Retrieve_new:
  "Retrieve env cl yaml uri (newProvider, reqs) =
     (reply env yaml (fst (resolve env cl reqs)) uri,
      if needs_lookup env uri then (settled (fst (resolve env cl reqs)), snd (resolve env cl reqs))
      else (newProvider, reqs))"
  by (cases "fst (resolve env cl reqs)")
    (auto simp: Retrieve_def reply_def needs_lookup_def once_Do_new settled_def Let_def split: option.splits)

lemma Retrieve_settled: "Retrieve env cl yaml uri (settled r, reqs) = (reply env yaml r uri, (settled r, reqs))"
  by (cases r) (auto simp: Retrieve_def reply_def once_Do_def settled_def Let_def split: option.splits)

lemma retrieve_all_settled:
  "retrieve_all env cl yaml uris (settled r, reqs) = (map (reply env yaml r) uris, (settled r, reqs))"
  by (induction uris) (simp_all add: Retrieve_settled)

lemma retrieve_all_new:
  "retrieve_all env cl yaml uris (newProvider, reqs) =
     (map (reply env yaml (fst (resolve env cl reqs))) uris,
      if list_ex (needs_lookup env) uris then (settled (fst (resolve env cl reqs)), snd (resolve env cl reqs))
      else (newProvider, reqs))"
  by (induction uris) (auto simp: Retrieve_new retrieve_all_settled Let_def)

section \<open>Attempts\<close>

lemma doResolve_requests: "snd (doResolve cl ep slug reqs) \<in> {reqs, reqs @ [ep]}"
  by (auto simp: doResolve_def Let_def split: option.split sum.split prod.split)

lemma resolve_loop_requests:
  "\<exists>k. snd (resolve_loop cl base ep slug attempt e reqs) = reqs @ replicate k ep \<and> k \<le> Suc resolveRetries - attempt"
proof (induction cl base ep slug attempt e reqs rule: resolve_loop.induct)
  case (1 cl base ep slug attempt e reqs)
  obtain r reqs1 where d: "doResolve cl ep slug reqs = (r, reqs1)" by fastforce
  then obtain j where j: "reqs1 = reqs @ replicate j ep" "j \<le> 1"
    using doResolve_requests [of cl ep slug reqs] by (force intro: that [of 0] that [of 1])
  show ?case
  proof (cases "attempt > resolveRetries")
    case False
    then have one: "j \<le> Suc resolveRetries - attempt" using j(2) by simp
    show ?thesis
    proof (cases r)
      case (Inl err)
      show ?thesis
      proof (cases "attempt < resolveRetries \<and> rc_cancelled cl reqs1")
        case True
        then show ?thesis using one j(1) d Inl False by (subst resolve_loop.simps) auto
      next
        case cont: False
        from "1.IH" [OF False d [symmetric] Inl cont] obtain k where
          "snd (resolve_loop cl base ep slug (attempt + 1) (Some err) reqs1) = reqs1 @ replicate k ep"
          "k \<le> Suc resolveRetries - (attempt + 1)" by blast
        then show ?thesis using j False d Inl cont
          by (intro exI [of _ "j + k"]) (subst resolve_loop.simps, auto simp: replicate_add)
      qed
    next
      case (Inr apiURL)
      then show ?thesis using one j(1) d False by (subst resolve_loop.simps) (auto simp: Let_def)
    qed
  qed (simp add: resolve_loop.simps)
qed

lemma resolve_requests:
  "\<exists>k \<le> resolveRetries. snd (resolve env cl reqs) = reqs @ replicate k
     (resolve_endpoint (envOr env envCCURL defaultCCURL) (TrimSpace (env envTenant)) (envOr env envAAT defaultResolveAAT))"
proof -
  let ?cc = "envOr env envCCURL defaultCCURL" and ?slug = "TrimSpace (env envTenant)"
    and ?aat = "envOr env envAAT defaultResolveAAT"
  obtain k where k: "snd (resolveRegion cl ?cc ?slug ?aat reqs) = reqs @ replicate k (resolve_endpoint ?cc ?slug ?aat)"
    "k \<le> resolveRetries"
    using resolve_loop_requests [of cl _ "resolve_endpoint ?cc ?slug ?aat" ?slug 1 None reqs]
    by (auto simp: resolveRegion_def)
  have "snd (resolve env cl reqs) \<in> {reqs, snd (resolveRegion cl ?cc ?slug ?aat reqs)}"
    by (auto simp: resolve_def Let_def split: prod.split sum.split)
  then show ?thesis using k by (cases "snd (resolve env cl reqs) = reqs") (auto intro: exI [of _ 0])
qed

text \<open>A good answer after failed attempts ends the loop.\<close>

lemma resolve_loop_answer:
  assumes "attempt + n \<le> resolveRetries" "\<forall>reqs. \<not> rc_cancelled cl reqs" "rc_new cl ep = None"
    and "\<forall>i < n. \<exists>err. fst (doResolve cl ep slug (reqs @ replicate i ep)) = Inl err"
    and "fst (doResolve cl ep slug (reqs @ replicate n ep)) = Inr (slug @ ''-api.'' @ region)" and "region \<noteq> ''''"
  shows "resolve_loop cl base ep slug attempt e reqs = (Inr region, reqs @ replicate (Suc n) ep)"
  using assms
proof (induction n arbitrary: attempt e reqs)
  case 0
  have "snd (doResolve cl ep slug reqs) = reqs @ [ep]"
    using "0.prems"(3) by (auto simp: doResolve_def Let_def split: sum.split prod.split)
  then have "doResolve cl ep slug reqs = (Inr (slug @ ''-api.'' @ region), reqs @ [ep])"
    using "0.prems"(5) by (simp add: prod_eq_iff)
  moreover have "TrimPrefix (slug @ ''-api.'' @ region) (slug @ ''-api.'') = region"
    using TrimPrefix_append [of "slug @ ''-api.''" region] by simp
  moreover have "region \<noteq> slug @ ''-api.'' @ region" by simp
  ultimately show ?case using "0.prems"(1,6) by (subst resolve_loop.simps) (simp add: Let_def)
next
  case (Suc n)
  obtain err where "fst (doResolve cl ep slug reqs) = Inl err" using Suc.prems(4) by fastforce
  moreover have "snd (doResolve cl ep slug reqs) = reqs @ [ep]"
    using Suc.prems(3) by (auto simp: doResolve_def Let_def split: sum.split prod.split)
  ultimately have d: "doResolve cl ep slug reqs = (Inl err, reqs @ [ep])" by (simp add: prod_eq_iff)
  have shift: "(reqs @ [ep]) @ replicate i ep = reqs @ replicate (Suc i) ep" for i by simp
  have "resolve_loop cl base ep slug (attempt + 1) (Some err) (reqs @ [ep])
      = (Inr region, (reqs @ [ep]) @ replicate (Suc n) ep)"
    using Suc.prems by (intro Suc.IH) (simp_all only: shift, auto)
  then show ?case using d Suc.prems(1,2) by (subst resolve_loop.simps) simp
qed

lemma aat_keys: "sorted_keys (fmupd ''aat'' a (fmupd ''tenant'' b fmempty)) = [''aat'', ''tenant'']"
proof -
  have "sorted_list_of_fset {|''aat'', ''tenant''|} = [''aat'', ''tenant'']" by code_simp
  then show ?thesis by (simp add: sorted_keys_def)
qed

section \<open>An example\<close>

definition one_env :: "string \<Rightarrow> string" where
  "one_env name = (if name = envTenant then ''acme'' else '''')"

definition flaky_client :: "unit resolve_client" where
  "flaky_client = \<lparr>rc_new = (\<lambda>ep. None), rc_do = (\<lambda>reqs ep. if reqs = [] then Inl ''refused'' else Inr (200, ())),
     rc_decode = (\<lambda>b. Inr (''acme-api.eu1'', True)), rc_cancelled = (\<lambda>reqs. False)\<rparr>"

section \<open>Properties\<close>

text \<open>
  C22: one lookup serves the whole configuration.  However many references the configuration has,
  each gets the answer that a single lookup, made before any other, gives it (an explicit
  endpoint from the environment wins); all requests that leave the process are for the one
  resolve URL, there are at most three of them, and none when every reference is explicit.
\<close>

theorem resolved_once:
  "fst (retrieve_all env cl yaml uris (newProvider, [])) = map (reply env yaml (fst (resolve env cl []))) uris
   \<and> snd (snd (retrieve_all env cl yaml uris (newProvider, [])))
       = (if list_ex (needs_lookup env) uris then snd (resolve env cl []) else [])
   \<and> (\<exists>k \<le> 3. snd (resolve env cl []) = replicate k (resolve_endpoint (envOr env envCCURL defaultCCURL)
        (TrimSpace (env envTenant)) (envOr env envAAT defaultResolveAAT)))"
  using resolve_requests [of env cl "[]"] by (simp add: retrieve_all_new resolveRetries_def)

text \<open>
  C23: the endpoints are those of the tenant's region.  When the tenant is set, the region is not
  pinned, and the control centre answers one of the three attempts with the host of the tenant's
  API, then the lookup succeeds; the request carries exactly the token and the tenant; the
  \<open>api\<close> endpoint is the host the control centre named, and the other endpoints are the
  tenant's hosts in the same region.
\<close>

theorem resolved_endpoints:
  assumes "slug = TrimSpace (env envTenant)" "slug \<noteq> ''''" "TrimSpace (env envDomain) = ''''"
    and "cc = envOr env envCCURL defaultCCURL" "aat = envOr env envAAT defaultResolveAAT"
    and "ep = resolve_endpoint cc slug aat"
    and "\<forall>reqs. \<not> rc_cancelled cl reqs" "rc_new cl ep = None" "n < 3"
    and "\<forall>i < n. \<exists>err. fst (doResolve cl ep slug (replicate i ep)) = Inl err"
    and "rc_do cl (replicate n ep) ep = Inr (200, body)" "rc_decode cl body = Inr (host, True)"
    and "host = slug @ ''-api.'' @ region" "region \<noteq> ''''"
  shows "\<exists>vs. resolve env cl [] = (Inr vs, replicate (Suc n) ep)
    \<and> (\<exists>q. ep = TrimRight1 cc slash @ ''/resolve_tenant?'' @ q \<and> ParseQuery q = Some [(''aat'', aat), (''tenant'', slug)])
    \<and> fmlookup vs ''api'' = Some (''https://'' @ host) \<and> fmlookup vs ''region'' = Some region
    \<and> fmlookup vs ''grpc'' = Some (slug @ ''-grpc.'' @ region @ '':443'')
    \<and> fmlookup vs ''dataplane'' = Some (''https://'' @ slug @ ''-metrics-ingest.'' @ region)
    \<and> fmlookup vs ''loki'' = Some (''https://'' @ slug @ ''-logs-ingest.'' @ region)
    \<and> fmlookup vs ''tempo'' = Some (''https://'' @ slug @ ''-traces-ingest.'' @ region)"
proof -
  let ?q = "Values_Encode (fmupd ''aat'' aat (fmupd ''tenant'' slug fmempty))"
  have "fst (doResolve cl ep slug (replicate n ep)) = Inr (slug @ ''-api.'' @ region)"
    using assms(2,8,11-13) by (simp add: doResolve_def Let_def)
  then have "resolveRegion cl cc slug aat [] = (Inr region, replicate (Suc n) ep)"
    using resolve_loop_answer [of 1 n cl ep slug "[]" region] assms(7-10,14)
    by (simp add: resolveRegion_def resolveRetries_def flip: assms(6))
  then have r: "resolve env cl [] = (Inr (deriveEndpoints slug region), replicate (Suc n) ep)"
    using assms(1-5) by (simp add: resolve_def)
  have q: "ep = TrimRight1 cc slash @ ''/resolve_tenant?'' @ ?q" "ParseQuery ?q = Some [(''aat'', aat), (''tenant'', slug)]"
    using assms(6) by (simp_all add: resolve_endpoint_def aat_keys)
  show ?thesis
    by (rule exI [of _ "deriveEndpoints slug region"], intro conjI, rule r, rule exI [of _ ?q], intro conjI q)
      (simp_all add: deriveEndpoints_def assms(13))
qed

text \<open>Witness of C23, with a control centre that fails once.\<close>

theorem resolved_endpoints_witness:
  "\<exists>vs. resolve one_env flaky_client [] = (Inr vs, replicate 2 (resolve_endpoint defaultCCURL ''acme'' defaultResolveAAT))
     \<and> fmlookup vs ''tempo'' = Some ''https://acme-traces-ingest.eu1''"
proof -
  have env: "''acme'' = TrimSpace (one_env envTenant)" "TrimSpace (one_env envDomain) = ''''"
    "defaultCCURL = envOr one_env envCCURL defaultCCURL" "defaultResolveAAT = envOr one_env envAAT defaultResolveAAT"
    by code_simp+
  have cl: "\<forall>reqs. \<not> rc_cancelled flaky_client reqs" "\<And>ep. rc_new flaky_client ep = None"
    "\<And>ep. \<forall>i < 1. \<exists>err. fst (doResolve flaky_client ep ''acme'' (replicate i ep)) = Inl err"
    "\<And>ep. rc_do flaky_client (replicate 1 ep) ep = Inr (200, ())" "rc_decode flaky_client () = Inr (''acme-api.eu1'', True)"
    "''acme-api.eu1'' = ''acme'' @ ''-api.'' @ ''eu1''"
    by (simp_all add: flaky_client_def doResolve_def)
  have ne: "''acme'' \<noteq> ''''" "''eu1'' \<noteq> ''''" "(1::nat) < 3" by simp_all
  obtain vs where "resolve one_env flaky_client [] = (Inr vs, replicate (Suc 1) (resolve_endpoint defaultCCURL ''acme'' defaultResolveAAT))"
    "fmlookup vs ''tempo'' = Some (''https://'' @ ''acme'' @ ''-traces-ingest.'' @ ''eu1'')"
    using resolved_endpoints [OF env(1) ne(1) env(2,3,4) refl cl(1,2) ne(3) cl(3-6) ne(2)] by blast
  then show ?thesis by (simp add: numeral_2_eq_2)
qed

end
