(* ===== verification/Trace_Router.thy ===== *)
theory Trace_Router
  imports Trace_Demand_Filter Go_Http
begin

text \<open>
  The per-rule trace exporter (\<open>src/components/tracerouter\<close>).  A batch is split by the
  rule stamp the trace filter left on each resource, and every group is pushed to the trace
  endpoint with the rule in a header.  The environment of a push (marshalling, building the
  request, the HTTP round trip, which may depend on everything sent before) is the argument
  \<open>http\<close>; the order in which the Go map of groups is visited is the argument
  \<open>visit\<close>, the order of the configured headers is \<open>hvisit\<close>.

  The lemmas give the groups in closed form, show that filter and router together deliver to
  a rule exactly what it demands, and classify the outcome of a push.
\<close>

section \<open>Configuration (config.go)\<close>

record router_config =
  Endpoint :: string
  Headers :: label_map
  Timeout :: int

datatype config_error = EndpointRequired | TimeoutNotPositive

definition router_Validate :: "router_config \<Rightarrow> config_error option" where
  "router_Validate c =
     (if TrimSpace (Endpoint c) = '''' then Some EndpointRequired
      else if Timeout c \<le> 0 then Some TimeoutNotPositive
      else None)"

section \<open>Grouping (exporter.go)\<close>

definition RuleHeader :: string where
  "RuleHeader = ''X-Lean-Trace-Rule''"

definition filter_id :: "('m, 'v) pcommon \<Rightarrow> ('m, 'x) resource_group \<Rightarrow> string" where
  "filter_id pc rs =
     (case pm_get pc (rg_attrs rs) FilterIDAttr of None \<Rightarrow> '''' | Some v \<Rightarrow> pv_str pc v)"

definition strip :: "('m, 'v) pcommon \<Rightarrow> ('m, 'x) resource_group \<Rightarrow> ('m, 'x) resource_group" where
  "strip pc rs = rs\<lparr>rg_attrs := pm_remove pc (rg_attrs rs) FilterIDAttr\<rparr>"

fun group_into ::
    "('m, 'v) pcommon \<Rightarrow> (string, ('m, 'x) resource_group list) fmap \<Rightarrow> ('m, 'x) resource_group list
     \<Rightarrow> (string, ('m, 'x) resource_group list) fmap" where
  "group_into pc out [] = out"
| "group_into pc out (rs # rss) =
     (let filterID = filter_id pc rs;
          batch = (case fmlookup out filterID of None \<Rightarrow> [] | Some b \<Rightarrow> b)
      in group_into pc (fmupd filterID (batch @ [strip pc rs]) out) rss)"

definition groupByFilterID ::
    "('m, 'v) pcommon \<Rightarrow> ('m, 'x) resource_group list \<Rightarrow> (string, ('m, 'x) resource_group list) fmap" where
  "groupByFilterID pc td = group_into pc fmempty td"

section \<open>Pushing (exporter.go)\<close>

record http_request =
  req_url :: string
  req_header :: label_map
  req_body :: string

record ('w, 'b) http =
  MarshalProto :: "'b \<Rightarrow> string option"
  NewRequest_ok :: "string \<Rightarrow> bool"
  http_Do :: "'w \<Rightarrow> http_request \<Rightarrow> int option \<times> 'w"

datatype push_error =
    MarshalError
  | RequestError
  | TransportError
  | HTTPError int
  | PermanentHTTPError int

definition tracesURL :: "router_config \<Rightarrow> string" where
  "tracesURL cfg = TrimRight1 (Endpoint cfg) (CHR ''/'') @ ''/v1/traces''"

fun set_headers :: "label_map \<Rightarrow> label_map \<Rightarrow> string list \<Rightarrow> label_map" where
  "set_headers h cfgHeaders [] = h"
| "set_headers h cfgHeaders (k # ks) = set_headers (Header_Set h k (go_get cfgHeaders k)) cfgHeaders ks"

definition push_headers :: "router_config \<Rightarrow> string list \<Rightarrow> string \<Rightarrow> label_map" where
  "push_headers cfg hvisit filterID =
     (let h = Header_Set fmempty ''Content-Type'' ''application/x-protobuf'';
          h = set_headers h (Headers cfg) hvisit
      in if filterID \<noteq> '''' then Header_Set h RuleHeader filterID else h)"

definition StatusRequestTimeout :: int where "StatusRequestTimeout = 408"
definition StatusTooManyRequests :: int where "StatusTooManyRequests = 429"

definition push_status :: "int \<Rightarrow> push_error option" where
  "push_status code =
     (if code < 200 \<or> code \<ge> 300 then
        if code \<ge> 400 \<and> code < 500 \<and> code \<noteq> StatusRequestTimeout \<and> code \<noteq> StatusTooManyRequests
        then Some (PermanentHTTPError code)
        else Some (HTTPError code)
      else None)"

definition push ::
    "('w, 'b) http \<Rightarrow> router_config \<Rightarrow> string list \<Rightarrow> 'w \<Rightarrow> string \<Rightarrow> 'b
     \<Rightarrow> push_error option \<times> 'w \<times> http_request list" where
  "push http cfg hvisit w filterID td =
     (case MarshalProto http td of
        None \<Rightarrow> (Some MarshalError, w, [])
      | Some body \<Rightarrow>
          if \<not> NewRequest_ok http (tracesURL cfg) then (Some RequestError, w, [])
          else let req = \<lparr>req_url = tracesURL cfg, req_header = push_headers cfg hvisit filterID, req_body = body\<rparr>;
                   (resp, w') = http_Do http w req
            in (case resp of
                  None \<Rightarrow> (Some TransportError, w', [req])
                | Some code \<Rightarrow> (push_status code, w', [req])))"

fun push_groups ::
    "('w, ('m, 'x) resource_group list) http \<Rightarrow> router_config \<Rightarrow> string list \<Rightarrow> 'w
     \<Rightarrow> (string, ('m, 'x) resource_group list) fmap \<Rightarrow> string list
     \<Rightarrow> (string \<times> push_error) option \<times> 'w \<times> http_request list" where
  "push_groups http cfg hvisit w groups [] = (None, w, [])"
| "push_groups http cfg hvisit w groups (filterID # ids) =
     (case fmlookup groups filterID of
        None \<Rightarrow> push_groups http cfg hvisit w groups ids
      | Some batch \<Rightarrow>
          (case push http cfg hvisit w filterID batch of
             (Some err, w', reqs) \<Rightarrow> (Some (filterID, err), w', reqs)
           | (None, w', reqs) \<Rightarrow>
               (case push_groups http cfg hvisit w' groups ids of
                  (res, w'', reqs') \<Rightarrow> (res, w'', reqs @ reqs'))))"

definition pushTraces ::
    "('m, 'v) pcommon \<Rightarrow> ('w, ('m, 'x) resource_group list) http \<Rightarrow> router_config \<Rightarrow> string list
     \<Rightarrow> string list \<Rightarrow> 'w \<Rightarrow> ('m, 'x) resource_group list
     \<Rightarrow> (string \<times> push_error) option \<times> 'w \<times> http_request list" where
  "pushTraces pc http cfg hvisit visit w td = push_groups http cfg hvisit w (groupByFilterID pc td) visit"

section \<open>The groups\<close>

definition group_of ::
    "('m, 'v) pcommon \<Rightarrow> string \<Rightarrow> ('m, 'x) resource_group list \<Rightarrow> ('m, 'x) resource_group list" where
  "group_of pc fid td = map (strip pc) (filter (\<lambda>rs. filter_id pc rs = fid) td)"

lemma group_into_lookup:
  "fmlookup (group_into pc out td) fid =
     (if group_of pc fid td = [] then fmlookup out fid
      else Some ((case fmlookup out fid of None \<Rightarrow> [] | Some b \<Rightarrow> b) @ group_of pc fid td))"
  by (induction pc out td rule: group_into.induct) (auto simp: group_of_def Let_def split: option.splits)

lemma groupByFilterID_lookup:
  "fmlookup (groupByFilterID pc td) fid =
     (if group_of pc fid td = [] then None else Some (group_of pc fid td))"
  by (simp add: groupByFilterID_def group_into_lookup)

lemma groupByFilterID_keys:
  "fmlookup (groupByFilterID pc td) fid \<noteq> None \<longleftrightarrow> fid \<in> filter_id pc ` set td"
  by (auto simp: groupByFilterID_lookup group_of_def filter_empty_conv)

text \<open>A resource as the exporter's receiver sees it: its attributes and its content.\<close>

definition view :: "('m, 'v) pcommon \<Rightarrow> ('m, 'x) resource_group \<Rightarrow> (string \<Rightarrow> 'v option) \<times> 'x" where
  "view pc rs = (pm_get pc (rg_attrs rs), rg_rest rs)"

lemma pcommon_lawsD:
  assumes "pcommon_laws pc"
  shows "pm_get pc (pm_remove pc (pm_putStr pc m k s) k) = (pm_get pc m)(k := None)"
    and "\<exists>v. pm_get pc (pm_putStr pc m k s) k = Some v \<and> pv_str pc v = s"
  using assms unfolding pcommon_laws_def by (auto simp: fun_eq_iff)

lemma filter_id_stamp: "pcommon_laws pc \<Longrightarrow> filter_id pc (stamp pc fid rs) = fid"
  using pcommon_lawsD(2) [of pc "rg_attrs rs" FilterIDAttr fid]
  by (auto simp: filter_id_def stamp_def)

lemma view_strip_stamp:
  "pcommon_laws pc \<Longrightarrow>
   view pc (strip pc (stamp pc fid rs)) = ((pm_get pc (rg_attrs rs))(FilterIDAttr := None), rg_rest rs)"
  by (simp add: view_def strip_def stamp_def pcommon_lawsD(1))

lemma group_of_routed:
  assumes "pcommon_laws pc"
  shows "map (view pc) (group_of pc fid (routed lib pc routes td)) =
    concat (map (\<lambda>rs. replicate (count_list (rules_for lib pc routes (rg_attrs rs)) fid)
      ((pm_get pc (rg_attrs rs))(FilterIDAttr := None), rg_rest rs)) td)"
proof (induction td)
  case (Cons rs td)
  have "map (view pc) (map (strip pc) (filter (\<lambda>rs. filter_id pc rs = fid) (map (\<lambda>f. stamp pc f rs) fs)))
    = replicate (count_list fs fid) ((pm_get pc (rg_attrs rs))(FilterIDAttr := None), rg_rest rs)" for fs
    by (induction fs) (simp_all add: filter_id_stamp view_strip_stamp assms fun_upd_def)
  with Cons show ?case by (simp add: group_of_def routed_def fun_upd_def)
qed (simp add: group_of_def routed_def)

section \<open>Pushes\<close>

lemma set_headers_other:
  "k \<notin> CanonicalMIMEHeaderKey ` set ks \<Longrightarrow> fmlookup (set_headers h cfgHeaders ks) k = fmlookup h k"
  by (induction ks arbitrary: h) (auto simp: Header_Set_def)

lemma canonical_RuleHeader [simp]: "CanonicalMIMEHeaderKey RuleHeader = RuleHeader"
  by code_simp

lemma push_requests:
  assumes "push http cfg hvisit w fid td = (None, w', reqs)"
  shows "\<exists>body. MarshalProto http td = Some body \<and>
    reqs = [\<lparr>req_url = tracesURL cfg, req_header = push_headers cfg hvisit fid, req_body = body\<rparr>]"
  using assms by (auto simp: push_def Let_def split: option.splits if_splits prod.splits)

text \<open>The request a group becomes.\<close>

definition request_of ::
    "('w, 'b) http \<Rightarrow> router_config \<Rightarrow> string list \<Rightarrow> string \<Rightarrow> 'b \<Rightarrow> http_request" where
  "request_of http cfg hvisit fid td =
     \<lparr>req_url = tracesURL cfg, req_header = push_headers cfg hvisit fid, req_body = the (MarshalProto http td)\<rparr>"

lemma push_groups_requests:
  assumes "push_groups http cfg hvisit w groups ids = (None, w', reqs)"
    and "\<forall>fid \<in> set ids. fmlookup groups fid \<noteq> None"
  shows "reqs = map (\<lambda>fid. request_of http cfg hvisit fid (the (fmlookup groups fid))) ids"
  using assms
proof (induction ids arbitrary: w reqs)
  case (Cons fid ids)
  then obtain batch w1 reqs1 reqs2 where b: "fmlookup groups fid = Some batch"
    "push http cfg hvisit w fid batch = (None, w1, reqs1)"
    "push_groups http cfg hvisit w1 groups ids = (None, w', reqs2)" "reqs = reqs1 @ reqs2"
    by (auto split: option.splits prod.splits)
  with Cons push_requests [OF b(2)] show ?case by (auto simp: request_of_def)
qed simp

lemma push_headers_rule:
  "fid \<noteq> '''' \<Longrightarrow> fmlookup (push_headers cfg hvisit fid) RuleHeader = Some fid"
  "RuleHeader \<notin> CanonicalMIMEHeaderKey ` set hvisit \<Longrightarrow> fmlookup (push_headers cfg hvisit '''') RuleHeader = None"
proof -
  show "fid \<noteq> '''' \<Longrightarrow> fmlookup (push_headers cfg hvisit fid) RuleHeader = Some fid"
    by (simp add: push_headers_def Header_Set_def)
  have "CanonicalMIMEHeaderKey ''Content-Type'' \<noteq> RuleHeader" by code_simp
  then show "RuleHeader \<notin> CanonicalMIMEHeaderKey ` set hvisit \<Longrightarrow>
      fmlookup (push_headers cfg hvisit '''') RuleHeader = None"
    by (simp add: push_headers_def Let_def set_headers_other) (simp add: Header_Set_def)
qed

text \<open>What the endpoint answers to a sequence of requests, and how a status is read.\<close>

fun responses :: "('w, 'b) http \<Rightarrow> 'w \<Rightarrow> http_request list \<Rightarrow> int option list" where
  "responses http w [] = []"
| "responses http w (r # rs) = (case http_Do http w r of (resp, w') \<Rightarrow> resp # responses http w' rs)"

definition accepted :: "int option \<Rightarrow> bool" where
  "accepted resp \<longleftrightarrow> (\<exists>c \<in> {200..299}. resp = Some c)"

definition never_later :: "int \<Rightarrow> bool" where
  "never_later c \<longleftrightarrow> c \<in> {400..499} - {408, 429}"

text \<open>An error and the cause it reports: the requests made for the group and their answers.\<close>

definition error_cause ::
    "('w, 'b) http \<Rightarrow> router_config \<Rightarrow> string list \<Rightarrow> string \<Rightarrow> 'b \<Rightarrow> push_error \<Rightarrow> http_request list \<Rightarrow> int option list \<Rightarrow> bool" where
  "error_cause http cfg hvisit fid batch err reqs resps =
     (case err of
        MarshalError \<Rightarrow> MarshalProto http batch = None \<and> reqs = [] \<and> resps = []
      | RequestError \<Rightarrow>
          MarshalProto http batch \<noteq> None \<and> \<not> NewRequest_ok http (tracesURL cfg) \<and> reqs = [] \<and> resps = []
      | TransportError \<Rightarrow> reqs = [request_of http cfg hvisit fid batch] \<and> resps = [None]
      | HTTPError c \<Rightarrow>
          reqs = [request_of http cfg hvisit fid batch] \<and> resps = [Some c] \<and> \<not> accepted (Some c) \<and> \<not> never_later c
      | PermanentHTTPError c \<Rightarrow>
          reqs = [request_of http cfg hvisit fid batch] \<and> resps = [Some c] \<and> never_later c)"

lemma push_status_reads:
  "push_status c = None \<longleftrightarrow> accepted (Some c)" "push_status c = Some (PermanentHTTPError k) \<longleftrightarrow> k = c \<and> never_later c"
  "push_status c = Some (HTTPError k) \<longleftrightarrow> k = c \<and> \<not> accepted (Some c) \<and> \<not> never_later c"
  "push_status c \<noteq> Some MarshalError" "push_status c \<noteq> Some RequestError" "push_status c \<noteq> Some TransportError"
  by (auto simp: push_status_def accepted_def never_later_def StatusRequestTimeout_def StatusTooManyRequests_def)

lemma push_outcome:
  assumes "push http cfg hvisit w fid td = (res, w', reqs)"
  shows "case res of
      None \<Rightarrow> reqs = [request_of http cfg hvisit fid td]
        \<and> (\<exists>resp. http_Do http w (request_of http cfg hvisit fid td) = (resp, w') \<and> accepted resp)
    | Some err \<Rightarrow> error_cause http cfg hvisit fid td err reqs (responses http w reqs)"
proof (cases "MarshalProto http td = None \<or> \<not> NewRequest_ok http (tracesURL cfg)")
  case True
  then show ?thesis using assms by (auto simp: push_def error_cause_def split: option.splits)
next
  case False
  obtain resp v where do: "http_Do http w (request_of http cfg hvisit fid td) = (resp, v)" by fastforce
  then have "res = (case resp of None \<Rightarrow> Some TransportError | Some c \<Rightarrow> push_status c)" "w' = v"
    "reqs = [request_of http cfg hvisit fid td]"
    using assms False by (auto simp: push_def request_of_def Let_def split: option.splits)
  then show ?thesis using do
    by (cases "case resp of None \<Rightarrow> Some TransportError | Some c \<Rightarrow> push_status c")
      (auto simp: push_status_reads error_cause_def split: push_error.split option.splits)
qed

lemma push_groups_outcome:
  assumes "push_groups http cfg hvisit w groups ids = (res, w', reqs)" "\<forall>fid \<in> set ids. fmlookup groups fid = Some (g fid)"
  shows "case res of
      None \<Rightarrow> reqs = map (\<lambda>f. request_of http cfg hvisit f (g f)) ids \<and> list_all accepted (responses http w reqs)
    | Some (fid, err) \<Rightarrow>
        (\<exists>pre post mine ok resps. ids = pre @ fid # post \<and> reqs = map (\<lambda>f. request_of http cfg hvisit f (g f)) pre @ mine
           \<and> responses http w reqs = ok @ resps \<and> length ok = length pre \<and> list_all accepted ok
           \<and> error_cause http cfg hvisit fid (g fid) err mine resps)"
  using assms
proof (induction ids arbitrary: w reqs)
  case (Cons i ids)
  obtain r v rs where p: "push http cfg hvisit w i (g i) = (r, v, rs)" by (metis prod_cases3)
  note eff = push_outcome [OF p]
  show ?case
  proof (cases r)
    case (Some err)
    then have r: "res = Some (i, err)" "reqs = rs" using Cons.prems p by auto
    have "i # ids = [] @ i # ids \<and> rs = map (\<lambda>f. request_of http cfg hvisit f (g f)) [] @ rs
      \<and> responses http w rs = [] @ responses http w rs \<and> length ([] :: int option list) = length ([] :: string list)
      \<and> list_all accepted [] \<and> error_cause http cfg hvisit i (g i) err rs (responses http w rs)"
      using eff Some by simp
    then show ?thesis unfolding r option.case prod.case by blast
  next
    case None
    obtain rs' where rest: "push_groups http cfg hvisit v groups ids = (res, w', rs')" "reqs = rs @ rs'"
      using Cons.prems p None by (auto split: prod.splits)
    obtain resp where do: "rs = [request_of http cfg hvisit i (g i)]"
      "http_Do http w (request_of http cfg hvisit i (g i)) = (resp, v)" "accepted resp"
      using eff None by auto
    note ih = Cons.IH [OF rest(1)]
    show ?thesis
    proof (cases res)
      case None
      then show ?thesis using ih Cons.prems(2) rest(2) do by auto
    next
      case (Some fe)
      obtain fid err where fe: "fe = (fid, err)" by fastforce
      then obtain pre post mine ok resps where "ids = pre @ fid # post"
        "rs' = map (\<lambda>f. request_of http cfg hvisit f (g f)) pre @ mine" "responses http v rs' = ok @ resps"
        "length ok = length pre" "list_all accepted ok" "error_cause http cfg hvisit fid (g fid) err mine resps"
        using ih Cons.prems(2) Some by auto
      then have "i # ids = (i # pre) @ fid # post \<and> reqs = map (\<lambda>f. request_of http cfg hvisit f (g f)) (i # pre) @ mine
        \<and> responses http w reqs = (resp # ok) @ resps \<and> length (resp # ok) = length (i # pre)
        \<and> list_all accepted (resp # ok) \<and> error_cause http cfg hvisit fid (g fid) err mine resps"
        using rest(2) do by simp
      then show ?thesis unfolding Some fe option.case prod.case by blast
    qed
  qed
qed simp

text \<open>A rule of the routing table demands the resources its selector matches.\<close>

definition route_demands :: "'re regexp_lib \<Rightarrow> Route \<Rightarrow> label_map \<Rightarrow> bool" where
  "route_demands lib r labels =
     (case ParseDotted lib (Selector r) of Inl err \<Rightarrow> False | Inr sel \<Rightarrow> Selector_Matches lib sel labels)"

lemma rules_for_count:
  "count_list (rules_for lib pc routes attrs) fid =
     length (filter (\<lambda>r. FilterID r = fid \<and> route_demands lib r (resourceLabels pc attrs)) routes)"
  by (induction routes) (auto simp: rules_for_def route_demands_def split: sum.splits)

text \<open>Grouping commutes with leaving out the resources without spans.\<close>

lemma group_of_with_spans: "with_spans spanCount (group_of pc fid td) = group_of pc fid (with_spans spanCount td)"
  by (simp add: group_of_def with_spans_def filter_map comp_def strip_def conj_commute)

lemma routed_with_spans: "with_spans spanCount (routed lib pc routes td) = routed lib pc routes (with_spans spanCount td)"
  by (induction td) (auto simp: routed_def with_spans_def stamp_def filter_map comp_def)

section \<open>Properties\<close>

text \<open>C14: filter and router together isolate the rules.  After any run of batches, what the trace
  filter forwards of a batch while there are routes is grouped by the router so that the group of
  a rule consists of the resources that rule demands, once for every entry of the
  routing table that carries its id and matches, in order, with their attributes and spans unchanged
  and without the internal stamp; an id that demands nothing gets nothing.  (Resources without
  spans are left out of the comparison.)\<close>

theorem routed_groups:
  assumes "pcommon_laws pc" "p0 = trace_Start newTraceDemandFilterProcessor exts" "tr_provider p0 \<noteq> None"
    and "list_all (\<lambda>r. trace_ready p0 (fst r)) (batches @ [(st, td)])" "routes_now p0 st \<noteq> []"
    and "ConsumeTraces lib pc spanCount (snd (serve (consume_traces lib pc spanCount) p0 batches)) st td = (out, p')"
  shows "map (view pc) (with_spans spanCount (case fmlookup (groupByFilterID pc (forwarded out)) fid of
           None \<Rightarrow> [] | Some batch \<Rightarrow> batch)) =
    concat (map (\<lambda>rs. replicate
        (length (filter (\<lambda>r. FilterID r = fid \<and> route_demands lib r (resourceLabels pc (rg_attrs rs))) (routes_now p0 st)))
        ((pm_get pc (rg_attrs rs))(FilterIDAttr := None), rg_rest rs)) (with_spans spanCount td))"
proof -
  let ?p = "snd (serve (consume_traces lib pc spanCount) p0 batches)"
  have p: "trace_coherent lib ?p \<and> tr_provider ?p = tr_provider p0 \<and> tr_routes ?p = tr_routes p0"
    using trace_filter.serve_fresh [of lib p0 p0 batches pc spanCount] assms(2-4) trace_coherent_started [of lib exts] by simp
  then have now: "routes_now ?p st = routes_now p0 st" "trace_ready ?p st = trace_ready p0 st"
    by (simp_all add: routes_now_def trace_ready_def trace_demands_now_def)
  have out: "with_spans spanCount (forwarded out) = with_spans spanCount (routed lib pc (routes_now p0 st) td)"
    using consume_traces_correct(1) [of lib ?p "(st, td)" pc spanCount] p now assms(3-6)
    by (simp add: consume_traces_def trace_selected_def)
  have "with_spans spanCount (case fmlookup (groupByFilterID pc (forwarded out)) fid of None \<Rightarrow> [] | Some batch \<Rightarrow> batch)
    = group_of pc fid (routed lib pc (routes_now p0 st) (with_spans spanCount td))"
    by (simp add: groupByFilterID_lookup group_of_with_spans [symmetric] routed_with_spans [symmetric] out [symmetric])
  then show ?thesis by (simp add: group_of_routed [OF assms(1)] rules_for_count)
qed

text \<open>Witness of C14: a batch under selectors first, then one under two rules.\<close>

theorem routed_groups_witness:
  "map (view list_pcommon) (with_spans (\<lambda>n. n) (case fmlookup (groupByFilterID list_pcommon (forwarded (fst
       (ConsumeTraces literal_regexp list_pcommon (\<lambda>n. n) (snd (serve (consume_traces literal_regexp list_pcommon (\<lambda>n. n))
         (trace_Start newTraceDemandFilterProcessor [trace_extension]) [(([api_selector], []), trace_batch)]))
         ([], api_routes) trace_batch)))) ''rule-2'' of None \<Rightarrow> [] | Some batch \<Rightarrow> batch))
   = [(map_of [(''service.name'', ''api'')], 3)]"
proof -
  let ?p0 = "trace_Start newTraceDemandFilterProcessor [trace_extension] :: (string list \<times> Route list, string) traceDemandFilterProcessor"
  have n: "map (\<lambda>rs. length (filter (\<lambda>r. FilterID r = ''rule-2'' \<and> route_demands literal_regexp r
      (resourceLabels list_pcommon (rg_attrs rs))) api_routes)) trace_batch = [1, 0]"
    by code_simp
  have w: "with_spans (\<lambda>n. n) trace_batch = trace_batch" by (simp add: with_spans_def trace_batch_def)
  have a: "pm_get list_pcommon (attrs_list [(''service.name'', ''api'')]) = map_of [(''service.name'', ''api'')]"
    by (simp add: list_pcommon_def attrs_list_def)
  have f: "FilterIDAttr \<noteq> ''service.name''" by code_simp
  have p0: "tr_provider ?p0 \<noteq> None" "routes_now ?p0 ([], api_routes) = api_routes" "api_routes \<noteq> []"
    "list_all (\<lambda>r. trace_ready ?p0 (fst r)) ([(([api_selector], []), trace_batch)] @ [(([], api_routes), trace_batch)])"
    using trace_batch_ready
    by (simp_all add: trace_extension_def trace_ready_def routes_now_def trace_demands_now_def api_routes_def)
  from routed_groups [where lib = literal_regexp and spanCount = "\<lambda>n. n" and fid = "''rule-2''",
      OF list_pcommon_laws refl p0(1,4) _ prod.collapse [symmetric]]
  show ?thesis unfolding p0(2) w using p0(3) n a f by (simp add: trace_batch_def fun_upd_twist)
qed

text \<open>C34: when a push of a batch succeeds, exactly one request was sent per rule, to the traces
  endpoint, with the rule's group as body and, for a stamped group, the rule's id in the rule
  header whatever headers are configured.\<close>

theorem pushTraces_success:
  assumes "enumerates visit (groupByFilterID pc td)"
    and "pushTraces pc http cfg hvisit visit w td = (None, w', reqs)"
  shows "map (\<lambda>r. (req_url r, req_body r, req_header r)) reqs =
      map (\<lambda>fid. (tracesURL cfg, the (MarshalProto http (group_of pc fid td)), push_headers cfg hvisit fid)) visit
    \<and> set visit = filter_id pc ` set td \<and> distinct visit
    \<and> (\<forall>fid \<in> set visit. fid \<noteq> '''' \<longrightarrow> fmlookup (push_headers cfg hvisit fid) RuleHeader = Some fid)"
proof -
  have keys: "fid \<in> set visit \<longleftrightarrow> group_of pc fid td \<noteq> []" for fid
    using enumerates_set [OF assms(1), of fid] by (simp add: groupByFilterID_lookup)
  have "reqs = map (\<lambda>fid. request_of http cfg hvisit fid (the (fmlookup (groupByFilterID pc td) fid))) visit"
    by (rule push_groups_requests [OF assms(2) [unfolded pushTraces_def]])
      (simp add: keys groupByFilterID_lookup)
  moreover have "set visit = filter_id pc ` set td"
    using enumerates_set [OF assms(1)] groupByFilterID_keys [of pc td] by blast
  ultimately show ?thesis
    using enumerates_distinct [OF assms(1)] keys push_headers_rule(1)
    by (auto simp: request_of_def groupByFilterID_lookup)
qed

text \<open>An HTTP environment in which every request is answered with the same status.\<close>

definition const_http :: "int \<Rightarrow> (unit, 'b) http" where
  "const_http code = \<lparr>MarshalProto = (\<lambda>b. Some ''body''), NewRequest_ok = (\<lambda>url. True), http_Do = (\<lambda>w req. (Some code, w))\<rparr>"

definition tenant_config :: router_config where
  "tenant_config = \<lparr>Endpoint = ''https://t.io/'', Headers = fmupd ''x-lean-trace-rule'' ''evil'' fmempty, Timeout = 5\<rparr>"

definition stamped_batch :: "(attr_list, nat) resource_group list" where
  "stamped_batch = [\<lparr>rg_attrs = attrs_list [(''leansignal.trace.filter_id'', ''rule-1'')], rg_rest = 1\<rparr>]"

lemma stamped_groups:
  "enumerates [''rule-1''] (groupByFilterID list_pcommon stamped_batch)"
  by code_simp

theorem pushTraces_success_witness:
  "map (\<lambda>r. (req_url r, fmlookup (req_header r) RuleHeader))
     (snd (snd (pushTraces list_pcommon (const_http 200) tenant_config [''x-lean-trace-rule''] [''rule-1''] ()
        stamped_batch))) = [(''https://t.io/v1/traces'', Some ''rule-1'')]"
proof -
  have "fst (pushTraces list_pcommon (const_http 200) tenant_config [''x-lean-trace-rule''] [''rule-1''] ()
      stamped_batch) = None"
    by code_simp
  then obtain w' reqs where r: "pushTraces list_pcommon (const_http 200) tenant_config
      [''x-lean-trace-rule''] [''rule-1''] () stamped_batch = (None, w', reqs)"
    by (metis prod.collapse)
  have u: "tracesURL tenant_config = ''https://t.io/v1/traces''" by code_simp
  note ok = pushTraces_success [OF stamped_groups r]
  obtain q where q: "reqs = [q]" "req_url q = tracesURL tenant_config"
    "req_header q = push_headers tenant_config [''x-lean-trace-rule''] ''rule-1''"
    using ok [THEN conjunct1] by (cases reqs) simp_all
  have "fmlookup (req_header q) RuleHeader = Some ''rule-1''"
    using ok unfolding q(3) by simp
  then show ?thesis by (simp add: r q(1,2) u)
qed

text \<open>C35: the outcome of a push tells what the endpoint answered.  The groups are pushed in
  turn, one request each, until one fails.  A push of a batch succeeds only if every request was
  answered with a 2xx status.  Otherwise the error names the group that failed; the groups
  before it were all accepted with a 2xx status, the groups after it were not sent, and the error is the
  cause: the group could not be marshalled or its request not built and nothing was sent for it, the request
  had no answer, or the answer had the status of the error, which is
  permanent exactly for a client error other than 408 and 429.\<close>

theorem pushTraces_outcome:
  assumes "enumerates visit (groupByFilterID pc td)"
    and "pushTraces pc http cfg hvisit visit w td = (res, w', reqs)"
  shows "case res of
      None \<Rightarrow> reqs = map (\<lambda>f. request_of http cfg hvisit f (group_of pc f td)) visit
        \<and> list_all accepted (responses http w reqs)
    | Some (fid, err) \<Rightarrow>
        (\<exists>pre post mine ok resps. visit = pre @ fid # post
           \<and> reqs = map (\<lambda>f. request_of http cfg hvisit f (group_of pc f td)) pre @ mine
           \<and> responses http w reqs = ok @ resps \<and> length ok = length pre \<and> list_all accepted ok
           \<and> error_cause http cfg hvisit fid (group_of pc fid td) err mine resps)"
proof -
  have "\<forall>fid \<in> set visit. fmlookup (groupByFilterID pc td) fid = Some (group_of pc fid td)"
    using enumerates_set [OF assms(1)] by (fastforce simp: groupByFilterID_lookup)
  from push_groups_outcome [OF assms(2) [unfolded pushTraces_def] this] show ?thesis .
qed

definition rejecting :: "(unit, (attr_list, nat) resource_group list) http" where
  "rejecting = const_http 403"

text \<open>Witness of C35: a rejected push.\<close>

theorem pushTraces_outcome_witness:
  "fst (pushTraces list_pcommon rejecting tenant_config [] [''rule-1''] () stamped_batch)
     = Some (''rule-1'', PermanentHTTPError 403)
   \<and> responses rejecting ()
       (snd (snd (pushTraces list_pcommon rejecting tenant_config [] [''rule-1''] () stamped_batch))) = [Some 403]"
proof -
  have err: "fst (pushTraces list_pcommon rejecting tenant_config [] [''rule-1''] () stamped_batch)
      = Some (''rule-1'', PermanentHTTPError 403)"
    by code_simp
  then obtain w' reqs where r: "pushTraces list_pcommon rejecting tenant_config [] [''rule-1''] ()
      stamped_batch = (Some (''rule-1'', PermanentHTTPError 403), w', reqs)"
    by (metis prod.collapse)
  from pushTraces_outcome [OF stamped_groups r] obtain pre post mine ok resps where
    visit: "[''rule-1''] = pre @ ''rule-1'' # post" and resps: "responses rejecting () reqs = ok @ resps"
    "length ok = length pre" "error_cause rejecting tenant_config [] ''rule-1'' (group_of list_pcommon ''rule-1'' stamped_batch)
      (PermanentHTTPError 403) mine resps"
    unfolding option.case prod.case by (elim exE conjE) (rule that)
  have "pre = []" using visit by (cases pre) auto
  then show ?thesis using err resps by (simp add: r error_cause_def)
qed

end
