(* ===== verification/Ingest_Backoff.thy ===== *)
theory Ingest_Backoff
  imports Prelude
begin

text \<open>
  The ingest valve (\<open>src/components/ingestbackoff\<close>): a transport wrapper that pauses an
  exporter after the ingest edge answered 403 and lets one probe through per retry interval.

  \<open>allow\<close>, \<open>observe\<close> and \<open>RoundTrip\<close> follow \<open>extension.go\<close>; instants and
  durations are integers (nanoseconds), \<open>now\<close> is the reading of the clock at the call.
  Exporters push concurrently, so the valve as a whole is a step relation: an attempt is
  admitted or suppressed in one critical section, and the answer to an admitted attempt
  arrives later, in another one, or not at all.  The lemmas are invariants of every
  interleaving.
\<close>

section \<open>The extension (config.go, extension.go)\<close>

record backoff_config =
  RetryInterval :: int

datatype backoff_config_error = RetryIntervalNotPositive

definition backoff_Validate :: "backoff_config \<Rightarrow> backoff_config_error option" where
  "backoff_Validate c = (if RetryInterval c \<le> 0 then Some RetryIntervalNotPositive else None)"

record backoffExtension =
  retryInterval :: int
  paused :: bool
  holdUntil :: int

text \<open>The zero \<open>time.Time\<close> of a new extension is some instant \<open>zero\<close>; it is never read
  before a pause sets it.\<close>

definition newBackoffExtension :: "backoff_config \<Rightarrow> int \<Rightarrow> backoffExtension" where
  "newBackoffExtension cfg zero =
     \<lparr>retryInterval = RetryInterval cfg, paused = False, holdUntil = zero\<rparr>"

definition StatusForbidden :: int where "StatusForbidden = 403"

definition allow :: "backoffExtension \<Rightarrow> int \<Rightarrow> bool \<times> backoffExtension" where
  "allow b now =
     (if \<not> paused b then (True, b)
      else if now < holdUntil b then (False, b)
      else (True, b\<lparr>holdUntil := now + retryInterval b\<rparr>))"

definition observe :: "backoffExtension \<Rightarrow> int \<Rightarrow> int \<Rightarrow> backoffExtension" where
  "observe b now status =
     (if status = StatusForbidden then
        (let b1 = b\<lparr>holdUntil := now + retryInterval b\<rparr> in
         if \<not> paused b1 then b1\<lparr>paused := True\<rparr> else b1)
      else if paused b then b\<lparr>paused := False\<rparr>
      else b)"

datatype 'resp round_trip = Suppressed403 | Answered 'resp | TransportFailed

text \<open>One attempt on its own: \<open>base\<close> is the wrapped transport, \<open>status_of\<close> the status
  code of its answer; the clock is read once in \<open>allow\<close> and once in \<open>observe\<close>.\<close>

definition RoundTrip ::
    "('w \<Rightarrow> 'req \<Rightarrow> 'resp option \<times> 'w) \<Rightarrow> ('resp \<Rightarrow> int) \<Rightarrow> backoffExtension \<Rightarrow> 'w \<Rightarrow> int \<Rightarrow> int \<Rightarrow> 'req
     \<Rightarrow> 'resp round_trip \<times> backoffExtension \<times> 'w" where
  "RoundTrip base status_of b w now1 now2 req =
     (let (ok, b1) = allow b now1 in
      if \<not> ok then (Suppressed403, b1, w)
      else case base w req of
        (None, w') \<Rightarrow> (TransportFailed, b1, w')
      | (Some resp, w') \<Rightarrow> (Answered resp, observe b1 now2 (status_of resp), w'))"

section \<open>Interleaved attempts\<close>

datatype event =
    Admitted nat int
  | Suppressed int
  | Responded nat int int
  | Failed nat int

fun event_time :: "event \<Rightarrow> int" where
  "event_time (Admitted i t) = t"
| "event_time (Suppressed t) = t"
| "event_time (Responded i t status) = t"
| "event_time (Failed i t) = t"

record valve =
  ext :: backoffExtension
  clock :: int
  inflight :: "nat list"

inductive valve_step :: "valve \<Rightarrow> event \<Rightarrow> valve \<Rightarrow> bool" where
  admit: "clock s \<le> t \<Longrightarrow> i \<notin> set (inflight s) \<Longrightarrow> allow (ext s) t = (True, b) \<Longrightarrow>
    valve_step s (Admitted i t) (s\<lparr>ext := b, clock := t, inflight := i # inflight s\<rparr>)"
| suppress: "clock s \<le> t \<Longrightarrow> allow (ext s) t = (False, b) \<Longrightarrow>
    valve_step s (Suppressed t) (s\<lparr>ext := b, clock := t\<rparr>)"
| respond: "clock s \<le> t \<Longrightarrow> i \<in> set (inflight s) \<Longrightarrow>
    valve_step s (Responded i t status)
      (s\<lparr>ext := observe (ext s) t status, clock := t, inflight := remove1 i (inflight s)\<rparr>)"
| transport_fail: "clock s \<le> t \<Longrightarrow> i \<in> set (inflight s) \<Longrightarrow>
    valve_step s (Failed i t) (s\<lparr>clock := t, inflight := remove1 i (inflight s)\<rparr>)"

inductive valve_run :: "valve \<Rightarrow> event list \<Rightarrow> valve \<Rightarrow> bool" where
  run_nil: "valve_run s [] s"
| run_cons: "valve_step s e s1 \<Longrightarrow> valve_run s1 es s2 \<Longrightarrow> valve_run s (e # es) s2"

definition new_valve :: "backoff_config \<Rightarrow> int \<Rightarrow> int \<Rightarrow> valve" where
  "new_valve cfg zero t0 = \<lparr>ext = newBackoffExtension cfg zero, clock = t0, inflight = []\<rparr>"

inductive_cases valve_stepE: "valve_step s e s'"
inductive_cases valve_run_ConsE: "valve_run s (e # es) s'"
inductive_simps valve_run_Nil [simp]: "valve_run s [] s'"
inductive_simps valve_step_admitted: "valve_step s (Admitted i t) s'"
inductive_simps valve_step_suppressed: "valve_step s (Suppressed t) s'"

text \<open>Attempts that reach the network, and the last status the edge answered.\<close>

fun admissions :: "event list \<Rightarrow> int list" where
  "admissions [] = []"
| "admissions (Admitted i t # es) = t # admissions es"
| "admissions (_ # es) = admissions es"

fun last_status :: "int option \<Rightarrow> event list \<Rightarrow> int option" where
  "last_status st [] = st"
| "last_status st (Responded i t status # es) = last_status (Some status) es"
| "last_status st (_ # es) = last_status st es"

definition only_rejections :: "event list \<Rightarrow> bool" where
  "only_rejections es \<longleftrightarrow>
     list_all (\<lambda>e. case e of Responded i t status \<Rightarrow> status = StatusForbidden | _ \<Rightarrow> True) es"

fun spaced :: "int \<Rightarrow> int list \<Rightarrow> bool" where
  "spaced d [] = True"
| "spaced d [t] = True"
| "spaced d (t # u # ts) = (t + d \<le> u \<and> spaced d (u # ts))"

section \<open>Steps\<close>

lemma retryInterval_step: "valve_step s e s' \<Longrightarrow> retryInterval (ext s') = retryInterval (ext s)"
  by (erule valve_stepE) (auto simp: allow_def observe_def Let_def split: if_splits)

lemma clock_step: "valve_step s e s' \<Longrightarrow> clock s' = event_time e \<and> clock s \<le> event_time e"
  by (erule valve_stepE) auto

lemma retryInterval_run: "valve_run s es s' \<Longrightarrow> retryInterval (ext s') = retryInterval (ext s)"
  by (induction rule: valve_run.induct) (simp_all add: retryInterval_step)

lemma paused_step:
  "valve_step s e s' \<Longrightarrow>
   paused (ext s') = (case e of Responded i t status \<Rightarrow> status = StatusForbidden | _ \<Rightarrow> paused (ext s))"
  by (erule valve_stepE) (auto simp: allow_def observe_def Let_def split: if_splits)

lemma paused_run:
  "valve_run s es s' \<Longrightarrow> (st = Some StatusForbidden \<longleftrightarrow> paused (ext s)) \<Longrightarrow>
   paused (ext s') \<longleftrightarrow> last_status st es = Some StatusForbidden"
proof (induction arbitrary: st rule: valve_run.induct)
  case (run_cons s e s1 es s2)
  show ?case
  proof (cases e)
    case (Responded i t status)
    with run_cons paused_step [OF run_cons(1)] show ?thesis by simp
  qed (use run_cons paused_step [OF run_cons(1)] in auto)
qed simp

text \<open>While paused the hold never reaches further than one interval beyond the clock.\<close>

definition hold_bounded :: "valve \<Rightarrow> bool" where
  "hold_bounded s \<longleftrightarrow> (paused (ext s) \<longrightarrow> holdUntil (ext s) \<le> clock s + retryInterval (ext s))"

lemma hold_bounded_step: "valve_step s e s' \<Longrightarrow> hold_bounded s \<Longrightarrow> hold_bounded s'"
  unfolding hold_bounded_def
  by (erule valve_stepE) (auto simp: allow_def observe_def Let_def split: if_splits)

lemma hold_bounded_run: "valve_run s es s' \<Longrightarrow> hold_bounded s \<Longrightarrow> hold_bounded s'"
  by (induction rule: valve_run.induct) (auto intro: hold_bounded_step)

text \<open>While only rejections arrive the hold does not move back, and an admission moves it one
  interval beyond itself.\<close>

lemma hold_step:
  assumes "valve_step s e s'" "paused (ext s)" "only_rejections [e]" "0 < retryInterval (ext s)"
    and "hold_bounded s"
  shows "paused (ext s') \<and> holdUntil (ext s) \<le> holdUntil (ext s') \<and>
    (\<forall>i t. e = Admitted i t \<longrightarrow> holdUntil (ext s) \<le> t \<and> t + retryInterval (ext s) \<le> holdUntil (ext s'))"
  using assms
  by (auto elim!: valve_stepE simp: allow_def observe_def only_rejections_def hold_bounded_def Let_def
      split: if_splits)

lemma admissions_spaced:
  assumes "valve_run s es s'" "paused (ext s)" "only_rejections es" "0 < retryInterval (ext s)"
    and "hold_bounded s"
  shows "spaced (retryInterval (ext s)) (admissions es)
    \<and> (\<forall>t \<in> set (take 1 (admissions es)). holdUntil (ext s) \<le> t)"
  using assms
proof (induction rule: valve_run.induct)
  case (run_cons s e s1 es s2)
  have e: "only_rejections [e]" "only_rejections es"
    using run_cons.prems by (simp_all add: only_rejections_def)
  note h = hold_step [OF run_cons.hyps(1) run_cons.prems(1) e(1) run_cons.prems(3,4)]
  have IH: "spaced (retryInterval (ext s)) (admissions es)"
    "\<forall>t \<in> set (take 1 (admissions es)). holdUntil (ext s1) \<le> t"
    using run_cons.IH h e(2) run_cons.prems(3) retryInterval_step [OF run_cons.hyps(1)]
      hold_bounded_step [OF run_cons.hyps(1) run_cons.prems(4)] by simp_all
  show ?case
  proof (cases e)
    case (Admitted i t)
    with h IH show ?thesis by (cases "admissions es") auto
  qed (use h IH in auto)
qed simp

text \<open>\<open>RoundTrip\<close> run without interruption is one of three runs of the relation, which ends with
  nothing of it in flight.\<close>

definition round_trip_events ::
    "('resp \<Rightarrow> int) \<Rightarrow> nat \<Rightarrow> int \<Rightarrow> int \<Rightarrow> 'resp round_trip \<Rightarrow> event list" where
  "round_trip_events status_of i now1 now2 res =
     (case res of
        Suppressed403 \<Rightarrow> [Suppressed now1]
      | TransportFailed \<Rightarrow> [Admitted i now1, Failed i now2]
      | Answered resp \<Rightarrow> [Admitted i now1, Responded i now2 (status_of resp)])"

theorem RoundTrip_run:
  assumes "clock s \<le> now1" "now1 \<le> now2" "i \<notin> set (inflight s)"
    "RoundTrip base status_of (ext s) w now1 now2 req = (res, b, w')"
  shows "\<exists>s'. valve_run s (round_trip_events status_of i now1 now2 res) s' \<and> ext s' = b \<and> inflight s' = inflight s"
proof (cases "allow (ext s) now1")
  case (Pair ok b1)
  show ?thesis
  proof (cases ok)
    case False
    then have "res = Suppressed403" "b = b1" using assms(4) Pair by (simp_all add: RoundTrip_def)
    then show ?thesis using run_cons [OF suppress run_nil, OF assms(1)] Pair False
      by (fastforce simp: round_trip_events_def)
  next
    case True
    let ?s1 = "s\<lparr>ext := b1, clock := now1, inflight := i # inflight s\<rparr>"
    have "valve_step s (Admitted i now1) ?s1" using Pair True assms(1,3) by (intro admit) simp_all
    note after = run_cons [OF this run_cons [OF _ run_nil]]
    obtain resp v where "base w req = (resp, v)" by fastforce
    then show ?thesis using assms(2,4) Pair True after [OF transport_fail] after [OF respond]
      by (cases resp) (fastforce simp: RoundTrip_def round_trip_events_def)+
  qed
qed

section \<open>Properties\<close>

text \<open>C32: in every interleaving the valve is paused exactly when the last answer that reached it
  was a 403; suppressed attempts and transport failures never change that.\<close>

theorem paused_iff_last_forbidden:
  assumes "valve_run (new_valve cfg zero t0) es s"
  shows "paused (ext s) \<longleftrightarrow> last_status None es = Some StatusForbidden"
  by (rule paused_run [OF assms]) (simp add: new_valve_def newBackoffExtension_def)

text \<open>C33: while the edge keeps rejecting, at most one push per retry interval reaches the
  network: any two successive admissions of a paused valve are at least one interval apart,
  however many exporters push at the same time.\<close>

theorem one_probe_per_interval:
  assumes "valve_run (new_valve cfg zero t0) es s" and "paused (ext s)"
    and "backoff_Validate cfg = None"
    and "valve_run s es' s'" and "only_rejections es'"
  shows "spaced (RetryInterval cfg) (admissions es')"
proof -
  have "retryInterval (ext s) = RetryInterval cfg"
    using retryInterval_run [OF assms(1)] by (simp add: new_valve_def newBackoffExtension_def)
  moreover have "hold_bounded s"
    by (rule hold_bounded_run [OF assms(1)])
      (simp add: hold_bounded_def new_valve_def newBackoffExtension_def)
  moreover have "0 < RetryInterval cfg" using assms(3) by (auto simp: backoff_Validate_def split: if_splits)
  ultimately show ?thesis using admissions_spaced [OF assms(4,2,5)] by simp
qed

text \<open>A pause never outlives the retry interval by itself: an attempt made one interval or
  more after the last event is admitted, and any attempt of a valve that is not paused is.\<close>

theorem probe_admitted:
  assumes "valve_run (new_valve cfg zero t0) es s"
    and "\<not> paused (ext s) \<or> clock s + RetryInterval cfg \<le> t"
  shows "fst (allow (ext s) t)"
proof -
  have "retryInterval (ext s) = RetryInterval cfg"
    using retryInterval_run [OF assms(1)] by (simp add: new_valve_def newBackoffExtension_def)
  moreover have "hold_bounded s"
    by (rule hold_bounded_run [OF assms(1)])
      (simp add: hold_bounded_def new_valve_def newBackoffExtension_def)
  ultimately show ?thesis using assms(2) by (auto simp: allow_def hold_bounded_def)
qed

section \<open>Witnesses\<close>

text \<open>A push is rejected at time 5, the next two attempts at 8 and 20 are suppressed and admitted.\<close>

definition probe_config :: backoff_config where
  "probe_config = \<lparr>RetryInterval = 10\<rparr>"

definition paused_valve :: valve where
  "paused_valve = \<lparr>ext = \<lparr>retryInterval = 10, paused = True, holdUntil = 15\<rparr>, clock = 5, inflight = []\<rparr>"

lemma reach_paused_valve:
  "valve_run (new_valve probe_config 0 0) [Admitted 1 1, Responded 1 5 403] paused_valve"
proof (rule run_cons, rule admit)
  show "valve_run ((new_valve probe_config 0 0)\<lparr>ext := newBackoffExtension probe_config 0, clock := 1,
      inflight := 1 # inflight (new_valve probe_config 0 0)\<rparr>) [Responded 1 5 403] paused_valve"
    by (rule run_cons, rule respond)
      (simp_all add: new_valve_def newBackoffExtension_def observe_def StatusForbidden_def
        paused_valve_def probe_config_def)
qed (simp_all add: new_valve_def newBackoffExtension_def allow_def)

theorem paused_iff_last_forbidden_witness:
  "paused (ext paused_valve) \<longleftrightarrow> last_status None [Admitted 1 1, Responded 1 5 403] = Some StatusForbidden"
  by (rule paused_iff_last_forbidden [OF reach_paused_valve])

lemma paused_valve_run:
  "\<exists>s. valve_run paused_valve [Suppressed 8, Admitted 2 20, Suppressed 21, Admitted 3 30] s"
  by (rule exI, (rule run_cons, rule suppress admit;
        (simp add: paused_valve_def allow_def; fail)?)+)

theorem one_probe_per_interval_witness:
  "spaced 10 (admissions [Suppressed 8, Admitted 2 20, Suppressed 21, Admitted 3 30])"
proof -
  obtain s where s: "valve_run paused_valve [Suppressed 8, Admitted 2 20, Suppressed 21, Admitted 3 30] s"
    using paused_valve_run by blast
  have "paused (ext paused_valve)" "backoff_Validate probe_config = None"
    "only_rejections [Suppressed 8, Admitted 2 20, Suppressed 21, Admitted 3 30]"
    by (simp_all add: paused_valve_def backoff_Validate_def probe_config_def only_rejections_def)
  from one_probe_per_interval [OF reach_paused_valve this(1,2) s this(3)]
  show ?thesis by (simp add: probe_config_def)
qed

theorem probe_admitted_witness: "fst (allow (ext paused_valve) 15)"
  by (rule probe_admitted [OF reach_paused_valve]) (simp add: paused_valve_def probe_config_def)

end
