(* ===== verification/Tracker_Logging.thy ===== *)
theory Tracker_Logging
  imports Metrics_Tracker Go_Os
begin

text \<open>
  The debug log of the metrics tracker (\<open>src/components/metricstracker\<close>): the names
  \<open>logMetricProm\<close> writes, the fingerprint \<open>processPromSeries\<close> writes for each series, and
  \<open>PrintTimeseries\<close>.  A log is the list of its lines, in order.

  The lemmas: the fingerprint in the log is the one the key of the series is the hash of, and the
  one read off the stored entry, so the three writers of fingerprints agree.
\<close>

section \<open>The processor\<close>

record metricsTrackerProcessor =
  logMetrics :: bool
  logSeries :: bool

record tracker_config =
  LogMetrics :: bool
  LogSeries :: bool

definition tracker_createDefaultConfig :: tracker_config where
  "tracker_createDefaultConfig = \<lparr>LogMetrics = True, LogSeries = True\<rparr>"

definition newMetricsTrackerProcessor :: "tracker_config \<Rightarrow> metricsTrackerProcessor" where
  "newMetricsTrackerProcessor cfg = \<lparr>logMetrics = LogMetrics cfg, logSeries = LogSeries cfg\<rparr>"

section \<open>Fingerprints in the log\<close>

fun sorted_entries :: "unicode_tables \<Rightarrow> label_map \<Rightarrow> string \<Rightarrow> string \<Rightarrow> bool \<Rightarrow> string list \<Rightarrow> string" where
  "sorted_entries u m kvSep entrySep first [] = []"
| "sorted_entries u m kvSep entrySep first (k # ks) =
     (if first then [] else entrySep) @ k @ kvSep @ Quote u (go_get m k)
     @ sorted_entries u m kvSep entrySep False ks"

definition writeSortedStringMap :: "unicode_tables \<Rightarrow> string \<Rightarrow> label_map \<Rightarrow> string \<Rightarrow> string \<Rightarrow> string" where
  "writeSortedStringMap u b m kvSep entrySep = b @ sorted_entries u m kvSep entrySep True (sorted_keys m)"

definition buildPromSeriesFingerprint :: "unicode_tables \<Rightarrow> string \<Rightarrow> label_map \<Rightarrow> string" where
  "buildPromSeriesFingerprint u metric labels =
     (if map_len labels = 0 then metric
      else writeSortedStringMap u (metric @ ''{'') labels ''='' '','' @ ''}'')"

section \<open>Log lines\<close>

datatype log_line = METRIC string | SERIES string

text \<open>The log of one series and of one metric, and of a batch.\<close>

definition series_log ::
    "unicode_tables \<Rightarrow> ('m, 'v) pcommon \<Rightarrow> metricsTrackerProcessor \<Rightarrow> 'm raw_series \<Rightarrow> log_line list" where
  "series_log u pc p s =
     (case s of (name, res, pt, extra) \<Rightarrow>
        if logSeries p then [SERIES (buildPromSeriesFingerprint u name (buildPromLabelMap u pc res pt extra))] else [])"

definition metric_log ::
    "unicode_tables \<Rightarrow> ('m, 'v) pcommon \<Rightarrow> namer \<Rightarrow> (float64 \<Rightarrow> string) \<Rightarrow> metricsTrackerProcessor \<Rightarrow> 'm
     \<Rightarrow> ('m, 'x) metric \<Rightarrow> log_line list" where
  "metric_log u pc namer fmtg p res m =
     (if logMetrics p then map METRIC (logMetricProm namer m) else [])
     @ concat (map (series_log u pc p) (metric_series namer fmtg res m))"

definition track_log ::
    "unicode_tables \<Rightarrow> ('m, 'v) pcommon \<Rightarrow> namer \<Rightarrow> (float64 \<Rightarrow> string) \<Rightarrow> metricsTrackerProcessor
     \<Rightarrow> ('m, 'x) metrics \<Rightarrow> log_line list" where
  "track_log u pc namer fmtg p md =
     concat (map (\<lambda>rm. concat (map (\<lambda>sm. concat (map (metric_log u pc namer fmtg p (rm_attrs rm)) (sm_metrics sm)))
       (rm_scopes rm))) md)"

text \<open>\<open>PrintTimeseries\<close>, in the order the map is visited.\<close>

definition print_line :: "unicode_tables \<Rightarrow> HashKey \<Rightarrow> TimeseriesEntry \<Rightarrow> string" where
  "print_line u key entry =
     bytesToHex key @ '' , '' @ buildFingerprintFromEntry u entry @ '' , '' @ Itoa (nat (Samples entry))"

fun PrintTimeseries :: "unicode_tables \<Rightarrow> HashKey list \<Rightarrow> CollectorTimeseries \<Rightarrow> string list" where
  "PrintTimeseries u [] c = []"
| "PrintTimeseries u (key # visit) c =
     (case fmlookup (data c) key of
        None \<Rightarrow> PrintTimeseries u visit c
      | Some entry \<Rightarrow> print_line u key entry # PrintTimeseries u visit c)"

section \<open>The writers agree\<close>

lemma sorted_entries_Join:
  "sorted_entries u m kvSep entrySep True ks = Join (map (\<lambda>k. k @ kvSep @ Quote u (go_get m k)) ks) entrySep"
proof (cases ks)
  case (Cons k ks')
  have "sorted_entries u m kvSep entrySep False ks'
      = (if ks' = [] then [] else entrySep @ Join (map (\<lambda>k. k @ kvSep @ Quote u (go_get m k)) ks') entrySep)" for ks'
    by (induction ks' rule: induct_list012) simp_all
  then show ?thesis using Cons by (cases ks') (simp_all add: Join_Cons)
qed simp

lemma log_fingerprint: "buildPromSeriesFingerprint u metric labels = buildFingerprintString u metric labels"
  by (simp add: buildPromSeriesFingerprint_def buildFingerprintString_def writeSortedStringMap_def sorted_entries_Join
      label_text_def)

text \<open>The fingerprints of the log, in the order of the series.\<close>

fun log_series :: "log_line list \<Rightarrow> string list" where
  "log_series [] = []"
| "log_series (SERIES f # ls) = f # log_series ls"
| "log_series (METRIC n # ls) = log_series ls"

lemma log_series_append [simp]: "log_series (xs @ ys) = log_series xs @ log_series ys"
  by (induction xs rule: log_series.induct) simp_all

lemma log_series_concat: "log_series (concat (map g xs)) = concat (map (\<lambda>x. log_series (g x)) xs)"
  by (induction xs) simp_all

lemma log_series_METRIC [simp]: "log_series (map METRIC ns) = []"
  by (induction ns) simp_all

lemma metric_log_series:
  assumes "logSeries p"
  shows "log_series (metric_log u pc namer fmtg p res m) =
    map (\<lambda>(name, res, pt, extra). buildFingerprintString u name (BuildSeriesLabels u pc res pt extra)) (metric_series namer fmtg res m)"
proof -
  have "log_series (concat (map (series_log u pc p) ss)) =
      map (\<lambda>(name, res, pt, extra). buildFingerprintString u name (BuildSeriesLabels u pc res pt extra)) ss" for ss
    using assms by (induction ss) (auto simp: series_log_def log_fingerprint buildPromLabelMap_def)
  then show ?thesis by (simp add: metric_log_def)
qed

lemma track_log_series:
  assumes "logSeries p"
  shows "log_series (track_log u pc namer fmtg p md) =
    map (\<lambda>s. buildFingerprintString u (fst s) (snd s)) (batch_series u pc namer fmtg md)"
  unfolding track_log_def batch_series_def log_series_concat metric_log_series [OF assms]
  by (simp add: map_concat comp_def case_prod_unfold)

text \<open>The key of an entry is the hash of the entry's own fingerprint.\<close>

lemma track_key_fingerprint:
  assumes "fmlookup (data (trackMetrics u pc namer fmtg xxh3 md NewCollectorTimeseries)) key = Some entry"
  shows "hashKey xxh3 (buildFingerprintFromEntry u entry) = key"
proof -
  let ?ss = "filter (\<lambda>s. series_key u xxh3 s = key) (batch_series u pc namer fmtg md)"
  obtain s same where s: "?ss = s # same"
    "entry = \<lparr>MetricName = fst s, Labels = extractSortedLabelPairs (snd s), Samples = int (length (s # same))\<rparr>"
    using assms unfolding trackMetrics_series add_series_lookup by (cases ?ss) simp_all
  have "s \<in> set ?ss" by (simp add: s(1))
  then show ?thesis by (simp add: s(2) buildFingerprintFromEntry_eq series_key_def)
qed

section \<open>Properties\<close>

text \<open>
  C26: the three writers of fingerprints agree.  The fingerprint in the debug log of a series, the
  one its key is the hash of, and the one read off its stored entry are the same text; the log of
  a batch lists the fingerprints of exactly its series, in order; and every stored entry lies
  under the hash of the fingerprint that is printed with it.
\<close>

theorem fingerprints_agree:
  "buildPromSeriesFingerprint u metric labels = buildFingerprintString u metric labels
   \<and> buildFingerprintFromEntry u \<lparr>MetricName = metric, Labels = extractSortedLabelPairs labels, Samples = n\<rparr>
       = buildFingerprintString u metric labels
   \<and> log_series (track_log u pc namer fmtg (newMetricsTrackerProcessor tracker_createDefaultConfig) md)
       = map (\<lambda>s. buildFingerprintString u (fst s) (snd s)) (batch_series u pc namer fmtg md)
   \<and> fmpred (\<lambda>key entry. hashKey xxh3 (buildFingerprintFromEntry u entry) = key)
       (data (trackMetrics u pc namer fmtg xxh3 md NewCollectorTimeseries))"
proof -
  have "logSeries (newMetricsTrackerProcessor tracker_createDefaultConfig)"
    by (simp add: newMetricsTrackerProcessor_def tracker_createDefaultConfig_def)
  then show ?thesis
    by (simp add: log_fingerprint buildFingerprintFromEntry_eq track_log_series fmpred_iff track_key_fingerprint)
qed

end
