(* ===== verification/Hash_Json.thy ===== *)
theory Hash_Json
  imports Metrics_Index
begin

text \<open>
  Keys of timeseries as JSON (\<open>src/components/metricsindex/timeseries.go\<close>,
  \<open>MarshalJSON\<close> and \<open>UnmarshalJSON\<close>).  What the code uses of \<open>encoding/json\<close> is
  written out: reading a JSON text into a Go string (white space, \<open>null\<close>, escapes, surrogate
  pairs, replacement of invalid UTF-8), and writing a string of hexadecimal digits.

  The lemmas: every key is read back, and every accepted text is a key of sixteen bytes.
\<close>

section \<open>JSON strings\<close>

definition json_space :: "char \<Rightarrow> bool" where
  "json_space c \<longleftrightarrow> ord c \<in> {0x20, 0x09, 0x0A, 0x0D}"

fun getu4 :: "string \<Rightarrow> (nat \<times> string) option" where
  "getu4 (a # b # c # d # t) =
     (case (unhex a, unhex b, unhex c, unhex d) of
        (Some w, Some x, Some y, Some z) \<Rightarrow> Some (((w * 16 + x) * 16 + y) * 16 + z, t)
      | _ \<Rightarrow> None)"
| "getu4 _ = None"

definition is_surrogate :: "nat \<Rightarrow> bool" where
  "is_surrogate r \<longleftrightarrow> 0xD800 \<le> r \<and> r < 0xE000"

text \<open>\<open>utf16.DecodeRune\<close>.\<close>

definition utf16_pair :: "nat \<Rightarrow> nat \<Rightarrow> nat option" where
  "utf16_pair r1 r2 =
     (if 0xD800 \<le> r1 \<and> r1 < 0xDC00 \<and> 0xDC00 \<le> r2 \<and> r2 < 0xE000
      then Some ((r1 - 0xD800) * 0x400 + (r2 - 0xDC00) + 0x10000) else None)"

text \<open>After \<open>\u\<close>: the rune and the rest.\<close>

definition unicode_escape :: "string \<Rightarrow> (nat \<times> string) option" where
  "unicode_escape s =
     (case getu4 s of
        None \<Rightarrow> None
      | Some (r, t) \<Rightarrow>
          if \<not> is_surrogate r then Some (r, t)
          else (case t of
                  x # y # t1 \<Rightarrow>
                    (if x = backslash \<and> y = CHR ''u'' then
                       (case getu4 t1 of
                          None \<Rightarrow> None
                        | Some (r2, t2) \<Rightarrow>
                            (case utf16_pair r r2 of Some p \<Rightarrow> Some (p, t2) | None \<Rightarrow> Some (RuneError, t)))
                     else Some (RuneError, t))
                | _ \<Rightarrow> Some (RuneError, t)))"

definition simple_escape :: "char \<Rightarrow> char option" where
  "simple_escape c =
     (if c = dquote \<or> c = backslash \<or> c = CHR ''/'' then Some c
      else map_of [(CHR ''b'', CHR 0x08), (CHR ''f'', CHR 0x0C), (CHR ''n'', CHR 0x0A), (CHR ''r'', CHR 0x0D),
                   (CHR ''t'', CHR 0x09)] c)"

lemma getu4_shorter: "getu4 s = Some (r, t) \<Longrightarrow> length t < length s"
  by (induction s rule: getu4.induct) (auto split: option.splits)

lemma unicode_escape_shorter: "unicode_escape s = Some (r, t) \<Longrightarrow> length t < length s"
  by (auto simp: unicode_escape_def dest!: getu4_shorter split: option.splits if_splits list.splits)

text \<open>The characters after the opening quote, up to the closing one.\<close>

function json_chars :: "string \<Rightarrow> (string \<times> string) option" where
  "json_chars s =
     (case s of
        [] \<Rightarrow> None
      | c # t \<Rightarrow>
          if c = dquote then Some ([], t)
          else if c = backslash then
            (case t of
               [] \<Rightarrow> None
             | e # t1 \<Rightarrow>
                 if e = CHR ''u'' then
                   (case unicode_escape t1 of
                      None \<Rightarrow> None
                    | Some (r, t2) \<Rightarrow> map_option (\<lambda>(b, rest). (encodeRune r @ b, rest)) (json_chars t2))
                 else
                   (case simple_escape e of
                      None \<Rightarrow> None
                    | Some x \<Rightarrow> map_option (\<lambda>(b, rest). (x # b, rest)) (json_chars t1)))
          else if ord c < 0x20 then None
          else
            (let (r, w) = decodeRune s in
             map_option (\<lambda>(b, rest). (encodeRune r @ b, rest)) (json_chars (drop (max 1 w) s))))"
  by pat_completeness auto
termination by (relation "measure length") (auto dest: unicode_escape_shorter)

declare json_chars.simps [simp del]

definition unmarshal_string :: "string \<Rightarrow> string option" where
  "unmarshal_string text =
     (let s = dropWhile json_space text in
      if takeWhile (\<lambda>c. \<not> json_space c) s = ''null'' \<and> list_all json_space (drop 4 s) then Some []
      else case s of
        [] \<Rightarrow> None
      | c # t \<Rightarrow>
          if c \<noteq> dquote then None
          else (case json_chars t of
                  None \<Rightarrow> None
                | Some (b, rest) \<Rightarrow> if list_all json_space rest then Some b else None))"

section \<open>Keys\<close>

definition MarshalJSON :: "HashKey \<Rightarrow> string" where
  "MarshalJSON h = dquote # EncodeToString h @ [dquote]"

datatype hash_json_error = JsonError | HexError | LengthError nat

definition UnmarshalJSON :: "string \<Rightarrow> hash_json_error + HashKey" where
  "UnmarshalJSON text =
     (case unmarshal_string text of
        None \<Rightarrow> Inl JsonError
      | Some s \<Rightarrow>
          (case DecodeString s of
             None \<Rightarrow> Inl HexError
           | Some decoded \<Rightarrow> if length decoded \<noteq> 16 then Inl (LengthError (length decoded)) else Inr decoded))"

section \<open>Reading back\<close>

definition plain_json :: "char \<Rightarrow> bool" where
  "plain_json c \<longleftrightarrow> 0x20 \<le> ord c \<and> ord c < 0x80 \<and> c \<noteq> dquote \<and> c \<noteq> backslash"

lemma json_chars_plain: "list_all plain_json s \<Longrightarrow> json_chars (s @ dquote # t) = Some (s, t)"
proof (induction s)
  case Nil
  then show ?case by (simp add: json_chars.simps)
next
  case (Cons c s)
  have "decodeRune (c # s @ dquote # t) = (ord c, 1)" "encodeRune (ord c) = [c]"
    using Cons.prems by (simp_all add: plain_json_def encodeRune_ascii)
  then show ?case using Cons by (subst json_chars.simps) (simp add: plain_json_def)
qed

lemma EncodeToString_plain: "list_all plain_json (EncodeToString h)"
proof (induction h)
  case (Cons c h)
  have "plain_json (lowerhex n)" if "n < 16" for n
  proof -
    have "n \<in> set [0..<16]" using that by simp
    moreover have "\<forall>n \<in> set [0..<16]. plain_json (lowerhex n)" by code_simp
    ultimately show ?thesis by blast
  qed
  moreover have "ord c div 16 < 16" using nat_of_char_less_256 [of c] by (simp add: div_less_iff_less_mult)
  ultimately show ?case using Cons by simp
qed simp

text \<open>Every key is read back from its JSON form.\<close>

lemma UnmarshalJSON_MarshalJSON: "hash_key_ok h \<Longrightarrow> UnmarshalJSON (MarshalJSON h) = Inr h"
proof -
  assume "hash_key_ok h"
  have "json_chars (EncodeToString h @ [dquote]) = Some (EncodeToString h, [])"
    by (rule json_chars_plain [OF EncodeToString_plain])
  then have "unmarshal_string (MarshalJSON h) = Some (EncodeToString h)"
    by (simp add: unmarshal_string_def MarshalJSON_def json_space_def)
  then show ?thesis using \<open>hash_key_ok h\<close> by (simp add: UnmarshalJSON_def hash_key_ok_def)
qed

text \<open>Every accepted text is a key; in particular \<open>null\<close> is not one.\<close>

lemma UnmarshalJSON_ok: "UnmarshalJSON text = Inr h \<Longrightarrow> hash_key_ok h"
  by (auto simp: UnmarshalJSON_def hash_key_ok_def split: option.splits if_splits)

lemma UnmarshalJSON_null: "UnmarshalJSON ''null'' = Inl (LengthError 0)"
  by code_simp

end
