(* ===== verification/Default_Configs.thy ===== *)
theory Default_Configs
  imports Ingest_Backoff Trace_Router Edge_Controller Edge_Config
begin

text \<open>
  The defaults the factories of the components start from
  (\<open>src/components/*/factory.go\<close>), and how the edge controller gets its version.  A
  \<open>time.Duration\<close> is an integer of nanoseconds.  The queue and retry settings of the trace
  router belong to the collector's \<open>exporterhelper\<close> and are left out.

  The lemmas: a default configuration is valid exactly when what only the operator can know has
  been filled in.
\<close>

definition nanoseconds :: int where "nanoseconds = 1000000000"

definition DefaultRetryInterval :: int where "DefaultRetryInterval = 60 * nanoseconds"

definition backoff_createDefaultConfig :: backoff_config where
  "backoff_createDefaultConfig = \<lparr>RetryInterval = DefaultRetryInterval\<rparr>"

definition router_createDefaultConfig :: router_config where
  "router_createDefaultConfig = \<lparr>Endpoint = '''', Headers = fmempty, Timeout = 30 * nanoseconds\<rparr>"

text \<open>\<open>createExtension\<close>: the build version of the collector, unless it is empty.\<close>

definition createExtension :: "string \<Rightarrow> edgeControllerExtension" where
  "createExtension buildVersion =
     (if buildVersion \<noteq> '''' then newEdgeControllerExtension\<lparr>version := buildVersion\<rparr> else newEdgeControllerExtension)"

lemma backoff_default_valid: "backoff_Validate backoff_createDefaultConfig = None"
  by (simp add: backoff_Validate_def backoff_createDefaultConfig_def DefaultRetryInterval_def nanoseconds_def)

lemma router_default_needs_endpoint:
  "router_Validate (router_createDefaultConfig\<lparr>Endpoint := ep\<rparr>) = (if TrimSpace ep = '''' then Some EndpointRequired else None)"
  by (simp add: router_Validate_def router_createDefaultConfig_def nanoseconds_def)

lemma version_never_empty: "version (createExtension v) \<noteq> ''''"
  by (simp add: createExtension_def newEdgeControllerExtension_def)

end
