(* ===== verification/Component_Factories.thy ===== *)
theory Component_Factories
  imports Default_Configs Demand_Filter Log_Demand_Filter Trace_Demand_Filter Tracker_Logging
begin

text \<open>
  How the collector gets at the components (\<open>src/components/*/factory.go\<close>): each package
  offers a factory with a type name, a default configuration, a creator and the signal it serves,
  and every data component declares whether it changes the batches it is handed.  Loggers, the
  next consumer and the collector's queue and retry settings are left out.

  The lemmas: the type names are accepted by \<open>component.MustNewType\<close> (which panics otherwise)
  and pairwise different, so all factories can be registered together; and the component that
  declares to leave its batches alone does so, which the collector relies on when it hands one
  batch to several consumers.
\<close>

section \<open>Factories\<close>

datatype signal = SignalMetrics | SignalLogs | SignalTraces

datatype component_kind = Processor signal | Exporter signal | Extension

record ('cfg, 'c) factory =
  fac_Type :: string
  fac_kind :: component_kind
  fac_createDefaultConfig :: 'cfg
  fac_create :: "'cfg \<Rightarrow> 'c"

record filter_config =
  LogFiltered :: bool

definition filter_createDefaultConfig :: filter_config where
  "filter_createDefaultConfig = \<lparr>LogFiltered = False\<rparr>"

definition createMetricsProcessor :: "filter_config \<Rightarrow> ('st, 're) demandFilterProcessor" where
  "createMetricsProcessor cfg = newDemandFilterProcessor"

definition createLogsProcessor :: "filter_config \<Rightarrow> ('st, 're) logDemandFilterProcessor" where
  "createLogsProcessor cfg = newLogDemandFilterProcessor"

definition createTracesProcessor :: "filter_config \<Rightarrow> ('st, 're) traceDemandFilterProcessor" where
  "createTracesProcessor cfg = newTraceDemandFilterProcessor"

definition demandfilter_NewFactory :: "(filter_config, ('st, 're) demandFilterProcessor) factory" where
  "demandfilter_NewFactory =
     \<lparr>fac_Type = ''leansignal_demand_filter'', fac_kind = Processor SignalMetrics,
      fac_createDefaultConfig = filter_createDefaultConfig, fac_create = createMetricsProcessor\<rparr>"

definition logdemandfilter_NewFactory :: "(filter_config, ('st, 're) logDemandFilterProcessor) factory" where
  "logdemandfilter_NewFactory =
     \<lparr>fac_Type = ''leansignal_log_demand_filter'', fac_kind = Processor SignalLogs,
      fac_createDefaultConfig = filter_createDefaultConfig, fac_create = createLogsProcessor\<rparr>"

definition tracedemandfilter_NewFactory :: "(filter_config, ('st, 're) traceDemandFilterProcessor) factory" where
  "tracedemandfilter_NewFactory =
     \<lparr>fac_Type = ''leansignal_trace_demand_filter'', fac_kind = Processor SignalTraces,
      fac_createDefaultConfig = filter_createDefaultConfig, fac_create = createTracesProcessor\<rparr>"

definition tracker_createMetricsProcessor :: "tracker_config \<Rightarrow> metricsTrackerProcessor" where
  "tracker_createMetricsProcessor cfg = newMetricsTrackerProcessor cfg"

definition metricstracker_NewFactory :: "(tracker_config, metricsTrackerProcessor) factory" where
  "metricstracker_NewFactory =
     \<lparr>fac_Type = ''leansignalmetrics_tracker'', fac_kind = Processor SignalMetrics,
      fac_createDefaultConfig = tracker_createDefaultConfig, fac_create = tracker_createMetricsProcessor\<rparr>"

text \<open>The valve is created with a hold in the distant past (\<open>zero\<close>, the zero time).\<close>

definition backoff_createExtension :: "int \<Rightarrow> backoff_config \<Rightarrow> backoffExtension" where
  "backoff_createExtension zero cfg = newBackoffExtension cfg zero"

definition ingestbackoff_NewFactory :: "int \<Rightarrow> (backoff_config, backoffExtension) factory" where
  "ingestbackoff_NewFactory zero =
     \<lparr>fac_Type = ''leansignal_ingest_backoff'', fac_kind = Extension,
      fac_createDefaultConfig = backoff_createDefaultConfig, fac_create = backoff_createExtension zero\<rparr>"

text \<open>The build version is the collector's.\<close>

definition edgecontroller_NewFactory :: "string \<Rightarrow> (Config, edgeControllerExtension) factory" where
  "edgecontroller_NewFactory buildVersion =
     \<lparr>fac_Type = ''leansignal_edge_controller'', fac_kind = Extension,
      fac_createDefaultConfig = createDefaultConfig, fac_create = (\<lambda>cfg. createExtension buildVersion)\<rparr>"

text \<open>The trace router has an HTTP client only once it is started.\<close>

record router =
  r_cfg :: router_config
  r_client_Timeout :: "int option"

definition newRouter :: "router_config \<Rightarrow> router" where
  "newRouter cfg = \<lparr>r_cfg = cfg, r_client_Timeout = None\<rparr>"

definition router_start :: "router \<Rightarrow> router" where
  "router_start r = r\<lparr>r_client_Timeout := Some (Timeout (r_cfg r))\<rparr>"

definition createTracesExporter :: "router_config \<Rightarrow> router" where
  "createTracesExporter cfg = newRouter cfg"

definition tracerouter_NewFactory :: "(router_config, router) factory" where
  "tracerouter_NewFactory =
     \<lparr>fac_Type = ''leansignal_trace_router'', fac_kind = Exporter SignalTraces,
      fac_createDefaultConfig = router_createDefaultConfig, fac_create = createTracesExporter\<rparr>"

section \<open>Registration\<close>

text \<open>What \<open>component.MustNewType\<close> accepts: a letter, then at most 62 letters, digits and
  underscores, that is a label name that starts with a letter.\<close>

definition valid_type :: "string \<Rightarrow> bool" where
  "valid_type s \<longleftrightarrow> s \<noteq> [] \<and> length s \<le> 63 \<and> name_start (hd s) \<and> hd s \<noteq> CHR ''_'' \<and> list_all (name_char False) s"

definition component_types :: "string list" where
  "component_types =
     [fac_Type (demandfilter_NewFactory :: (_, (unit, unit) demandFilterProcessor) factory),
      fac_Type (logdemandfilter_NewFactory :: (_, (unit, unit) logDemandFilterProcessor) factory),
      fac_Type (tracedemandfilter_NewFactory :: (_, (unit, unit) traceDemandFilterProcessor) factory),
      fac_Type metricstracker_NewFactory, fac_Type (ingestbackoff_NewFactory 0), fac_Type (edgecontroller_NewFactory ''''),
      fac_Type tracerouter_NewFactory]"

lemma types_registered: "list_all valid_type component_types" "distinct component_types"
  by code_simp+

section \<open>Declared mutation\<close>

text \<open>\<open>Capabilities\<close>: whether the component changes the batches it is handed.\<close>

definition demandfilter_MutatesData :: bool where "demandfilter_MutatesData = True"

definition logdemandfilter_MutatesData :: bool where "logdemandfilter_MutatesData = True"

definition tracedemandfilter_MutatesData :: bool where "tracedemandfilter_MutatesData = True"

definition tracker_MutatesData :: bool where "tracker_MutatesData = False"

definition router_MutatesData :: bool where "router_MutatesData = True"

lemma tracker_keeps_declaration:
  "tracker_MutatesData \<or> fst (tracker_ConsumeMetrics u pc namer fmtg xxh3 receive rs md st) = Forward md"
  by (simp add: tracker_ConsumeMetrics_def)

text \<open>A started router with a valid configuration waits a positive time for each push.\<close>

lemma started_client:
  assumes "router_Validate cfg = None"
  shows "\<exists>t > 0. r_client_Timeout (router_start (createTracesExporter cfg)) = Some t"
  using assms by (auto simp: router_Validate_def router_start_def createTracesExporter_def newRouter_def split: if_splits)

end
