(* ===== verification/Spec2Isabelle.thy ===== *)
theory Spec2Isabelle
  imports Demand_Pipeline Idle_Deletion Shutdown Diagnostics Resolve_Provider Trace_Router Ingest_Backoff
    Tracker_Logging Hash_Json Component_Factories
begin

text \<open>
  A verification development of the LeanSignal agent, the Go program under \<open>src/\<close>.

  \<^bold>\<open>The program.\<close>  The agent is an OpenTelemetry collector with components of its own.  The
  metrics tracker explodes every batch of metrics into Prometheus series, counts their samples and
  broadcasts them to the edge controller, which keeps three caches: the series it knows with
  their samples per hour, the discovered series the backend does not know yet, and the demand.
  Over one control stream the edge controller announces new series, reports active ones and
  withdraws idle ones, each request waiting for the acknowledgement with its correlation id;
  the backend pushes demand sets, queries to the local stores and configuration updates over the
  same stream.  Three demand filters, for metrics, logs and traces, sit in the pipelines in front
  of the exporters, find the edge controller through the collector's host and forward only what
  the current demand asks for.  Traces may be demanded per rule; the trace router then pushes one
  request per rule.  The ingest valve pauses an exporter while the backend answers 403.

  \<^bold>\<open>The theories, and the code they model.\<close>
  \<^item> \<open>Prelude\<close>: finite maps as Go maps, lists, the named collections \<open>go_lookup\<close> and
    \<open>go_string\<close>.  \<open>Go_Strings\<close>, \<open>Go_Strconv\<close>, \<open>Go_Http\<close>, \<open>Go_Os\<close>: what
    the agent uses of the standard library (strings as bytes, UTF-8 runes, quoting, header names,
    paths, an explicit file system whose every call may fail).  \<open>Pdata\<close>: telemetry batches;
    the attribute maps of the \<open>pdata\<close> module are an argument with the laws \<open>pcommon_laws\<close>.
  \<^item> \<open>Selector_Match\<close>: \<open>components/selectormatch/selector.go\<close>, the recursive-descent parser of
    the selector language and matching.  \<open>Prom_Naming\<close>: \<open>internal/promnaming\<close>.
  \<^item> \<open>Providers\<close>: the extensions a filter finds at its host, \<open>tracedemand/route.go\<close>, and the
    locales \<open>transparent_cache\<close> and \<open>keyed_store\<close>: a memoised function gives the answers of
    the function it memoises.  All four selector caches interpret them.
  \<^item> \<open>Demand_Filter\<close>, \<open>Log_Demand_Filter\<close>, \<open>Trace_Demand_Filter\<close>: the three filter
    processors, \<open>Start\<close> and consuming included.  \<open>Trace_Router\<close>: \<open>components/tracerouter\<close>.
    \<open>Ingest_Backoff\<close>: \<open>components/ingestbackoff\<close>, with a step relation for concurrent pushes.
  \<^item> \<open>Metrics_Index\<close>, \<open>Hash_Json\<close>: keys, entries, the receiver registry and the JSON form of
    keys of \<open>components/metricsindex\<close>.  \<open>Metrics_Tracker\<close>, \<open>Tracker_Logging\<close>:
    \<open>components/metricstracker\<close> and its debug log.
  \<^item> \<open>Known_Cache\<close>, \<open>Discovered_Cache\<close>, \<open>Demand_Cache\<close>, \<open>Demand_Matcher\<close>: the files of
    the same names under \<open>components/edgecontroller\<close>; \<open>Batch_Source\<close>: the locale
    \<open>batch_source\<close>, what a cache promises to the loop that syncs it, interpreted by the
    discovered cache and by the idle series of the known cache.
  \<^item> \<open>Agent_Protocol\<close>: the messages of the control stream.  \<open>Edge_Config\<close>: \<open>config.go\<close> and the
    defaults.  \<open>Edge_Controller\<close>: \<open>extension.go\<close>, the state record, the
    demand getters, received batches, correlated requests and the message handler, with a step
    relation of concurrent calls.  \<open>Batch_Feed\<close>: a received batch by its critical sections.
    \<open>Timeseries_Processor\<close>: \<open>timeseries_processor.go\<close>, one turn as a function;
    \<open>Processor_Steps\<close>: the same goroutine as a program counter, with the refinement
    \<open>turn_moves\<close> that a turn of the function is a run of the steps.  \<open>Heartbeat_Steps\<close>: the
    heartbeat goroutine, as a loop and by its critical sections (\<open>tick_is_moves\<close>).
    \<open>Query_Handler\<close>: \<open>query_handler.go\<close>, the handler by its four actions (slot, query,
    response, release), run alone and interleaved (\<open>tunnel_step\<close>).  \<open>Config_Manager\<close>: \<open>config_manager.go\<close>,
    \<open>config_handler.go\<close>.  \<open>Diagnostics\<close>: \<open>diagnostics.go\<close>.  \<open>Agent_Steps\<close>: start,
    shutdown, the connection, receive and heartbeat loops of \<open>extension.go\<close> and \<open>telemetry.go\<close>;
    its step relation \<open>agent_step\<close> puts all goroutines of the edge controller together.
    \<open>Agent_Runs\<close>: the invariants of its runs.  \<open>Control_Stream\<close>: the properties they give.
    \<open>Inventory\<close>: the series over runs of the whole agent.  \<open>Idle_Deletion\<close>: which series it
    forgets.  \<open>Shutdown\<close>: how a run ends.
  \<^item> \<open>Resolve_Provider\<close>: \<open>components/resolveprovider\<close>, with \<open>Go_Url\<close> for query strings.
    \<open>Default_Configs\<close>, \<open>Component_Factories\<close>: the factories, their type names, defaults and
    creators, and the declared capabilities.
  \<^item> \<open>Demand_Pipeline\<close> and this theory join the components: the tracker and the filter see the
    same series, and the edge controller is the provider of the filters.

  \<^bold>\<open>What is shown.\<close>
  \<^item> Filters: over every run of batches, with the caches warm or cold, exactly the demanded
    datapoints, log resources and spans are forwarded (\<open>ConsumeMetrics_exact\<close>,
    \<open>ConsumeLogs_exact\<close>, \<open>ConsumeTraces_exact\<close>); in every run of the agent the demand is
    that of the last push on any stream (\<open>demand_is_last_pushed\<close>) and governs the next batch,
    also when the demand changes between the two reads a filter makes
    (\<open>pushed_demand_governs\<close>); a tracked series that is demanded survives
    (\<open>demanded_series_survive\<close>).  Only the trace routes lag behind while a push is half
    applied, and a batch consumed then can lose a resource (\<open>half_push_drops\<close>).
  \<^item> Selector language: parsing gives well-formed selectors, and printing and parsing round-trip.
  \<^item> Inventory: tracked series are discovered (\<open>tracked_series_discovered\<close>), totals are the
    samples of the last eight hours (\<open>eight_hour_window\<close>), every discovered series is announced
    exactly once to a backend that answers (\<open>every_series_announced\<close>).  In every run of the
    agent a known series waits or was announced and acknowledged (\<open>known_series_announced\<close>), and
    no step takes a series from a cache or marks it without the acknowledgement of the call that
    names it (\<open>changes_acknowledged\<close>); a series is forgotten only if the turn's scan found it
    idle (\<open>deleted_were_idle\<close>).  A series that returns in the middle of its deletion is the case
    in which the announcement is older than the deletion (\<open>comeback_not_announced\<close>) or the fresh
    sample is forgotten with it (\<open>fresh_sample_forgotten\<close>).
  \<^item> Control stream: acknowledgements reach the call they answer in every run of the agent, over
    any number of sessions and concurrent calls (\<open>calls_matched\<close>); in every
    interleaving queries are answered once (\<open>query_answered_once\<close>), and they reach exactly the
    read endpoints of the configured store (\<open>query_confined\<close>); a configuration is in place only when
    it was validated with the collector's own sources (\<open>config_applied\<close>,
    \<open>validated_sources\<close>), and a refused one changes nothing; a heartbeat echoes the demand set of its tick
    (\<open>heartbeat_echoes\<close>), so the backend sees which push arrived; the connection metrics describe the run.
    A shutdown lets at most one more attempt begin and a processor take at most fifteen more
    steps (\<open>shutdown_bounds\<close>), and its wait can always end (\<open>shutdown_completes\<close>).
  \<^item> Configuration: all references are answered by one lookup of at most three requests, with
    endpoints in the region the control centre named.
  \<^item> Egress: the valve's pause, probe and spacing; filter and router together give every rule
    exactly the resources it demands (\<open>routed_groups\<close>), and the outcome of a push tells what the
    endpoint answered (\<open>pushTraces_outcome\<close>).

  \<^bold>\<open>Concurrency, time and bounds.\<close>  Operations under one mutex are one step
  (so a request is drawn, entered and sent in three steps, a series of a batch is looked up,
  added and updated in three, a demand set is applied in two and answered in a third, and a heartbeat
  is read in six and sent), and so are sending one message and handling any other server message.  A
  message whose stream was read before a session ended may go to that dead stream: it is lost or
  refused there.  The clock, the
  iteration order of Go maps and the transport are arguments, so the theorems hold for all of them.
  Counters, ring positions and correlation ids are machine words; theorems that need it bound
  the number of requests or the clock, never the data.  Every loop is a total function; the
  number of turns that suffices is part of \<open>every_series_announced\<close>: the number of batches of
  5000 entries, rounded up.

  \<^bold>\<open>Not modelled.\<close>  Third-party code is an argument of the definitions that call it:
  regular expressions, the metric namer, attribute maps, the hash xxh3, HTTP, protobuf, YAML, the
  OpenTelemetry meter.  Left out are log lines (but for the tracker's debug log, which carries
  data), what the collector does with the factories, the generated
  protobuf code (of the messages the fields are modelled, not the accessors and the wire format), gRPC itself with its keep-alive timers, and the collector's queue and retry
  machinery around the trace router.
\<close>

section \<open>The tracker and the filter\<close>

text \<open>
  C3: what is tracked and demanded survives the filter.  Every series the tracker derives from a
  batch, when a selector of the demand accepts its name and its labels, is still derived from
  the batch the filter forwards; the same holds for demand given by names.  So a series the
  backend sees in the index and asks for is delivered.
\<close>

theorem demanded_series_survive:
  assumes "(name, labels) \<in> set (batch_series u pc namer fmtg md)"
  shows "(raw \<in> set raws \<and> Parse lib raw = Inr sel \<and> selector_demands lib sel name labels \<longrightarrow>
      (name, labels) \<in> set (batch_series u pc namer fmtg
         (filterBySelectors lib u pc namer md (compileSelectors lib raws))))
    \<and> (name \<in> set demands \<longrightarrow>
      (name, labels) \<in> set (batch_series u pc namer fmtg (filterByNames namer md demands)))"
proof -
  obtain f s where f: "f \<in> set (flat md)" "s \<in> set (dp_series namer fmtg f)" "labelled u pc s = (name, labels)"
    using assms unfolding batch_series_flat by fastforce
  then have "dp_demanded lib u pc namer raws f"
    if "raw \<in> set raws" "Parse lib raw = Inr sel" "selector_demands lib sel name labels"
    using demanded_series_dp [OF f(1,2) that(1,2), of u pc] f(3) that(3) by simp
  moreover have "dp_name_demanded namer demands f" if "name \<in> set demands"
    using demanded_name_dp [OF f(1,2), of u pc] that f(3) by simp
  moreover have "(name, labels) \<in> set (batch_series u pc namer fmtg md')" if "f \<in> set (flat md')" for md'
    using f(2,3) that by (force simp: batch_series_flat)
  ultimately show ?thesis by (simp add: filterBySelectors_flat filterByNames_flat f(1))
qed

text \<open>Witness of C3 (\<open>demanded_series_survive\<close>).\<close>

theorem demanded_series_survive_witness:
  "up_series \<in> set (batch_series latin_tables list_pcommon plain_namer (\<lambda>f. '''')
     (filterByNames plain_namer counter_batch [''up'']))"
proof -
  have "(fst up_series, snd up_series) \<in> set (batch_series latin_tables list_pcommon plain_namer (\<lambda>f. '''') counter_batch)"
    by (simp add: counter_batch_series)
  from demanded_series_survive [OF this, of _ _ literal_regexp _ "[''up'']"]
  show ?thesis by (simp add: up_series_def)
qed

section \<open>From a push to the next batch\<close>

lemma run_reads:
  assumes "agent_run cfg hc rl es a"
  shows "GetDemands (a_edge a) = wanted set_Metrics (last_demand None es)"
    "GetMetricSelectors (a_edge a) = wanted set_MetricSelectors (last_demand None es)"
    "GetLogDemands (a_edge a) = wanted set_LogSelectors (last_demand None es)"
    "GetTraceDemands (a_edge a) = wanted set_TraceSelectors (last_demand None es)"
    "GetTraceRoutes (a_edge a) = wanted (\<lambda>ds. traceRoutesFromProto (set_TraceDemands ds)) (last_routes None es)"
  using run_push_inv [OF assms(1)]
  by (simp_all add: push_inv_def lists_in_force_def routes_in_force_def GetDemands_def GetMetricSelectors_def GetLogDemands_def
      GetTraceDemands_def GetTraceRoutes_def)

text \<open>
  C1: the last pushed demand set governs the filters.  Take any run of the agent, with any number of
  sessions and outages and any interleaving of its goroutines, and a batch for which a filter
  makes its first read after the events \<open>es\<close> and its second, if it needs one, after \<open>fs\<close> more.
  Whatever batches the three filters served before, and whatever demand they cached for them, this
  batch is filtered by exactly the lists of the last demand set received when they were read, and
  by nothing (so everything is dropped) when none was received: metrics by the metric selectors
  or else the names, logs by the log selectors, traces by the routes or else the trace selectors.
  The routes lag behind the lists only while the receive loop is between the two.
\<close>

theorem pushed_demand_governs:
  fixes lib :: "'re regexp_lib"
  assumes run: "agent_run cfg hc rl es a" "agent_run cfg hc rl (es @ fs) b" and r: "r = (a_edge a, a_edge b)"
    and m: "list_all (\<lambda>x. GetMetricSelectors (fst (fst x)) = [] \<or> nul_free (GetMetricSelectors (fst (fst x)))) (ms @ [(r, md)])"
    and l: "list_all (\<lambda>x. GetLogDemands (fst (fst x)) = [] \<or> nul_free (GetLogDemands (fst (fst x)))) (ls @ [(r, ld)])"
    and t: "list_all (\<lambda>x. (GetTraceRoutes (fst (fst x)) = [] \<or> key_safe (GetTraceRoutes (fst (fst x))))
        \<and> (GetTraceDemands (snd (fst x)) = [] \<or> nul_free (GetTraceDemands (snd (fst x))))) (ts @ [(r, td)])"
  shows "last (fst (serve (consume_flat lib u pc namer)
        (Start newDemandFilterProcessor [edge_reader]) (ms @ [(r, md)])))
      = filter (metric_demanded lib u pc namer (wanted set_MetricSelectors (last_demand None es))
          (wanted set_Metrics (last_demand None (es @ fs)))) (flat md)
    \<and> last (fst (serve (consume_logs lib pc)
        (log_Start newLogDemandFilterProcessor [edge_reader]) (ls @ [(r, ld)])))
      = filter (log_demanded lib pc (wanted set_LogSelectors (last_demand None es))) ld
    \<and> last (fst (serve (consume_traces lib pc spanCount)
        (trace_Start newTraceDemandFilterProcessor [edge_reader]) (ts @ [(r, td)])))
      = with_spans spanCount (trace_selected lib pc
          (wanted (\<lambda>ds. traceRoutesFromProto (set_TraceDemands ds)) (last_routes None es))
          (wanted set_TraceSelectors (last_demand None (es @ fs))) td)
    \<and> (push_settled a \<longrightarrow> last_routes None es = last_demand None es)"
proof (intro conjI)
  note reads = run_reads [OF run(1)] run_reads [OF run(2)]
  let ?p = "Start newDemandFilterProcessor [edge_reader] :: (edgeControllerExtension \<times> edgeControllerExtension, 're) demandFilterProcessor"
  let ?q = "log_Start newLogDemandFilterProcessor [edge_reader] :: (edgeControllerExtension \<times> edgeControllerExtension, 're) logDemandFilterProcessor"
  let ?r = "trace_Start newTraceDemandFilterProcessor [edge_reader] :: (edgeControllerExtension \<times> edgeControllerExtension, 're) traceDemandFilterProcessor"
  have "list_all (\<lambda>x. selectors_now ?p (fst x) = [] \<or> nul_free (selectors_now ?p (fst x))) (ms @ [(r, md)])"
    using m unfolding edge_reads comp_def .
  with metric_filter.serve_fresh [of lib ?p ?p "ms @ [(r, md)]" u pc namer] coherent_started [of lib "[edge_reader]"]
  show "last (fst (serve (consume_flat lib u pc namer) ?p (ms @ [(r, md)])))
      = filter (metric_demanded lib u pc namer (wanted set_MetricSelectors (last_demand None es))
          (wanted set_Metrics (last_demand None (es @ fs)))) (flat md)"
    by (simp add: edge_reads edge_provider reads r del: Start.simps)
  have "list_all (\<lambda>x. log_demands_now ?q (fst x) = [] \<or> nul_free (log_demands_now ?q (fst x))) (ls @ [(r, ld)])"
    using l unfolding edge_reads comp_def .
  with log_filter.serve_fresh [of lib ?q ?q "ls @ [(r, ld)]" pc] log_coherent_started [of lib "[edge_reader]"]
  show "last (fst (serve (consume_logs lib pc) ?q (ls @ [(r, ld)])))
      = filter (log_demanded lib pc (wanted set_LogSelectors (last_demand None es))) ld"
    by (simp add: edge_reads edge_provider reads r del: log_Start.simps)
  have "list_all (\<lambda>x. trace_ready ?r (fst x)) (ts @ [(r, td)])"
    using t unfolding trace_ready_def edge_reads comp_def .
  with trace_filter.serve_fresh [of lib ?r ?r "ts @ [(r, td)]" pc spanCount] trace_coherent_started [of lib "[edge_reader]"]
  show "last (fst (serve (consume_traces lib pc spanCount) ?r (ts @ [(r, td)])))
      = with_spans spanCount (trace_selected lib pc
          (wanted (\<lambda>ds. traceRoutesFromProto (set_TraceDemands ds)) (last_routes None es))
          (wanted set_TraceSelectors (last_demand None (es @ fs))) td)"
    by (simp add: edge_reads edge_provider reads r del: trace_Start.simps)
  show "push_settled a \<longrightarrow> last_routes None es = last_demand None es" using run_push_inv [OF run(1)] by (simp add: push_inv_def)
qed

definition demo_demand :: DemandSet where
  "demo_demand = \<lparr>set_Metrics = [''up''], set_Hash = 7, set_LogSelectors = [log_selector ''api''],
     set_TraceSelectors = [api_selector], set_MetricSelectors = [], set_TraceDemands = []\<rparr>"

definition demo_snapshot :: ConfigSnapshot where
  "demo_snapshot = \<lparr>cs_Files = [], cs_PrimaryPath = '''', cs_WriteEnabled = False, cs_Error = ''''\<rparr>"

definition pushed_state :: "64 word \<Rightarrow> DemandSet \<Rightarrow> agent \<Rightarrow> agent" where
  "pushed_state i ds a = with_edge a
     (handleServerMessage (\<lambda>_ _. True) 0 demo_snapshot \<lparr>sm_CorrelationId = i, sm_Body = ServerMessage_DemandSet ds\<rparr> (a_edge a))"

definition demo_after :: agent where
  "demo_after = pushed_state 1 demo_demand demo_serving"

lemma demo_after_run:
  "agent_run cfg hc lib (demo_events @ push_trace 1 demo_demand) demo_after"
  "phase demo_after = Serving" "recv_at demo_after = Receiving"
  unfolding demo_after_def pushed_state_def by (rule push_run [OF session_run demo_serving_phase]) (simp_all add: demo_serving_phase)

lemma demo_after_last:
  "last_demand None (demo_events @ push_trace 1 demo_demand) = Some demo_demand"
  "last_routes None (demo_events @ push_trace 1 demo_demand) = Some demo_demand"
  by (simp_all add: demo_events_def push_trace_def pushed_def routes_applied_def)

text \<open>Witness of C1 (\<open>pushed_demand_governs\<close>): a push in the first session, seen by the
  log filter.\<close>

theorem pushed_demand_governs_witness:
  "last (fst (serve (consume_logs literal_regexp list_pcommon)
      (log_Start newLogDemandFilterProcessor [edge_reader]) ([] @ [((a_edge demo_after, a_edge demo_after), log_batch)])))
   = take 1 log_batch"
proof -
  let ?es = "demo_events @ push_trace 1 demo_demand"
  have free: "nul_free [log_selector ''api'']" "nul_free [api_selector]" by code_simp+
  have run: "agent_run store_config echo_http literal_regexp ?es demo_after"
    "agent_run store_config echo_http literal_regexp (?es @ []) demo_after"
    using demo_after_run by simp_all
  note reads = run_reads [OF run(1), unfolded demo_after_last]
  have ok: "GetMetricSelectors (a_edge demo_after) = []" "nul_free (GetLogDemands (a_edge demo_after))"
    "GetTraceRoutes (a_edge demo_after) = []" "nul_free (GetTraceDemands (a_edge demo_after))"
    using free by (simp_all add: reads demo_demand_def traceRoutesFromProto_def)
  from pushed_demand_governs [OF run refl, of "[]" gauge_batch "[]" log_batch "[]" trace_batch
      literal_regexp latin_tables list_pcommon plain_namer "\<lambda>n. n"] ok
  have "last (fst (serve (consume_logs literal_regexp list_pcommon)
      (log_Start newLogDemandFilterProcessor [edge_reader]) ([] @ [((a_edge demo_after, a_edge demo_after), log_batch)])))
     = filter (log_demanded literal_regexp list_pcommon (set_LogSelectors demo_demand)) log_batch"
    by (simp add: demo_after_last del: log_Start.simps)
  then show ?thesis by (simp only: demo_demand_def DemandSet.simps log_batch_kept)
qed

definition routed_demand :: DemandSet where
  "routed_demand = \<lparr>set_Metrics = [''up''], set_Hash = 8, set_LogSelectors = [], set_TraceSelectors = [], set_MetricSelectors = [],
     set_TraceDemands = map (\<lambda>r. \<lparr>td_Selector = Selector r, td_FilterId = FilterID r\<rparr>) api_routes\<rparr>"

lemma routed_demand_routes: "traceRoutesFromProto (set_TraceDemands routed_demand) = api_routes"
  by code_simp

text \<open>
  C39: a half applied push drops what both demand sets ask for.  There is a run in which a demand set
  that asks for a resource by a trace selector is followed by one that asks for the same resource
  by routes: the resource is forwarded before the second push and after it, but a batch consumed
  between the two critical sections of that push finds neither routes nor trace selectors, and
  the resource is dropped.
\<close>

theorem half_push_drops:
  "\<exists>a b c. agent_run store_config echo_http literal_regexp (demo_events @ push_trace 1 demo_demand) a
     \<and> agent_step store_config echo_http literal_regexp a
         (Received \<lparr>sm_CorrelationId = 2, sm_Body = ServerMessage_DemandSet routed_demand\<rparr>) b
     \<and> agent_step store_config echo_http literal_regexp b (RoutesApplied routed_demand) c
     \<and> fst (serve (consume_traces literal_regexp list_pcommon (\<lambda>n. n)) (trace_Start newTraceDemandFilterProcessor [edge_reader])
          (map (\<lambda>s. ((a_edge s, a_edge s), trace_batch)) [a, b, c]))
       = [take 1 trace_batch, [], map (\<lambda>fid. stamp list_pcommon fid (hd trace_batch)) [''rule-1'', ''rule-2'']]"
proof -
  let ?es = "demo_events @ push_trace 1 demo_demand"
  let ?msg = "\<lparr>sm_CorrelationId = 2, sm_Body = ServerMessage_DemandSet routed_demand\<rparr>"
  let ?b = "recv_message (\<lambda>_ _. True) 0 demo_snapshot ?msg demo_after"
  let ?c = "recv_routes 2 routed_demand ?b"
  let ?p = "trace_Start newTraceDemandFilterProcessor [edge_reader]
    :: (edgeControllerExtension \<times> edgeControllerExtension, string) traceDemandFilterProcessor"
  let ?batches = "map (\<lambda>s. ((a_edge s, a_edge s), trace_batch)) [demo_after, ?b, ?c]"
  note a = demo_after_run(1) [of store_config echo_http literal_regexp] demo_after_run(2,3)
  have b: "agent_step store_config echo_http literal_regexp demo_after (Received ?msg) ?b" by (rule step_received [OF a(2,3)])
  have c: "agent_step store_config echo_http literal_regexp ?b (RoutesApplied routed_demand) ?c"
    by (rule step_routes) (simp add: recv_message_def)
  note rb = run_more [OF a(1) b]
  note rc = run_more [OF rb c]
  have last: "last_demand None (?es @ [Received ?msg]) = Some routed_demand" "last_routes None (?es @ [Received ?msg]) = Some demo_demand"
    "last_demand None ((?es @ [Received ?msg]) @ [RoutesApplied routed_demand]) = Some routed_demand"
    "last_routes None ((?es @ [Received ?msg]) @ [RoutesApplied routed_demand]) = Some routed_demand"
    by (simp_all only: latest_snoc demo_after_last) (simp_all add: pushed_def routes_applied_def)
  note reads = run_reads(4,5) [OF a(1), unfolded demo_after_last] run_reads(4,5) [OF rb, unfolded last] run_reads(4,5) [OF rc, unfolded last]
  have routes: "GetTraceRoutes (a_edge demo_after) = []" "GetTraceDemands (a_edge demo_after) = [api_selector]"
    "GetTraceRoutes (a_edge ?b) = []" "GetTraceDemands (a_edge ?b) = []"
    "GetTraceRoutes (a_edge ?c) = api_routes" "GetTraceDemands (a_edge ?c) = []"
    unfolding reads wanted_simps routed_demand_routes by (simp_all add: demo_demand_def routed_demand_def traceRoutesFromProto_def)
  have none: "with_spans (\<lambda>n. n) (trace_selected literal_regexp list_pcommon [] [] trace_batch) = []" by code_simp
  have "list_all (\<lambda>x. trace_ready ?p (fst x)) ?batches"
    using trace_batch_ready by (simp add: trace_ready_def edge_reads routes del: trace_Start.simps)
  from trace_filter.serve_fresh [of literal_regexp ?p ?p ?batches list_pcommon "\<lambda>n. n"] this trace_coherent_started [of literal_regexp "[edge_reader]"]
  have "fst (serve (consume_traces literal_regexp list_pcommon (\<lambda>n. n)) ?p ?batches)
      = [take 1 trace_batch, [], map (\<lambda>fid. stamp list_pcommon fid (hd trace_batch)) [''rule-1'', ''rule-2'']]"
    by (simp add: edge_reads edge_provider routes trace_batch_selected none del: trace_Start.simps)
  then show ?thesis using a(1) b c by blast
qed

section \<open>From a batch to the index\<close>

text \<open>
  C8: the edge controller learns every series of a tracked batch.  The batch is forwarded
  unchanged; afterwards a series is known exactly when it was known before or occurs in the
  batch, and every series that is new waits in the discovered cache with its name, its sorted
  labels and its count, provided the hash has no collision in the batch and the names follow the
  grammar.
\<close>

theorem tracked_series_discovered:
  assumes "ss = batch_series u pc namer fmtg md" "collision_free u xxh3 ss" "list_all series_ok ss"
    "known_wf (knownTimeseriesCache e)" "visits_batch visit"
  shows "\<exists>e'. tracker_ConsumeMetrics u pc namer fmtg xxh3 (edge_receive visit) [()] md (Some e) = (Forward md, Some e')
    \<and> (\<forall>k. IsTimeseriesKnown (knownTimeseriesCache e') k \<longleftrightarrow>
          IsTimeseriesKnown (knownTimeseriesCache e) k \<or> k \<in> series_key u xxh3 ` set ss)
    \<and> (\<forall>s \<in> set ss. \<not> IsTimeseriesKnown (knownTimeseriesCache e) (series_key u xxh3 s) \<longrightarrow>
          fmlookup (discovered (discoveredTimeseriesCache e')) (series_key u xxh3 s) =
          Some \<lparr>MetricName = fst s, Labels = extractSortedLabelPairs (snd s), Samples = int (count_list ss s)\<rparr>)"
proof -
  let ?d = "data (trackMetrics u pc namer fmtg xxh3 md NewCollectorTimeseries)"
  note entries = track_entries [OF assms(1-3)]
  have dom: "fmlookup ?d k \<noteq> None \<longleftrightarrow> k \<in> series_key u xxh3 ` set ss" for k
    unfolding conjunct2 [OF entries, symmetric] by (simp add: fmlookup_dom_iff)
  obtain e' where e': "edge_receive visit () \<lparr>Data = ?d\<rparr> (Some e) = Some e'"
    "\<forall>k. IsTimeseriesKnown (knownTimeseriesCache e') k \<longleftrightarrow>
          IsTimeseriesKnown (knownTimeseriesCache e) k \<or> fmlookup ?d k \<noteq> None"
    "\<forall>k. \<not> IsTimeseriesKnown (knownTimeseriesCache e) k \<longrightarrow> fmlookup ?d k \<noteq> None \<longrightarrow>
          fmlookup (discovered (discoveredTimeseriesCache e')) k = fmlookup ?d k"
    using received_batch [OF assms(5,4), of "\<lparr>Data = ?d\<rparr>"] by auto
  have "tracker_ConsumeMetrics u pc namer fmtg xxh3 (edge_receive visit) [()] md (Some e) = (Forward md, Some e')"
    using e'(1) by (simp add: tracker_ConsumeMetrics_def Broadcast_def copied_data)
  moreover have "\<forall>s \<in> set ss. \<not> IsTimeseriesKnown (knownTimeseriesCache e) (series_key u xxh3 s) \<longrightarrow>
      fmlookup (discovered (discoveredTimeseriesCache e')) (series_key u xxh3 s) =
      Some \<lparr>MetricName = fst s, Labels = extractSortedLabelPairs (snd s), Samples = int (count_list ss s)\<rparr>"
    using e'(3) conjunct1 [OF entries] by simp
  ultimately show ?thesis using e'(2) unfolding dom by blast
qed

text \<open>Witness of C8 (\<open>tracked_series_discovered\<close>).\<close>

theorem tracked_series_discovered_witness:
  "\<exists>e'. tracker_ConsumeMetrics latin_tables list_pcommon plain_namer (\<lambda>f. '''') toy_hash
      (edge_receive (\<lambda>b. map (\<lambda>k. (k, 60)) (sorted_keys (Data b)))) [()] counter_batch (Some newEdgeControllerExtension)
      = (Forward counter_batch, Some e')
    \<and> IsTimeseriesKnown (knownTimeseriesCache e') (series_key latin_tables toy_hash up_series)"
proof -
  have c: "collision_free latin_tables toy_hash [up_series, up_series]" "list_all series_ok [up_series, up_series]"
    using up_series_ok by (simp_all add: collision_free_def)
  have w: "known_wf (knownTimeseriesCache newEdgeControllerExtension)"
    by (simp add: newEdgeControllerExtension_def NewKnownTimeseriesCache_def known_wf_def)
  have v: "visits_batch (\<lambda>b. map (\<lambda>k. (k, 60)) (sorted_keys (Data b)))"
    by (auto simp: visits_batch_def enumerates_sorted_keys comp_def list_all_iff)
  show ?thesis using tracked_series_discovered [OF counter_batch_series [symmetric] c w v] by auto
qed

end
